(* ===== verification/Prelude.thy ===== *)
theory Prelude
  imports Main "HOL-Library.Word"
begin

text \<open>
  Shared vocabulary of the development: machine integers, byte strings, C strings, byte
  memories addressed by offsets, the conversions the C code performs between integer
  types, and the generic lemmas about them.

  The host is a little-endian machine (the \<^verbatim>\<open>__LITTLE_ENDIAN\<close> branch of
  \<^verbatim>\<open>src/src/byteswap.h\<close>): a word stored in memory appears with its least significant
  byte first.
\<close>

unbundle bit_operations_syntax

type_synonym u8 = "8 word"
type_synonym u16 = "16 word"
type_synonym u32 = "32 word"
type_synonym u64 = "64 word"
type_synonym bytes = "u8 list"

text \<open>A block of memory, by offset from its start. What lies past the end of an allocation
  is left arbitrary.\<close>

type_synonym mem = "nat \<Rightarrow> u8"

named_theorems mem_simps \<open>reading and writing byte memories\<close>
named_theorems cint_simps \<open>conversions between the integer types of C\<close>

subsection \<open>Integer conversions\<close>

text \<open>Conversion to \<^verbatim>\<open>uint16_t\<close>, to \<^verbatim>\<open>int\<close> and to \<^verbatim>\<open>size_t\<close> on a 64-bit host.\<close>

definition u16_of :: "int \<Rightarrow> nat" where
  "u16_of n = nat (n mod 2 ^ 16)"

definition c_int :: "int \<Rightarrow> int" where
  "c_int n = (n + 2 ^ 31) mod 2 ^ 32 - 2 ^ 31"

definition c_size :: "int \<Rightarrow> int" where
  "c_size n = n mod 2 ^ 64"

definition INT_MAX :: nat where
  "INT_MAX = 2 ^ 31 - 1"

subsection \<open>Words as bytes\<close>

fun le_bytes :: "nat \<Rightarrow> nat \<Rightarrow> bytes" where
  "le_bytes 0 x = []"
| "le_bytes (Suc n) x = word_of_nat x # le_bytes n (x div 256)"

fun le_nat :: "bytes \<Rightarrow> nat" where
  "le_nat [] = 0"
| "le_nat (b # bs) = unat b + 256 * le_nat bs"

definition be_bytes :: "nat \<Rightarrow> nat \<Rightarrow> bytes" where
  "be_bytes n x = rev (le_bytes n x)"

definition be_nat :: "bytes \<Rightarrow> nat" where
  "be_nat bs = le_nat (rev bs)"

text \<open>The object representation of a host integer of each width.\<close>

definition host16 :: "u16 \<Rightarrow> bytes" where
  "host16 w = le_bytes 2 (unat w)"

definition host32 :: "u32 \<Rightarrow> bytes" where
  "host32 w = le_bytes 4 (unat w)"

definition host64 :: "u64 \<Rightarrow> bytes" where
  "host64 w = le_bytes 8 (unat w)"

subsection \<open>Memory\<close>

fun mem_read :: "mem \<Rightarrow> nat \<Rightarrow> nat \<Rightarrow> bytes" where
  "mem_read m p 0 = []"
| "mem_read m p (Suc n) = m p # mem_read m (Suc p) n"

definition mem_write :: "mem \<Rightarrow> nat \<Rightarrow> bytes \<Rightarrow> mem" where
  "mem_write m p bs = (\<lambda>i. if p \<le> i \<and> i < p + length bs then bs ! (i - p) else m i)"

text \<open>Loads of a \<^verbatim>\<open>uint16_t\<close>, \<^verbatim>\<open>uint32_t\<close> and \<^verbatim>\<open>uint64_t\<close> through a pointer.\<close>

definition load16 :: "mem \<Rightarrow> nat \<Rightarrow> u16" where
  "load16 m p = word_of_nat (le_nat (mem_read m p 2))"

definition load32 :: "mem \<Rightarrow> nat \<Rightarrow> u32" where
  "load32 m p = word_of_nat (le_nat (mem_read m p 4))"

definition load64 :: "mem \<Rightarrow> nat \<Rightarrow> u64" where
  "load64 m p = word_of_nat (le_nat (mem_read m p 8))"

definition mem_at :: "mem \<Rightarrow> nat \<Rightarrow> bytes \<Rightarrow> bool" where
  "mem_at m p bs \<longleftrightarrow> mem_read m p (length bs) = bs"

text \<open>A memory that holds a given byte string at offset 0.\<close>

definition mem_of :: "bytes \<Rightarrow> mem" where
  "mem_of bs = (\<lambda>i. if i < length bs then bs ! i else 0)"

subsection \<open>C strings\<close>

text \<open>
  A \<^verbatim>\<open>char *\<close> is \<^term>\<open>None\<close> when it is NULL; otherwise it holds the allocated bytes
  before the terminator that every allocation in the code ends with. The bytes may contain
  an embedded NUL when they were copied from the network, so the string the C library
  functions see is the part before the first NUL.
\<close>

type_synonym cstr = bytes

definition c_str :: "cstr \<Rightarrow> bytes" where
  "c_str s = takeWhile (\<lambda>b. b \<noteq> 0) s"

definition strlen :: "cstr \<Rightarrow> nat" where
  "strlen s = length (c_str s)"

definition strdup :: "cstr \<Rightarrow> cstr" where
  "strdup s = c_str s"

definition no_nul :: "cstr \<Rightarrow> bool" where
  "no_nul s \<longleftrightarrow> 0 \<notin> set s"

text \<open>String literals of the source as byte strings.\<close>

definition lit :: "string \<Rightarrow> cstr" where
  "lit s = map (\<lambda>c. word_of_nat (of_char c)) s"

subsection \<open>Lemmas: integer conversions\<close>

lemma u16_of_id [cint_simps]: "0 \<le> n \<Longrightarrow> n < 65536 \<Longrightarrow> u16_of n = nat n"
  by (simp add: u16_of_def)

lemma u16_of_nat [cint_simps]: "n < 65536 \<Longrightarrow> u16_of (int n) = n"
  by (simp add: u16_of_def)

lemma u16_of_less [simp]: "u16_of n < 65536"
  by (simp add: u16_of_def nat_less_iff)

lemma u16_of_le: "u16_of (int n) \<le> n"
  by (simp add: u16_of_def nat_le_iff zmod_le_nonneg_dividend)

lemma c_int_id [cint_simps]: "- (2 ^ 31) \<le> n \<Longrightarrow> n < 2 ^ 31 \<Longrightarrow> c_int n = n"
  by (simp add: c_int_def)

lemma c_size_id [cint_simps]: "0 \<le> n \<Longrightarrow> n < 2 ^ 64 \<Longrightarrow> c_size n = n"
  by (simp add: c_size_def)

subsection \<open>Lemmas: byte encodings\<close>

lemma unat_less_width [simp]:
  "unat (b :: u8) < 256" "unat (v :: u16) < 65536" "unat (w :: u32) < 4294967296"
  "unat (x :: u64) < 18446744073709551616"
  by (rule unsigned_less [THEN less_le_trans], simp)+

lemma word_of_unat_mod [simp]:
  "word_of_nat (unat (v :: u16) mod 65536) = v"
  "word_of_nat (unat (w :: u32) mod 4294967296) = w"
  "word_of_nat (unat (x :: u64) mod 18446744073709551616) = x"
  by simp_all

lemma length_le_bytes [simp]: "length (le_bytes n x) = n"
  by (induction n arbitrary: x) auto

lemma length_be_bytes [simp]: "length (be_bytes n x) = n"
  by (simp add: be_bytes_def)

lemma length_host [simp]:
  "length (host16 w) = 2" "length (host32 v) = 4" "length (host64 u) = 8"
  by (simp_all add: host16_def host32_def host64_def)

lemma le_nat_le_bytes: "le_nat (le_bytes n x) = x mod 256 ^ n"
proof (induction n arbitrary: x)
  case 0
  then show ?case by simp
next
  case (Suc n)
  have "x mod 256 ^ Suc n = x mod 256 + 256 * (x div 256 mod 256 ^ n)"
    by (simp add: mod_mult2_eq mult.commute)
  then show ?case by (simp add: Suc unat_of_nat)
qed

lemma le_nat_bound: "le_nat bs < 256 ^ length bs"
proof (induction bs)
  case Nil
  then show ?case by simp
next
  case (Cons b bs)
  have "unat b < 256" by simp
  then have "unat b + 256 * le_nat bs < 256 * (le_nat bs + 1)" by simp
  moreover have "le_nat bs + 1 \<le> 256 ^ length bs" using Cons by simp
  then have "256 * (le_nat bs + 1) \<le> 256 * 256 ^ length bs"
    by (rule mult_le_mono2)
  ultimately have "unat b + 256 * le_nat bs < 256 * 256 ^ length bs" by linarith
  then show ?case by simp
qed

lemma le_bytes_le_nat: "le_bytes (length bs) (le_nat bs) = bs"
proof (induction bs)
  case Nil
  then show ?case by simp
next
  case (Cons b bs)
  have b: "unat b < 256" by simp
  have z: "(256 :: u8) = 0" by simp
  have "(word_of_nat (unat b + 256 * le_nat bs) :: u8) = b"
    by (simp add: z)
  moreover have "(unat b + 256 * le_nat bs) div 256 = le_nat bs"
    using b by simp
  ultimately show ?case using Cons by simp
qed

lemma be_nat_be_bytes: "be_nat (be_bytes n x) = x mod 256 ^ n"
  by (simp add: be_nat_def be_bytes_def le_nat_le_bytes)

subsection \<open>Lemmas: memory\<close>

lemma length_mem_read [simp]: "length (mem_read m p n) = n"
  by (induction n arbitrary: p) auto

lemma mem_read_nth: "i < n \<Longrightarrow> mem_read m p n ! i = m (p + i)"
proof (induction n arbitrary: p i)
  case 0
  then show ?case by simp
next
  case (Suc n)
  then show ?case by (cases i) auto
qed

lemma mem_read_cong:
  "(\<And>i. p \<le> i \<Longrightarrow> i < p + n \<Longrightarrow> m i = m' i) \<Longrightarrow> mem_read m p n = mem_read m' p n"
  by (rule nth_equalityI) (auto simp: mem_read_nth)

lemma mem_read_append: "mem_read m p (a + b) = mem_read m p a @ mem_read m (p + a) b"
  by (induction a arbitrary: p) auto

lemma mem_read_write [mem_simps]: "mem_read (mem_write m p bs) p (length bs) = bs"
  by (rule nth_equalityI) (auto simp: mem_read_nth mem_write_def)

lemma mem_read_write_before [mem_simps]:
  "q + n \<le> p \<Longrightarrow> mem_read (mem_write m p bs) q n = mem_read m q n"
  by (rule mem_read_cong) (auto simp: mem_write_def)

lemma mem_read_take: "n \<le> k \<Longrightarrow> take n (mem_read m p k) = mem_read m p n"
  by (metis append_eq_conv_conj le_add_diff_inverse length_mem_read mem_read_append)

lemma mem_read_drop: "n \<le> k \<Longrightarrow> drop n (mem_read m p k) = mem_read m (p + n) (k - n)"
  by (metis append_eq_conv_conj le_add_diff_inverse length_mem_read mem_read_append)

lemma mem_at_append [mem_simps]:
  "mem_at m p (xs @ ys) \<longleftrightarrow> mem_at m p xs \<and> mem_at m (p + length xs) ys"
  by (auto simp: mem_at_def mem_read_append)

lemma mem_at_Nil [mem_simps]: "mem_at m p []"
  by (simp add: mem_at_def)

lemma mem_at_mem_of [mem_simps]: "mem_at (mem_of bs) 0 bs"
  unfolding mem_at_def by (rule nth_equalityI) (auto simp: mem_read_nth mem_of_def)

lemma mem_at_prefix: "mem_at m p bs \<Longrightarrow> n \<le> length bs \<Longrightarrow> mem_read m p n = take n bs"
  by (metis mem_at_def mem_read_take)

lemma mem_at_agree:
  assumes "mem_at m p bs" "mem_at m' q bs" "n \<le> length bs"
  shows "mem_read m p n = mem_read m' q n"
  using assms by (simp add: mem_at_prefix)

lemma load16_host [mem_simps]: "mem_at m p (host16 w) \<Longrightarrow> load16 m p = w"
  by (simp add: mem_at_def load16_def host16_def le_nat_le_bytes)

lemma load32_host [mem_simps]: "mem_at m p (host32 w) \<Longrightarrow> load32 m p = w"
  by (simp add: mem_at_def load32_def host32_def le_nat_le_bytes)

lemma load64_host [mem_simps]: "mem_at m p (host64 w) \<Longrightarrow> load64 m p = w"
  by (simp add: mem_at_def load64_def host64_def le_nat_le_bytes)

subsection \<open>Lemmas: C strings\<close>

lemma c_str_no_nul [simp]: "no_nul (c_str s)"
  by (auto simp: no_nul_def c_str_def dest: set_takeWhileD)

lemma c_str_id [simp]: "no_nul s \<Longrightarrow> c_str s = s"
  by (auto simp: no_nul_def c_str_def)

lemma strlen_id [simp]: "no_nul s \<Longrightarrow> strlen s = length s"
  by (simp add: strlen_def)

lemma strdup_strdup [simp]: "strdup (strdup s) = strdup s"
  by (simp add: strdup_def)

lemma strlen_le: "strlen s \<le> length s"
  by (simp add: strlen_def c_str_def length_takeWhile_le)

lemma take_strlen: "take (strlen s) s = c_str s"
  by (simp add: strlen_def c_str_def takeWhile_eq_take [symmetric])

end
