(* ===== verification/Intercept_Types.thy ===== *)
theory Intercept_Types
  imports Prelude
begin

text \<open>
  The data that the provisioner, the collectors and the mediators exchange:
  \<^verbatim>\<open>src/src/intercept.h\<close>, \<^verbatim>\<open>src/src/agency.h\<close>, \<^verbatim>\<open>src/src/coreserver.h\<close> and the
  mediator record of \<^verbatim>\<open>src/src/netcomms.h\<close>.

  A struct is a record with the fields in the source's order. An enum-typed member is a
  32-bit word, since the code also stores values it has read from the network there; the
  enumerators are constants. A \<^verbatim>\<open>char *\<close> is a \<^typ>\<open>cstr option\<close>. A uthash table is the
  list of its items in insertion order, which is the order its iteration macro visits. A
  pointer that is only stored and compared is a \<^typ>\<open>nat option\<close>.
\<close>

type_synonym ptr = "nat option"

subsection \<open>Enumerations\<close>

definition OPENLI_VENDOR_MIRROR_NONE :: u32 where
  "OPENLI_VENDOR_MIRROR_NONE = 0xffffffff"

definition INTERNET_ACCESS_TYPE_UNDEFINED :: u32 where "INTERNET_ACCESS_TYPE_UNDEFINED = 0"
definition INTERNET_ACCESS_TYPE_DIALUP :: u32 where "INTERNET_ACCESS_TYPE_DIALUP = 1"
definition INTERNET_ACCESS_TYPE_XDSL :: u32 where "INTERNET_ACCESS_TYPE_XDSL = 2"
definition INTERNET_ACCESS_TYPE_CABLEMODEM :: u32 where "INTERNET_ACCESS_TYPE_CABLEMODEM = 3"
definition INTERNET_ACCESS_TYPE_LAN :: u32 where "INTERNET_ACCESS_TYPE_LAN = 4"
definition INTERNET_ACCESS_TYPE_WIRELESS_LAN :: u32 where
  "INTERNET_ACCESS_TYPE_WIRELESS_LAN = 5"
definition INTERNET_ACCESS_TYPE_FIBER :: u32 where "INTERNET_ACCESS_TYPE_FIBER = 6"
definition INTERNET_ACCESS_TYPE_WIMAX :: u32 where "INTERNET_ACCESS_TYPE_WIMAX = 7"
definition INTERNET_ACCESS_TYPE_SATELLITE :: u32 where "INTERNET_ACCESS_TYPE_SATELLITE = 8"
definition INTERNET_ACCESS_TYPE_WIRELESS_OTHER :: u32 where
  "INTERNET_ACCESS_TYPE_WIRELESS_OTHER = 9"
definition INTERNET_ACCESS_TYPE_MOBILE :: u32 where "INTERNET_ACCESS_TYPE_MOBILE = 32"

lemmas access_type_defs =
  INTERNET_ACCESS_TYPE_UNDEFINED_def INTERNET_ACCESS_TYPE_DIALUP_def
  INTERNET_ACCESS_TYPE_XDSL_def INTERNET_ACCESS_TYPE_CABLEMODEM_def
  INTERNET_ACCESS_TYPE_LAN_def INTERNET_ACCESS_TYPE_WIRELESS_LAN_def
  INTERNET_ACCESS_TYPE_FIBER_def INTERNET_ACCESS_TYPE_WIMAX_def
  INTERNET_ACCESS_TYPE_SATELLITE_def INTERNET_ACCESS_TYPE_WIRELESS_OTHER_def
  INTERNET_ACCESS_TYPE_MOBILE_def

definition OPENLI_PAYLOAD_ENCRYPTION_NOT_SPECIFIED :: u32 where
  "OPENLI_PAYLOAD_ENCRYPTION_NOT_SPECIFIED = 0"
definition OPENLI_PAYLOAD_ENCRYPTION_NONE :: u32 where
  "OPENLI_PAYLOAD_ENCRYPTION_NONE = 1"
definition OPENLI_PAYLOAD_ENCRYPTION_NATIONAL :: u32 where
  "OPENLI_PAYLOAD_ENCRYPTION_NATIONAL = 2"
definition OPENLI_PAYLOAD_ENCRYPTION_AES_192_CBC :: u32 where
  "OPENLI_PAYLOAD_ENCRYPTION_AES_192_CBC = 3"
definition OPENLI_PAYLOAD_ENCRYPTION_AES_256_CBC :: u32 where
  "OPENLI_PAYLOAD_ENCRYPTION_AES_256_CBC = 4"
definition OPENLI_PAYLOAD_ENCRYPTION_BLOWFISH_192_CBC :: u32 where
  "OPENLI_PAYLOAD_ENCRYPTION_BLOWFISH_192_CBC = 5"
definition OPENLI_PAYLOAD_ENCRYPTION_BLOWFISH_256_CBC :: u32 where
  "OPENLI_PAYLOAD_ENCRYPTION_BLOWFISH_256_CBC = 6"
definition OPENLI_PAYLOAD_ENCRYPTION_THREEDES_CBC :: u32 where
  "OPENLI_PAYLOAD_ENCRYPTION_THREEDES_CBC = 7"

definition OPENLI_VOIPINT_OPTION_IGNORE_COMFORT :: nat where
  "OPENLI_VOIPINT_OPTION_IGNORE_COMFORT = 0"

definition OPENLI_IPINT_OPTION_RADIUS_IDENT_CSID :: nat where
  "OPENLI_IPINT_OPTION_RADIUS_IDENT_CSID = 0"
definition OPENLI_IPINT_OPTION_RADIUS_IDENT_USER :: nat where
  "OPENLI_IPINT_OPTION_RADIUS_IDENT_USER = 1"

definition OPENLI_INTERCEPT_OUTPUTS_ALL :: u32 where "OPENLI_INTERCEPT_OUTPUTS_ALL = 0"
definition OPENLI_INTERCEPT_OUTPUTS_IRIONLY :: u32 where "OPENLI_INTERCEPT_OUTPUTS_IRIONLY = 1"
definition OPENLI_INTERCEPT_OUTPUTS_CCONLY :: u32 where "OPENLI_INTERCEPT_OUTPUTS_CCONLY = 2"

definition OPENLI_EMAILINT_DELIVER_COMPRESSED_ASIS :: u8 where
  "OPENLI_EMAILINT_DELIVER_COMPRESSED_ASIS = 0"
definition OPENLI_EMAILINT_DELIVER_COMPRESSED_INFLATED :: u8 where
  "OPENLI_EMAILINT_DELIVER_COMPRESSED_INFLATED = 1"
definition OPENLI_EMAILINT_DELIVER_COMPRESSED_NOT_SET :: u8 where
  "OPENLI_EMAILINT_DELIVER_COMPRESSED_NOT_SET = 254"
definition OPENLI_EMAILINT_DELIVER_COMPRESSED_DEFAULT :: u8 where
  "OPENLI_EMAILINT_DELIVER_COMPRESSED_DEFAULT = 255"

lemmas decompress_defs =
  OPENLI_EMAILINT_DELIVER_COMPRESSED_ASIS_def OPENLI_EMAILINT_DELIVER_COMPRESSED_INFLATED_def
  OPENLI_EMAILINT_DELIVER_COMPRESSED_NOT_SET_def OPENLI_EMAILINT_DELIVER_COMPRESSED_DEFAULT_def

definition HI1_LI_ACTIVATED :: u32 where "HI1_LI_ACTIVATED = 1"
definition HI1_LI_DEACTIVATED :: u32 where "HI1_LI_DEACTIVATED = 2"
definition HI1_LI_MODIFIED :: u32 where "HI1_LI_MODIFIED = 3"
definition HI1_ALARM :: u32 where "HI1_ALARM = 4"

subsection \<open>Intercepts and their targets\<close>

record static_ipranges =
  ipr_rangestr :: "cstr option"
  ipr_liid :: "cstr option"
  ipr_cin :: u32
  ipr_awaitingconfirm :: u8

record intercept_common =
  ic_liid :: "cstr option"
  ic_authcc :: "cstr option"
  ic_delivcc :: "cstr option"
  ic_liid_len :: int
  ic_authcc_len :: int
  ic_delivcc_len :: int
  ic_destid :: u32
  ic_targetagency :: "cstr option"
  ic_seqtrackerid :: int
  ic_hi1_seqno :: u32
  ic_tostart_time :: u64
  ic_toend_time :: u64
  ic_tomediate :: u32
  ic_encrypt :: u32
  ic_encryptkey :: "cstr option"
  ic_local :: ptr

record hi1_notify_data =
  hi1_notify_type :: u32
  hi1_liid :: "cstr option"
  hi1_authcc :: "cstr option"
  hi1_delivcc :: "cstr option"
  hi1_agencyid :: "cstr option"
  hi1_seqno :: u32
  hi1_ts_sec :: u64
  hi1_ts_usec :: u32
  hi1_target_info :: "cstr option"

record ipintercept =
  ipi_common :: intercept_common
  ipi_username :: "cstr option"
  ipi_username_len :: int
  ipi_accesstype :: u32
  ipi_vendmirrorid :: u32
  ipi_statics :: "static_ipranges list"
  ipi_awaitingconfirm :: u8
  ipi_options :: u32

record email_target =
  et_address :: "cstr option"
  et_awaitingconfirm :: u8

record emailintercept =
  em_common :: intercept_common
  em_targets :: "email_target list"
  em_awaitingconfirm :: u8
  em_delivercompressed :: u8

record sip_identity =
  sip_username :: "cstr option"
  sip_username_len :: int
  sip_realm :: "cstr option"
  sip_realm_len :: int
  sip_awaitingconfirm :: int
  sip_active :: int

record sip_sdp_identifier =
  sdp_sessionid :: u32
  sdp_version :: u32
  sdp_username :: cstr
  sdp_address :: cstr

record voipintshared =
  vsh_cin :: u32
  vsh_refs :: int

record voipcinmap =
  vcm_callid :: "cstr option"
  vcm_username :: "cstr option"
  vcm_realm :: "cstr option"
  vcm_shared :: ptr

record voipsdpmap =
  vsm_sdpkey :: sip_sdp_identifier
  vsm_username :: "cstr option"
  vsm_realm :: "cstr option"
  vsm_shared :: ptr

record sipmediastream =
  sms_targetport :: u16
  sms_otherport :: u16
  sms_mediatype :: "cstr option"

text \<open>A \<^verbatim>\<open>struct sockaddr_storage\<close> is copied as a block of bytes.\<close>

type_synonym sockaddr_storage = bytes

record rtpstreaminf =
  rtp_streamkey :: "cstr option"
  rtp_cin :: u32
  rtp_ai_family :: int
  rtp_targetaddr :: "sockaddr_storage option"
  rtp_otheraddr :: "sockaddr_storage option"
  rtp_streamcount :: int
  rtp_mediastreams :: "sipmediastream list"
  rtp_seqno :: u32
  rtp_active :: u8
  rtp_changed :: u8
  rtp_byematched :: u8
  rtp_invitecseq :: "cstr option"
  rtp_byecseq :: "cstr option"
  rtp_skip_comfort :: u8
  rtp_common :: intercept_common
  rtp_parent :: ptr
  rtp_timeout_ev :: ptr

record sipregister =
  sreg_callid :: "cstr option"
  sreg_cin :: u32
  sreg_common :: intercept_common
  sreg_parent :: ptr

record voipintercept =
  vint_internalid :: u64
  vint_common :: intercept_common
  vint_targets :: "sip_identity list"
  vint_options :: u32
  vint_awaitingconfirm :: u8
  vint_active :: u8
  vint_cin_callid_map :: "voipcinmap list"
  vint_cin_sdp_map :: "voipsdpmap list"
  vint_active_cins :: "rtpstreaminf list"
  vint_active_registrations :: "sipregister list"

record ipsession =
  ips_streamkey :: "cstr option"
  ips_cin :: u32
  ips_ai_family :: int
  ips_targetip :: "sockaddr_storage option"
  ips_prefixlen :: u8
  ips_nextseqno :: u32
  ips_accesstype :: u32
  ips_common :: intercept_common

record vendmirror_intercept =
  vmi_sessionid :: u32
  vmi_common :: intercept_common

record staticipsession =
  sips_key :: "cstr option"
  sips_rangestr :: "cstr option"
  sips_common :: intercept_common
  sips_cin :: u32
  sips_nextseqno :: u32
  sips_references :: u32

record default_radius_user =
  dru_name :: "cstr option"
  dru_namelen :: int
  dru_awaitingconfirm :: u8

subsection \<open>Agencies, core servers and mediators\<close>

record liagency =
  lea_hi2_ipstr :: "cstr option"
  lea_hi2_portstr :: "cstr option"
  lea_hi3_ipstr :: "cstr option"
  lea_hi3_portstr :: "cstr option"
  lea_agencyid :: "cstr option"
  lea_keepalivefreq :: u32
  lea_keepalivewait :: u32

text \<open>The resolved address of a core server: the members of its \<^verbatim>\<open>struct addrinfo\<close> that the
  code reads.\<close>

definition AF_INET :: int where "AF_INET = 2"
definition AF_INET6 :: int where "AF_INET6 = 10"

record addrinfo =
  ai_family :: int
  ai_addr :: sockaddr_storage

text \<open>The addresses and the port inside a socket address, at the offsets of the Linux
  \<^verbatim>\<open>struct sockaddr_in\<close> and \<^verbatim>\<open>struct sockaddr_in6\<close>.\<close>

definition sin_port :: "sockaddr_storage \<Rightarrow> u16" where
  "sin_port sa = word_of_nat (le_nat (take 2 (drop 2 sa)))"

definition sin_addr :: "sockaddr_storage \<Rightarrow> bytes" where
  "sin_addr sa = take 4 (drop 4 sa)"

definition sin6_addr :: "sockaddr_storage \<Rightarrow> bytes" where
  "sin6_addr sa = take 16 (drop 8 sa)"

record packet_info =
  pi_family :: int
  pi_srcip :: sockaddr_storage
  pi_destip :: sockaddr_storage
  pi_srcport :: u16
  pi_destport :: u16

record coreserver =
  cs_serverkey :: "cstr option"
  cs_servertype :: u8
  cs_ipstr :: "cstr option"
  cs_portstr :: "cstr option"
  cs_info :: "addrinfo option"
  cs_portswapped :: u16
  cs_awaitingconfirm :: u8

record openli_mediator =
  med_mediatorid :: u32
  med_ipstr :: "cstr option"
  med_portstr :: "cstr option"

subsection \<open>Length members that agree with their strings\<close>

text \<open>
  The code keeps \<^verbatim>\<open>strlen\<close> of some strings in a separate member. A string and its length
  agree when the string is not NULL, has no embedded NUL, and the member is its length.
\<close>

definition str_ok :: "cstr option \<Rightarrow> bool" where
  "str_ok s \<longleftrightarrow> (case s of None \<Rightarrow> False | Some b \<Rightarrow> no_nul b)"

definition str_len_ok :: "cstr option \<Rightarrow> int \<Rightarrow> bool" where
  "str_len_ok s n \<longleftrightarrow> (case s of None \<Rightarrow> False | Some b \<Rightarrow> no_nul b \<and> n = int (length b))"

lemma str_okE [elim]: "str_ok s \<Longrightarrow> (\<And>b. s = Some b \<Longrightarrow> no_nul b \<Longrightarrow> P) \<Longrightarrow> P"
  by (auto simp: str_ok_def split: option.splits)

lemma str_len_okE [elim]:
  "str_len_ok s n \<Longrightarrow> (\<And>b. s = Some b \<Longrightarrow> no_nul b \<Longrightarrow> n = int (length b) \<Longrightarrow> P) \<Longrightarrow> P"
  by (auto simp: str_len_ok_def split: option.splits)

end
