(* ===== verification/Byteswap.thy ===== *)
theory Byteswap
  imports Prelude
begin

text \<open>
  Byte order conversion (\<^verbatim>\<open>src/src/byteswap.c\<close>, \<^verbatim>\<open>src/src/byteswap.h\<close>). The three
  swapping functions are translated with their masks and shifts; the lemmas show that the
  object representation of a swapped word is the big-endian encoding of the word, which is
  what makes the protocol header independent of the host.
\<close>

definition byteswap32 :: "u32 \<Rightarrow> u32" where
  "byteswap32 num = push_bit 24 (num AND 0x000000FF) OR push_bit 8 (num AND 0x0000FF00)
     OR drop_bit 8 (num AND 0x00FF0000) OR drop_bit 24 (num AND 0xFF000000)"

definition byteswap64 :: "u64 \<Rightarrow> u64" where
  "byteswap64 num = ucast (byteswap32 (ucast (drop_bit 32 (num AND 0xFFFFFFFF00000000))))
     OR push_bit 32 (ucast (byteswap32 (ucast (num AND 0x00000000FFFFFFFF))))"

definition byteswap16 :: "u16 \<Rightarrow> u16" where
  "byteswap16 num = (push_bit 8 num AND 0xFF00) OR (drop_bit 8 num AND 0x00FF)"

text \<open>The little-endian branch of the header's macros; \<^verbatim>\<open>htons\<close> and \<^verbatim>\<open>htonl\<close> of the
  C library swap on such a host.\<close>

definition htons :: "u16 \<Rightarrow> u16" where
  "htons = byteswap16"

definition ntohs :: "u16 \<Rightarrow> u16" where
  "ntohs = byteswap16"

definition htonl :: "u32 \<Rightarrow> u32" where
  "htonl = byteswap32"

definition ntohl :: "u32 \<Rightarrow> u32" where
  "ntohl = byteswap32"

definition bswap_host_to_be64 :: "u64 \<Rightarrow> u64" where
  "bswap_host_to_be64 num = byteswap64 num"

definition bswap_be_to_host64 :: "u64 \<Rightarrow> u64" where
  "bswap_be_to_host64 num = byteswap64 num"

lemmas swap_macros = htons_def ntohs_def htonl_def ntohl_def bswap_host_to_be64_def
  bswap_be_to_host64_def

subsection \<open>The bits of a swapped word\<close>

lemma masks16: "(0x00FF :: u16) = mask 8" "(0xFF00 :: u16) = push_bit 8 (mask 8)"
  by (simp_all add: mask_eq_exp_minus_1)

lemma masks32:
  "(0x000000FF :: u32) = mask 8" "(0x0000FF00 :: u32) = push_bit 8 (mask 8)"
  "(0x00FF0000 :: u32) = push_bit 16 (mask 8)" "(0xFF000000 :: u32) = push_bit 24 (mask 8)"
  by (simp_all add: mask_eq_exp_minus_1)

lemma masks64:
  "(0x00000000FFFFFFFF :: u64) = mask 32"
  "(0xFFFFFFFF00000000 :: u64) = push_bit 32 (mask 32)"
  by (simp_all add: mask_eq_exp_minus_1)

lemma bit_byteswap16:
  assumes "n < 8"
  shows "bit (byteswap16 w) n = bit w (8 + n)" "bit (byteswap16 w) (8 + n) = bit w n"
  using assms by (auto simp: byteswap16_def masks16 bit_simps)

lemma bit_byteswap32:
  assumes "n < 8"
  shows "bit (byteswap32 w) n = bit w (24 + n)"
    "bit (byteswap32 w) (8 + n) = bit w (16 + n)"
    "bit (byteswap32 w) (16 + n) = bit w (8 + n)"
    "bit (byteswap32 w) (24 + n) = bit w n"
  using assms by (auto simp: byteswap32_def masks32 bit_simps)

lemma halves64:
  "(ucast (w AND 0x00000000FFFFFFFF) :: u32) = ucast (w :: u64)"
  "(ucast (drop_bit 32 (w AND 0xFFFFFFFF00000000)) :: u32) = ucast (drop_bit 32 w)"
  unfolding masks64 by (rule bit_word_eqI; simp add: bit_simps)+

lemma byteswap64_halves:
  "ucast (byteswap64 w) = byteswap32 (ucast (drop_bit 32 w))"
  "ucast (drop_bit 32 (byteswap64 w)) = byteswap32 (ucast w)"
  unfolding byteswap64_def halves64
  by (rule bit_word_eqI; auto simp: bit_simps dest: bit_imp_le_length)+

lemma byteswap16_byte:
  "ucast (byteswap16 w) = (ucast (drop_bit 8 w) :: u8)"
  "ucast (drop_bit 8 (byteswap16 w)) = (ucast w :: u8)"
  by (rule bit_word_eqI, simp add: bit_simps bit_byteswap16)+

lemma byteswap32_byte:
  "ucast (byteswap32 w) = (ucast (drop_bit 24 w) :: u8)"
  "ucast (drop_bit 8 (byteswap32 w)) = (ucast (drop_bit 16 w) :: u8)"
  "ucast (drop_bit 16 (byteswap32 w)) = (ucast (drop_bit 8 w) :: u8)"
  "ucast (drop_bit 24 (byteswap32 w)) = (ucast w :: u8)"
  by (rule bit_word_eqI, simp add: bit_simps bit_byteswap32)+

subsection \<open>The bytes of a word\<close>

lemma nth_le_bytes: "i < n \<Longrightarrow> le_bytes n x ! i = word_of_nat (x div 256 ^ i)"
proof (induction n arbitrary: x i)
  case 0
  then show ?case by simp
next
  case (Suc n)
  then show ?case by (cases i) (auto simp: div_mult2_eq)
qed

lemma byte_of_word:
  "(word_of_nat (unat w div 256 ^ i) :: u8) = ucast (drop_bit (8 * i) (w :: 'a :: len word))"
proof -
  have "(256 :: nat) ^ i = 2 ^ (8 * i)" by (simp add: power_mult)
  then have "unat w div 256 ^ i = drop_bit (8 * i) (unat w)"
    by (simp only: drop_bit_eq_div)
  also have "\<dots> = unat (drop_bit (8 * i) w)"
    by (simp only: unat_drop_bit_eq)
  finally show ?thesis by simp
qed

lemma nth_le_bytes_word:
  "i < n \<Longrightarrow> le_bytes n (unat w) ! i = ucast (drop_bit (8 * i) (w :: 'a :: len word))"
  by (simp add: nth_le_bytes byte_of_word)

lemma less_4_cases: "i < 4 \<Longrightarrow> i = 0 \<or> i = 1 \<or> i = 2 \<or> i = (3 :: nat)"
  by auto

lemma host16_bytes: "host16 w = [ucast w, ucast (drop_bit 8 w)]"
  using byte_of_word [of w 1] by (simp add: host16_def numeral_2_eq_2)

lemma host32_bytes:
  "host32 w = [ucast w, ucast (drop_bit 8 w), ucast (drop_bit 16 w), ucast (drop_bit 24 w)]"
  by (rule nth_equalityI) (auto simp: host32_def nth_le_bytes_word dest!: less_4_cases)

lemma host64_halves: "host64 w = host32 (ucast w) @ host32 (ucast (drop_bit 32 w))"
proof (rule nth_equalityI)
  fix i assume "i < length (host64 w)"
  then have i: "i < 8" by simp
  show "host64 w ! i = (host32 (ucast w) @ host32 (ucast (drop_bit 32 w))) ! i"
  proof (cases "i < 4")
    case True
    then show ?thesis using i
      by (intro bit_word_eqI)
        (auto simp: host64_def host32_def nth_append nth_le_bytes_word bit_simps)
  next
    case False
    then obtain j where j: "i = 4 + j" using le_Suc_ex [of 4 i] by auto
    with i have "j < 4" by simp
    with j show ?thesis
      by (intro bit_word_eqI)
        (auto simp: host64_def host32_def nth_append nth_le_bytes_word bit_simps algebra_simps)
  qed
qed simp

lemma host16_byteswap16: "host16 (byteswap16 w) = be_bytes 2 (unat w)"
  using host16_bytes [of w]
  by (simp add: be_bytes_def host16_bytes byteswap16_byte flip: host16_def)

lemma host32_byteswap32: "host32 (byteswap32 w) = be_bytes 4 (unat w)"
  using host32_bytes [of w]
  by (simp add: be_bytes_def host32_bytes byteswap32_byte flip: host32_def)

lemma host64_byteswap64: "host64 (byteswap64 w) = be_bytes 8 (unat w)"
proof -
  have "host64 (byteswap64 w)
      = be_bytes 4 (unat (ucast (drop_bit 32 w) :: u32)) @ be_bytes 4 (unat (ucast w :: u32))"
    by (simp only: host64_halves byteswap64_halves host32_byteswap32)
  also have "\<dots> = rev (host64 w)"
    by (simp only: host64_halves be_bytes_def host32_def rev_append)
  finally show ?thesis by (simp only: be_bytes_def host64_def)
qed

lemma le_nat_host [simp]:
  "le_nat (host16 a) = unat a" "le_nat (host32 b) = unat b" "le_nat (host64 c) = unat c"
  by (simp_all add: host16_def host32_def host64_def le_nat_le_bytes)

lemma host_inject:
  "host16 a = host16 a' \<Longrightarrow> a = a'" "host32 b = host32 b' \<Longrightarrow> b = b'"
  "host64 c = host64 c' \<Longrightarrow> c = c'"
  by (metis le_nat_host word_unat_eq_iff)+

lemma swapped_rev_host:
  "host16 (byteswap16 a) = rev (host16 a)" "host32 (byteswap32 b) = rev (host32 b)"
  "host64 (byteswap64 c) = rev (host64 c)"
  unfolding host16_byteswap16 host32_byteswap32 host64_byteswap64 be_bytes_def
  by (simp_all only: host16_def host32_def host64_def)

lemma byteswap_involution [simp]:
  "byteswap16 (byteswap16 a) = a" "byteswap32 (byteswap32 b) = b"
  "byteswap64 (byteswap64 c) = c"
  by (rule host_inject, simp only: swapped_rev_host rev_rev_ident)+

text \<open>C22. The byte order macros turn a host word into its big-endian representation in memory, at
  every width the protocol uses, and applying them twice gives the word back.\<close>

theorem network_byte_order:
  "host16 (htons a) = be_bytes 2 (unat a) \<and> host32 (htonl b) = be_bytes 4 (unat b) \<and>
   host64 (bswap_host_to_be64 c) = be_bytes 8 (unat c) \<and>
   ntohs (htons a) = a \<and> ntohl (htonl b) = b \<and> bswap_be_to_host64 (bswap_host_to_be64 c) = c"
  by (simp add: swap_macros host16_byteswap16 host32_byteswap32 host64_byteswap64)

end
