(* ===== verification/Wire_Types.thy ===== *)
theory Wire_Types
  imports Intercept_Types Byteswap
begin

text \<open>
  The constants and the message header of the OpenLI control protocol
  (\<^verbatim>\<open>src/src/netcomms.h\<close>). Message and field types are enumerations; on the wire they are
  16-bit numbers, and a receiver may meet any such number, so the decoders work on the
  numbers and the enumerations name the ones the code knows.
\<close>

definition NETBUF_ALLOC_SIZE :: nat where
  "NETBUF_ALLOC_SIZE = 10 * 1024 * 1024"

definition OPENLI_PROTO_MAGIC :: u32 where
  "OPENLI_PROTO_MAGIC = 0x5c4c6c5c"

definition OPENLI_COLLECTOR_MAGIC :: u64 where
  "OPENLI_COLLECTOR_MAGIC = 0x00180014202042a8"

definition OPENLI_MEDIATOR_MAGIC :: u64 where
  "OPENLI_MEDIATOR_MAGIC = 0x01153200d6f12905"

text \<open>The members of \<^verbatim>\<open>openli_proto_msgtype_t\<close> that are errors.\<close>

definition OPENLI_PROTO_SEND_ERROR :: int where "OPENLI_PROTO_SEND_ERROR = -7"
definition OPENLI_PROTO_INVALID_MESSAGE :: int where "OPENLI_PROTO_INVALID_MESSAGE = -6"
definition OPENLI_PROTO_RECV_ERROR :: int where "OPENLI_PROTO_RECV_ERROR = -5"
definition OPENLI_PROTO_PEER_DISCONNECTED :: int where "OPENLI_PROTO_PEER_DISCONNECTED = -4"
definition OPENLI_PROTO_BUFFER_TOO_FULL :: int where "OPENLI_PROTO_BUFFER_TOO_FULL = -3"
definition OPENLI_PROTO_WRONG_BUFFER_TYPE :: int where "OPENLI_PROTO_WRONG_BUFFER_TYPE = -2"
definition OPENLI_PROTO_NULL_BUFFER :: int where "OPENLI_PROTO_NULL_BUFFER = -1"

lemmas proto_errors =
  OPENLI_PROTO_SEND_ERROR_def
  OPENLI_PROTO_INVALID_MESSAGE_def
  OPENLI_PROTO_RECV_ERROR_def
  OPENLI_PROTO_PEER_DISCONNECTED_def
  OPENLI_PROTO_BUFFER_TOO_FULL_def
  OPENLI_PROTO_WRONG_BUFFER_TYPE_def
  OPENLI_PROTO_NULL_BUFFER_def

text \<open>The messages, numbered from 0 in the order of the enumeration.\<close>

datatype openli_proto_msgtype =
    OPENLI_PROTO_DISCONNECT
  | OPENLI_PROTO_NO_MESSAGE
  | OPENLI_PROTO_START_IPINTERCEPT
  | OPENLI_PROTO_HALT_IPINTERCEPT
  | OPENLI_PROTO_START_VOIPINTERCEPT
  | OPENLI_PROTO_HALT_VOIPINTERCEPT
  | OPENLI_PROTO_ANNOUNCE_MEDIATOR
  | OPENLI_PROTO_WITHDRAW_MEDIATOR
  | OPENLI_PROTO_ANNOUNCE_LEA
  | OPENLI_PROTO_WITHDRAW_LEA
  | OPENLI_PROTO_MEDIATE_INTERCEPT
  | OPENLI_PROTO_CEASE_MEDIATION
  | OPENLI_PROTO_COLLECTOR_AUTH
  | OPENLI_PROTO_MEDIATOR_AUTH
  | OPENLI_PROTO_DISCONNECT_MEDIATORS
  | OPENLI_PROTO_NOMORE_INTERCEPTS
  | OPENLI_PROTO_ETSI_CC
  | OPENLI_PROTO_ETSI_IRI
  | OPENLI_PROTO_ANNOUNCE_CORESERVER
  | OPENLI_PROTO_WITHDRAW_CORESERVER
  | OPENLI_PROTO_ANNOUNCE_SIP_TARGET
  | OPENLI_PROTO_WITHDRAW_SIP_TARGET
  | OPENLI_PROTO_ADD_STATICIPS
  | OPENLI_PROTO_REMOVE_STATICIPS
  | OPENLI_PROTO_MODIFY_VOIPINTERCEPT
  | OPENLI_PROTO_CONFIG_RELOADED
  | OPENLI_PROTO_MODIFY_IPINTERCEPT
  | OPENLI_PROTO_MODIFY_STATICIPS
  | OPENLI_PROTO_RAWIP_SYNC
  | OPENLI_PROTO_ANNOUNCE_DEFAULT_RADIUS
  | OPENLI_PROTO_WITHDRAW_DEFAULT_RADIUS
  | OPENLI_PROTO_HEARTBEAT
  | OPENLI_PROTO_SSL_REQUIRED
  | OPENLI_PROTO_HI1_NOTIFICATION
  | OPENLI_PROTO_START_EMAILINTERCEPT
  | OPENLI_PROTO_HALT_EMAILINTERCEPT
  | OPENLI_PROTO_MODIFY_EMAILINTERCEPT
  | OPENLI_PROTO_ANNOUNCE_EMAIL_TARGET
  | OPENLI_PROTO_WITHDRAW_EMAIL_TARGET
  | OPENLI_PROTO_ANNOUNCE_DEFAULT_EMAIL_COMPRESSION

fun msgtype_code :: "openli_proto_msgtype \<Rightarrow> nat" where
  "msgtype_code OPENLI_PROTO_DISCONNECT = 0"
| "msgtype_code OPENLI_PROTO_NO_MESSAGE = 1"
| "msgtype_code OPENLI_PROTO_START_IPINTERCEPT = 2"
| "msgtype_code OPENLI_PROTO_HALT_IPINTERCEPT = 3"
| "msgtype_code OPENLI_PROTO_START_VOIPINTERCEPT = 4"
| "msgtype_code OPENLI_PROTO_HALT_VOIPINTERCEPT = 5"
| "msgtype_code OPENLI_PROTO_ANNOUNCE_MEDIATOR = 6"
| "msgtype_code OPENLI_PROTO_WITHDRAW_MEDIATOR = 7"
| "msgtype_code OPENLI_PROTO_ANNOUNCE_LEA = 8"
| "msgtype_code OPENLI_PROTO_WITHDRAW_LEA = 9"
| "msgtype_code OPENLI_PROTO_MEDIATE_INTERCEPT = 10"
| "msgtype_code OPENLI_PROTO_CEASE_MEDIATION = 11"
| "msgtype_code OPENLI_PROTO_COLLECTOR_AUTH = 12"
| "msgtype_code OPENLI_PROTO_MEDIATOR_AUTH = 13"
| "msgtype_code OPENLI_PROTO_DISCONNECT_MEDIATORS = 14"
| "msgtype_code OPENLI_PROTO_NOMORE_INTERCEPTS = 15"
| "msgtype_code OPENLI_PROTO_ETSI_CC = 16"
| "msgtype_code OPENLI_PROTO_ETSI_IRI = 17"
| "msgtype_code OPENLI_PROTO_ANNOUNCE_CORESERVER = 18"
| "msgtype_code OPENLI_PROTO_WITHDRAW_CORESERVER = 19"
| "msgtype_code OPENLI_PROTO_ANNOUNCE_SIP_TARGET = 20"
| "msgtype_code OPENLI_PROTO_WITHDRAW_SIP_TARGET = 21"
| "msgtype_code OPENLI_PROTO_ADD_STATICIPS = 22"
| "msgtype_code OPENLI_PROTO_REMOVE_STATICIPS = 23"
| "msgtype_code OPENLI_PROTO_MODIFY_VOIPINTERCEPT = 24"
| "msgtype_code OPENLI_PROTO_CONFIG_RELOADED = 25"
| "msgtype_code OPENLI_PROTO_MODIFY_IPINTERCEPT = 26"
| "msgtype_code OPENLI_PROTO_MODIFY_STATICIPS = 27"
| "msgtype_code OPENLI_PROTO_RAWIP_SYNC = 28"
| "msgtype_code OPENLI_PROTO_ANNOUNCE_DEFAULT_RADIUS = 29"
| "msgtype_code OPENLI_PROTO_WITHDRAW_DEFAULT_RADIUS = 30"
| "msgtype_code OPENLI_PROTO_HEARTBEAT = 31"
| "msgtype_code OPENLI_PROTO_SSL_REQUIRED = 32"
| "msgtype_code OPENLI_PROTO_HI1_NOTIFICATION = 33"
| "msgtype_code OPENLI_PROTO_START_EMAILINTERCEPT = 34"
| "msgtype_code OPENLI_PROTO_HALT_EMAILINTERCEPT = 35"
| "msgtype_code OPENLI_PROTO_MODIFY_EMAILINTERCEPT = 36"
| "msgtype_code OPENLI_PROTO_ANNOUNCE_EMAIL_TARGET = 37"
| "msgtype_code OPENLI_PROTO_WITHDRAW_EMAIL_TARGET = 38"
| "msgtype_code OPENLI_PROTO_ANNOUNCE_DEFAULT_EMAIL_COMPRESSION = 39"

datatype openli_proto_fieldtype =
    OPENLI_PROTO_FIELD_MEDIATORID
  | OPENLI_PROTO_FIELD_MEDIATORIP
  | OPENLI_PROTO_FIELD_MEDIATORPORT
  | OPENLI_PROTO_FIELD_USERNAME
  | OPENLI_PROTO_FIELD_SIPURI
  | OPENLI_PROTO_FIELD_LIID
  | OPENLI_PROTO_FIELD_AUTHCC
  | OPENLI_PROTO_FIELD_DELIVCC
  | OPENLI_PROTO_FIELD_INTERCEPTID
  | OPENLI_PROTO_FIELD_LEAID
  | OPENLI_PROTO_FIELD_HI2IP
  | OPENLI_PROTO_FIELD_HI2PORT
  | OPENLI_PROTO_FIELD_HI3IP
  | OPENLI_PROTO_FIELD_HI3PORT
  | OPENLI_PROTO_FIELD_CORESERVER_TYPE
  | OPENLI_PROTO_FIELD_CORESERVER_IP
  | OPENLI_PROTO_FIELD_CORESERVER_PORT
  | OPENLI_PROTO_FIELD_VENDMIRRORID
  | OPENLI_PROTO_FIELD_KAFREQ
  | OPENLI_PROTO_FIELD_KAWAIT
  | OPENLI_PROTO_FIELD_ACCESSTYPE
  | OPENLI_PROTO_FIELD_SIP_USER
  | OPENLI_PROTO_FIELD_SIP_REALM
  | OPENLI_PROTO_FIELD_STATICIP_RANGE
  | OPENLI_PROTO_FIELD_CIN
  | OPENLI_PROTO_FIELD_INTOPTIONS
  | OPENLI_PROTO_FIELD_HI1_NOTIFY_TYPE
  | OPENLI_PROTO_FIELD_SEQNO
  | OPENLI_PROTO_FIELD_TS_SEC
  | OPENLI_PROTO_FIELD_TS_USEC
  | OPENLI_PROTO_FIELD_INTERCEPT_START_TIME
  | OPENLI_PROTO_FIELD_INTERCEPT_END_TIME
  | OPENLI_PROTO_FIELD_EMAIL_TARGET
  | OPENLI_PROTO_FIELD_TOMEDIATE
  | OPENLI_PROTO_FIELD_PAYLOAD_ENCRYPTION
  | OPENLI_PROTO_FIELD_ENCRYPTION_KEY
  | OPENLI_PROTO_FIELD_DELIVER_COMPRESSED

fun fieldtype_code :: "openli_proto_fieldtype \<Rightarrow> nat" where
  "fieldtype_code OPENLI_PROTO_FIELD_MEDIATORID = 0"
| "fieldtype_code OPENLI_PROTO_FIELD_MEDIATORIP = 1"
| "fieldtype_code OPENLI_PROTO_FIELD_MEDIATORPORT = 2"
| "fieldtype_code OPENLI_PROTO_FIELD_USERNAME = 3"
| "fieldtype_code OPENLI_PROTO_FIELD_SIPURI = 4"
| "fieldtype_code OPENLI_PROTO_FIELD_LIID = 5"
| "fieldtype_code OPENLI_PROTO_FIELD_AUTHCC = 6"
| "fieldtype_code OPENLI_PROTO_FIELD_DELIVCC = 7"
| "fieldtype_code OPENLI_PROTO_FIELD_INTERCEPTID = 8"
| "fieldtype_code OPENLI_PROTO_FIELD_LEAID = 9"
| "fieldtype_code OPENLI_PROTO_FIELD_HI2IP = 10"
| "fieldtype_code OPENLI_PROTO_FIELD_HI2PORT = 11"
| "fieldtype_code OPENLI_PROTO_FIELD_HI3IP = 12"
| "fieldtype_code OPENLI_PROTO_FIELD_HI3PORT = 13"
| "fieldtype_code OPENLI_PROTO_FIELD_CORESERVER_TYPE = 14"
| "fieldtype_code OPENLI_PROTO_FIELD_CORESERVER_IP = 15"
| "fieldtype_code OPENLI_PROTO_FIELD_CORESERVER_PORT = 16"
| "fieldtype_code OPENLI_PROTO_FIELD_VENDMIRRORID = 17"
| "fieldtype_code OPENLI_PROTO_FIELD_KAFREQ = 18"
| "fieldtype_code OPENLI_PROTO_FIELD_KAWAIT = 19"
| "fieldtype_code OPENLI_PROTO_FIELD_ACCESSTYPE = 20"
| "fieldtype_code OPENLI_PROTO_FIELD_SIP_USER = 21"
| "fieldtype_code OPENLI_PROTO_FIELD_SIP_REALM = 22"
| "fieldtype_code OPENLI_PROTO_FIELD_STATICIP_RANGE = 23"
| "fieldtype_code OPENLI_PROTO_FIELD_CIN = 24"
| "fieldtype_code OPENLI_PROTO_FIELD_INTOPTIONS = 25"
| "fieldtype_code OPENLI_PROTO_FIELD_HI1_NOTIFY_TYPE = 26"
| "fieldtype_code OPENLI_PROTO_FIELD_SEQNO = 27"
| "fieldtype_code OPENLI_PROTO_FIELD_TS_SEC = 28"
| "fieldtype_code OPENLI_PROTO_FIELD_TS_USEC = 29"
| "fieldtype_code OPENLI_PROTO_FIELD_INTERCEPT_START_TIME = 30"
| "fieldtype_code OPENLI_PROTO_FIELD_INTERCEPT_END_TIME = 31"
| "fieldtype_code OPENLI_PROTO_FIELD_EMAIL_TARGET = 32"
| "fieldtype_code OPENLI_PROTO_FIELD_TOMEDIATE = 33"
| "fieldtype_code OPENLI_PROTO_FIELD_PAYLOAD_ENCRYPTION = 34"
| "fieldtype_code OPENLI_PROTO_FIELD_ENCRYPTION_KEY = 35"
| "fieldtype_code OPENLI_PROTO_FIELD_DELIVER_COMPRESSED = 36"

record ii_header =
  hdr_magic :: u32
  hdr_bodylen :: u16
  hdr_intercepttype :: u16
  hdr_internalid :: u64

text \<open>\<^verbatim>\<open>sizeof(ii_header_t)\<close> and the object representation of the packed struct.\<close>

definition ii_header_size :: nat where
  "ii_header_size = 16"

definition ii_header_bytes :: "ii_header \<Rightarrow> bytes" where
  "ii_header_bytes h =
     host32 (hdr_magic h) @ host16 (hdr_bodylen h) @ host16 (hdr_intercepttype h) @
     host64 (hdr_internalid h)"

definition ii_header_load :: "mem \<Rightarrow> nat \<Rightarrow> ii_header" where
  "ii_header_load m p =
     \<lparr> hdr_magic = load32 m p, hdr_bodylen = load16 m (p + 4),
       hdr_intercepttype = load16 m (p + 6), hdr_internalid = load64 m (p + 8) \<rparr>"

text \<open>The value of a field: a two-byte type, a two-byte length and the bytes, as
  \<^verbatim>\<open>push_tlv\<close> writes it.\<close>

definition tlv_bytes :: "nat \<Rightarrow> bytes \<Rightarrow> bytes" where
  "tlv_bytes t v = be_bytes 2 t @ be_bytes 2 (length v) @ v"

lemma msgtype_code_inj: "msgtype_code a = msgtype_code b \<Longrightarrow> a = b"
  by (cases a; cases b; simp)

lemma msgtype_code_less: "msgtype_code a < 40"
  by (cases a; simp)

lemma fieldtype_code_inj: "fieldtype_code a = fieldtype_code b \<Longrightarrow> a = b"
  by (cases a; cases b; simp)

lemma fieldtype_code_less: "fieldtype_code a < 37"
  by (cases a; simp)

lemma fieldtype_code_wire [simp]: "fieldtype_code a < 65536"
  using fieldtype_code_less [of a] by simp

lemma length_ii_header_bytes [simp]: "length (ii_header_bytes h) = ii_header_size"
  by (simp add: ii_header_bytes_def ii_header_size_def)

lemma length_tlv_bytes [simp]: "length (tlv_bytes t v) = length v + 4"
  by (simp add: tlv_bytes_def)

lemma ii_header_load_bytes:
  assumes "mem_at m p (ii_header_bytes h)"
  shows "ii_header_load m p = h"
  using assms
  by (auto simp: ii_header_bytes_def ii_header_load_def mem_at_append ac_simps
      dest!: load16_host load32_host load64_host)

end
