(* ===== verification/Byte_Fifo.thy ===== *)
theory Byte_Fifo
  imports Prelude
begin

text \<open>
  What the clients of a transmission buffer rely on: bytes come out in the order they went
  in, none lost and none repeated, however appends and partial sends interleave. The
  network buffer (\<^verbatim>\<open>src/src/netcomms.c\<close>) and the export buffer
  (\<^verbatim>\<open>src/src/export_buffer.c\<close>) both provide this interface.
\<close>

datatype fifo_op = Append bytes | Consume nat

text \<open>Run a sequence of operations and collect the bytes consumed. A failed append leaves
  the run without a result, and so does a request to consume more than is held.\<close>

fun fifo_run ::
  "('s \<Rightarrow> bytes) \<Rightarrow> (bytes \<Rightarrow> 's \<Rightarrow> 's option) \<Rightarrow> (nat \<Rightarrow> 's \<Rightarrow> 's) \<Rightarrow>
   fifo_op list \<Rightarrow> 's \<Rightarrow> (bytes \<times> 's) option" where
  "fifo_run cont app cons [] s = Some ([], s)"
| "fifo_run cont app cons (Append bs # ops) s =
     (case app bs s of None \<Rightarrow> None | Some s' \<Rightarrow> fifo_run cont app cons ops s')"
| "fifo_run cont app cons (Consume n # ops) s =
     (if n \<le> length (cont s)
      then map_option (\<lambda>(out, s'). (take n (cont s) @ out, s'))
             (fifo_run cont app cons ops (cons n s))
      else None)"

fun fifo_input :: "fifo_op list \<Rightarrow> bytes" where
  "fifo_input [] = []"
| "fifo_input (Append bs # ops) = bs @ fifo_input ops"
| "fifo_input (Consume n # ops) = fifo_input ops"

locale byte_fifo =
  fixes content :: "'s \<Rightarrow> bytes"
    and inv :: "'s \<Rightarrow> bool"
    and app :: "bytes \<Rightarrow> 's \<Rightarrow> 's option"
    and cons :: "nat \<Rightarrow> 's \<Rightarrow> 's"
  assumes app_inv: "inv s \<Longrightarrow> app bs s = Some s' \<Longrightarrow> inv s'"
    and app_content: "inv s \<Longrightarrow> app bs s = Some s' \<Longrightarrow> content s' = content s @ bs"
    and cons_inv: "inv s \<Longrightarrow> n \<le> length (content s) \<Longrightarrow> inv (cons n s)"
    and cons_content:
      "inv s \<Longrightarrow> n \<le> length (content s) \<Longrightarrow> content (cons n s) = drop n (content s)"
begin

lemma run_inv:
  "inv s \<Longrightarrow> fifo_run content app cons ops s = Some (out, s') \<Longrightarrow> inv s'"
proof (induction ops arbitrary: s out)
  case (Cons op ops)
  then show ?case
    by (cases op) (auto split: option.splits if_splits intro: app_inv cons_inv)
qed auto

lemma run_stream:
  "inv s \<Longrightarrow> fifo_run content app cons ops s = Some (out, s') \<Longrightarrow>
   out @ content s' = content s @ fifo_input ops"
proof (induction ops arbitrary: s out)
  case (Cons op ops)
  show ?case
  proof (cases op)
    case (Append bs)
    with Cons.prems obtain s1 where s1: "app bs s = Some s1"
      and run: "fifo_run content app cons ops s1 = Some (out, s')"
      by (auto split: option.splits)
    show ?thesis
      using Cons.IH [OF app_inv [OF Cons.prems(1) s1] run] app_content [OF Cons.prems(1) s1]
      by (simp add: Append)
  next
    case (Consume n)
    with Cons.prems obtain out' where n: "n \<le> length (content s)"
      and run: "fifo_run content app cons ops (cons n s) = Some (out', s')"
      and out: "out = take n (content s) @ out'"
      by (auto split: if_splits)
    show ?thesis
      using Cons.IH [OF cons_inv [OF Cons.prems(1) n] run] cons_content [OF Cons.prems(1) n]
      by (simp add: Consume out)
  qed
qed auto

end

end
