(* ===== verification/Net_Buffer.thy ===== *)
theory Net_Buffer
  imports Wire_Types Byte_Fifo
begin

text \<open>
  The network buffer of \<^verbatim>\<open>src/src/netcomms.c\<close>: allocation and growth, the primitive pushes,
  transmission, reception and the splitting of the received stream into messages.

  The pointers \<^verbatim>\<open>appendptr\<close> and \<^verbatim>\<open>actptr\<close> are offsets into the allocation. A result of
  \<^term>\<open>None\<close> stands for undefined behaviour of the C code: a signed overflow of
  \<^verbatim>\<open>alloced\<close>, a read through NULL or past the end of an object, or a write past the end of
  the allocation. The memory allocator, the socket and TLS calls and the AMQP library are
  arguments.
\<close>

datatype net_buffer_type = NETBUF_RECV | NETBUF_SEND

record net_buffer =
  nb_fd :: int
  nb_buf :: mem
  nb_appendptr :: nat
  nb_actptr :: nat
  nb_alloced :: nat
  nb_buftype :: net_buffer_type
  nb_ssl :: ptr

text \<open>Whether \<^verbatim>\<open>realloc\<close> to a given size succeeds.\<close>

type_synonym allocator = "nat \<Rightarrow> bool"

type_synonym push = "net_buffer \<Rightarrow> (int \<times> net_buffer) option"

definition NETBUF_SPACE_REM :: "net_buffer \<Rightarrow> int" where
  "NETBUF_SPACE_REM nb = int (nb_alloced nb) - int (nb_appendptr nb)"

definition NETBUF_FRONT_FREE :: "net_buffer \<Rightarrow> nat" where
  "NETBUF_FRONT_FREE nb = nb_actptr nb"

definition NETBUF_CONTENT_SIZE :: "net_buffer \<Rightarrow> nat" where
  "NETBUF_CONTENT_SIZE nb = nb_appendptr nb - nb_actptr nb"

definition memmove :: "mem \<Rightarrow> nat \<Rightarrow> nat \<Rightarrow> nat \<Rightarrow> mem" where
  "memmove m dst src n = mem_write m dst (mem_read m src n)"

text \<open>The fresh allocation has unspecified contents \<^term>\<open>m :: mem\<close>.\<close>

definition create_net_buffer :: "mem \<Rightarrow> net_buffer_type \<Rightarrow> int \<Rightarrow> ptr \<Rightarrow> net_buffer" where
  "create_net_buffer m buftype fd ssl =
     \<lparr> nb_fd = fd, nb_buf = m, nb_appendptr = 0, nb_actptr = 0,
       nb_alloced = NETBUF_ALLOC_SIZE, nb_buftype = buftype, nb_ssl = ssl \<rparr>"

subsection \<open>Growing the buffer\<close>

text \<open>Move the content to the front of the allocation.\<close>

definition slide_net_buffer :: "net_buffer \<Rightarrow> net_buffer" where
  "slide_net_buffer nb =
     nb \<lparr> nb_buf := memmove (nb_buf nb) 0 (NETBUF_FRONT_FREE nb) (NETBUF_CONTENT_SIZE nb),
          nb_actptr := 0, nb_appendptr := NETBUF_CONTENT_SIZE nb \<rparr>"

text \<open>The part of \<^verbatim>\<open>extend_net_buffer\<close> from the call of \<^verbatim>\<open>realloc\<close> on; \<^verbatim>\<open>actptr\<close> and
  \<^verbatim>\<open>appendptr\<close> keep their offsets in the new block.\<close>

definition grow_net_buffer :: "allocator \<Rightarrow> push" where
  "grow_net_buffer ok nb =
     (if nb_alloced nb + NETBUF_ALLOC_SIZE > INT_MAX then None
      else if \<not> ok (nb_alloced nb + NETBUF_ALLOC_SIZE) then Some (-1, nb)
      else Some (0, nb \<lparr> nb_alloced := nb_alloced nb + NETBUF_ALLOC_SIZE \<rparr>))"

definition extend_net_buffer :: "allocator \<Rightarrow> int \<Rightarrow> push" where
  "extend_net_buffer ok musthave nb =
     (if 4 * NETBUF_FRONT_FREE nb \<ge> 3 * nb_alloced nb
      then (let nb' = slide_net_buffer nb in
            if NETBUF_SPACE_REM nb' \<ge> musthave then Some (0, nb')
            else grow_net_buffer ok nb')
      else grow_net_buffer ok nb)"

definition nb_measure :: "int \<Rightarrow> net_buffer \<Rightarrow> nat" where
  "nb_measure len nb =
     2 * (INT_MAX - nb_alloced nb) + (if NETBUF_SPACE_REM nb < len then 1 else 0)"

lemma grow_net_buffer_measure:
  assumes "grow_net_buffer ok nb = Some (r, nb')" "r \<noteq> -1"
  shows "INT_MAX - nb_alloced nb' < INT_MAX - nb_alloced nb"
  using assms by (auto simp: grow_net_buffer_def NETBUF_ALLOC_SIZE_def split: if_splits)

lemma extend_net_buffer_measure:
  assumes "extend_net_buffer ok len nb = Some (r, nb')" "r \<noteq> -1" "NETBUF_SPACE_REM nb < len"
  shows "nb_measure len nb' < nb_measure len nb"
  using assms
  by (auto simp: extend_net_buffer_def nb_measure_def Let_def slide_net_buffer_def
      split: if_splits dest!: grow_net_buffer_measure)

text \<open>The loop of \<^verbatim>\<open>push_generic_onto_net_buffer\<close>.\<close>

function ensure_space :: "allocator \<Rightarrow> nat \<Rightarrow> push" where
  "ensure_space ok len nb =
     (if NETBUF_SPACE_REM nb < int len
      then (case extend_net_buffer ok (int len) nb of
              None \<Rightarrow> None
            | Some (r, nb') \<Rightarrow> if r = -1 then Some (-1, nb') else ensure_space ok len nb')
      else Some (0, nb))"
  by pat_completeness auto

termination
  by (relation "measure (\<lambda>(ok, len, nb). nb_measure (int len) nb)")
    (auto intro: extend_net_buffer_measure)

declare ensure_space.simps [simp del]

definition push_generic_onto_net_buffer :: "allocator \<Rightarrow> bytes \<Rightarrow> push" where
  "push_generic_onto_net_buffer ok data nb =
     (if length data = 0 then Some (0, nb)
      else case ensure_space ok (length data) nb of
             None \<Rightarrow> None
           | Some (r, nb') \<Rightarrow>
               if r = -1 then Some (-1, nb')
               else Some (int (length data),
                      nb' \<lparr> nb_buf := mem_write (nb_buf nb') (nb_appendptr nb') data,
                            nb_appendptr := nb_appendptr nb' + length data \<rparr>))"

subsection \<open>Headers and fields\<close>

definition populate_header :: "nat \<Rightarrow> nat \<Rightarrow> u64 \<Rightarrow> ii_header" where
  "populate_header msgtype len intid =
     \<lparr> hdr_magic = htonl OPENLI_PROTO_MAGIC, hdr_bodylen = htons (word_of_nat len),
       hdr_intercepttype = htons (word_of_nat msgtype),
       hdr_internalid = bswap_host_to_be64 intid \<rparr>"

text \<open>The result is the return value, the header and \<^verbatim>\<open>hdrlen\<close>; on failure neither output is
  written.\<close>

definition construct_netcomm_protocol_header ::
  "u32 \<Rightarrow> u16 \<Rightarrow> u64 \<Rightarrow> int \<times> (ii_header \<times> nat) option" where
  "construct_netcomm_protocol_header contentlen msgtype internalid =
     (if contentlen > 65535 then (-1, None)
      else (0, Some (populate_header (unat msgtype) (unat contentlen) internalid,
                     ii_header_size)))"

text \<open>The bytes of the object a \<^verbatim>\<open>char *\<close> points to, with the terminator.\<close>

definition str_obj :: "cstr option \<Rightarrow> bytes option" where
  "str_obj s = map_option (\<lambda>b. b @ [0]) s"

text \<open>\<^verbatim>\<open>memcpy\<close> of \<^term>\<open>n :: nat\<close> bytes out of an object.\<close>

definition copy_obj :: "bytes option \<Rightarrow> nat \<Rightarrow> bytes option" where
  "copy_obj obj n =
     (if n = 0 then Some []
      else case obj of None \<Rightarrow> None
           | Some bs \<Rightarrow> if n \<le> length bs then Some (take n bs) else None)"

definition push_tlv ::
  "allocator \<Rightarrow> openli_proto_fieldtype \<Rightarrow> bytes option \<Rightarrow> nat \<Rightarrow> push" where
  "push_tlv ok type value vallen nb =
     (if vallen > 4096 - 4 then Some (-1, nb)
      else case copy_obj value vallen of
             None \<Rightarrow> None
           | Some v \<Rightarrow>
               push_generic_onto_net_buffer ok
                 (host16 (htons (word_of_nat (fieldtype_code type))) @
                  host16 (htons (word_of_nat vallen)) @ v) nb)"

text \<open>The statement sequences \<^verbatim>\<open>if (push(...) == -1) return -1; ... return result\<close>.\<close>

fun run_pushes :: "push list \<Rightarrow> int \<Rightarrow> push" where
  "run_pushes [] result nb = Some (result, nb)"
| "run_pushes (p # ps) result nb =
     (case p nb of
        None \<Rightarrow> None
      | Some (r, nb') \<Rightarrow> if r = -1 then Some (-1, nb') else run_pushes ps result nb')"

definition push_header :: "allocator \<Rightarrow> openli_proto_msgtype \<Rightarrow> nat \<Rightarrow> u64 \<Rightarrow> push" where
  "push_header ok msgtype len intid =
     push_generic_onto_net_buffer ok
       (ii_header_bytes (populate_header (msgtype_code msgtype) len intid))"

subsection \<open>Transmission\<close>

text \<open>The result of a non-blocking write: the number of bytes accepted, or an error, which is
  \<^term>\<open>True\<close> for \<^verbatim>\<open>EAGAIN\<close> and \<^verbatim>\<open>EWOULDBLOCK\<close>. The write is a function of the bytes it is
  given; \<^verbatim>\<open>SSL_write\<close> and \<^verbatim>\<open>send\<close> are separate.\<close>

datatype send_result = Sent nat | Send_error bool

type_synonym send_call = "bytes \<Rightarrow> send_result"

definition nb_content :: "net_buffer \<Rightarrow> bytes" where
  "nb_content nb = mem_read (nb_buf nb) (nb_actptr nb) (NETBUF_CONTENT_SIZE nb)"

text \<open>The end of \<^verbatim>\<open>transmit_net_buffer\<close>: skip what was sent, and move the content to the
  front when more than an allocation unit is unused there.\<close>

definition after_send :: "nat \<Rightarrow> net_buffer \<Rightarrow> net_buffer" where
  "after_send ret nb =
     (let nb' = nb \<lparr> nb_actptr := nb_actptr nb + ret \<rparr> in
      if NETBUF_FRONT_FREE nb' > NETBUF_ALLOC_SIZE then slide_net_buffer nb' else nb')"

text \<open>The result is the return value, the value stored through \<^verbatim>\<open>err\<close> if any, and the
  buffer.\<close>

definition transmit_net_buffer ::
  "send_call \<Rightarrow> send_call \<Rightarrow> net_buffer option \<Rightarrow> int \<times> int option \<times> net_buffer option" where
  "transmit_net_buffer SSL_write send nbo =
     (case nbo of
        None \<Rightarrow> (-1, Some OPENLI_PROTO_NULL_BUFFER, None)
      | Some nb \<Rightarrow>
          if nb_buftype nb \<noteq> NETBUF_SEND then (-1, Some OPENLI_PROTO_WRONG_BUFFER_TYPE, Some nb)
          else if NETBUF_CONTENT_SIZE nb = 0 then (0, None, Some nb)
          else (case (if nb_ssl nb \<noteq> None then SSL_write (nb_content nb)
                      else send (nb_content nb)) of
                  Send_error again \<Rightarrow>
                    if again then (1, None, Some nb)
                    else (-1, Some OPENLI_PROTO_SEND_ERROR, Some nb)
                | Sent ret \<Rightarrow>
                    let nb' = after_send ret nb
                    in (int (NETBUF_CONTENT_SIZE nb'), None, Some nb')))"

subsection \<open>Reception\<close>

text \<open>The outputs \<^verbatim>\<open>msgbody\<close> (as an offset into the buffer), \<^verbatim>\<open>msglen\<close> and \<^verbatim>\<open>intid\<close>, when the
  function writes them.\<close>

type_synonym received = "(nat \<times> nat \<times> u64) option"

definition parse_received_message :: "net_buffer \<Rightarrow> int \<times> received \<times> net_buffer" where
  "parse_received_message nb =
     (if NETBUF_CONTENT_SIZE nb < ii_header_size
      then (int (msgtype_code OPENLI_PROTO_NO_MESSAGE), None, nb)
      else let hdr = ii_header_load (nb_buf nb) (nb_actptr nb) in
        if ntohl (hdr_magic hdr) \<noteq> OPENLI_PROTO_MAGIC
        then (OPENLI_PROTO_INVALID_MESSAGE, None, nb)
        else if NETBUF_CONTENT_SIZE nb < ii_header_size + unat (ntohs (hdr_bodylen hdr))
        then (int (msgtype_code OPENLI_PROTO_NO_MESSAGE), None, nb)
        else let msglen = unat (ntohs (hdr_bodylen hdr)) in
          (int (unat (ntohs (hdr_intercepttype hdr))),
           Some (nb_actptr nb + ii_header_size, msglen, bswap_be_to_host64 (hdr_internalid hdr)),
           nb \<lparr> nb_actptr := nb_actptr nb + (msglen + ii_header_size) \<rparr>))"

text \<open>A non-blocking read of at most \<^term>\<open>n :: nat\<close> bytes: the bytes read (none when the peer
  has closed), or an error as for a write.\<close>

datatype recv_result = Received bytes | Recv_error bool

type_synonym recv_call = "nat \<Rightarrow> recv_result"

text \<open>Copy received bytes to the end of the content; writing past the allocation is
  undefined.\<close>

definition append_received :: "bytes \<Rightarrow> net_buffer \<Rightarrow> net_buffer option" where
  "append_received bs nb =
     (if nb_appendptr nb + length bs \<le> nb_alloced nb
      then Some (nb \<lparr> nb_buf := mem_write (nb_buf nb) (nb_appendptr nb) bs,
                      nb_appendptr := nb_appendptr nb + length bs \<rparr>)
      else None)"

definition receive_net_buffer ::
  "allocator \<Rightarrow> recv_call \<Rightarrow> recv_call \<Rightarrow> net_buffer option \<Rightarrow>
   (int \<times> received \<times> net_buffer option) option" where
  "receive_net_buffer ok SSL_read recv nbo =
     (case nbo of
        None \<Rightarrow> Some (OPENLI_PROTO_NULL_BUFFER, None, None)
      | Some nb \<Rightarrow>
          if nb_buftype nb \<noteq> NETBUF_RECV
          then Some (OPENLI_PROTO_WRONG_BUFFER_TYPE, None, Some nb)
          else case parse_received_message nb of (rettype, out, nb1) \<Rightarrow>
          if rettype \<noteq> int (msgtype_code OPENLI_PROTO_NO_MESSAGE)
          then Some (rettype, out, Some nb1)
          else case (if NETBUF_SPACE_REM nb1 < int NETBUF_ALLOC_SIZE
                     then extend_net_buffer ok (int NETBUF_ALLOC_SIZE) nb1
                     else Some (0, nb1)) of
                 None \<Rightarrow> None
               | Some (r, nb2) \<Rightarrow>
          if r = -1 then Some (OPENLI_PROTO_BUFFER_TOO_FULL, out, Some nb2)
          else case (if nb_ssl nb2 \<noteq> None then SSL_read (nat (NETBUF_SPACE_REM nb2))
                     else recv (nat (NETBUF_SPACE_REM nb2))) of
                 Recv_error again \<Rightarrow>
                   if again
                   then Some (int (msgtype_code OPENLI_PROTO_NO_MESSAGE), out, Some nb2)
                   else Some (OPENLI_PROTO_RECV_ERROR, out, Some nb2)
               | Received bs \<Rightarrow>
                   if bs = [] then Some (OPENLI_PROTO_PEER_DISCONNECTED, out, Some nb2)
                   else case append_received bs nb2 of
                          None \<Rightarrow> None
                        | Some nb3 \<Rightarrow>
                            (case parse_received_message nb3 of (rettype', out', nb4) \<Rightarrow>
                              Some (rettype', if out' = None then out else out', Some nb4)))"

text \<open>
  The outcomes of the AMQP calls of \<^verbatim>\<open>receive_RMQ_buffer\<close>. A normal reply delivers an envelope.
  After the library exception \<^verbatim>\<open>AMQP_STATUS_UNEXPECTED_STATE\<close> the code waits for a frame. Any
  other reply leaves whatever envelope body the library left in the local variable.
\<close>

datatype amqp_method =
    AMQP_BASIC_ACK_METHOD
  | AMQP_BASIC_RETURN_METHOD bool  \<comment> \<open>whether reading the returned message succeeds\<close>
  | AMQP_CHANNEL_CLOSE_METHOD
  | AMQP_CONNECTION_CLOSE_METHOD
  | AMQP_OTHER_METHOD

datatype amqp_wait =
    AMQP_WAIT_FAILED
  | AMQP_FRAME_METHOD amqp_method
  | AMQP_FRAME_OTHER

datatype amqp_reply =
    AMQP_RESPONSE_NORMAL
  | AMQP_UNEXPECTED_STATE amqp_wait
  | AMQP_RESPONSE_OTHER

text \<open>The early returns on a reply, if any.\<close>

fun amqp_reply_result :: "amqp_reply \<Rightarrow> int option" where
  "amqp_reply_result AMQP_RESPONSE_NORMAL = None"
| "amqp_reply_result AMQP_RESPONSE_OTHER = None"
| "amqp_reply_result (AMQP_UNEXPECTED_STATE w) =
     (case w of
        AMQP_WAIT_FAILED \<Rightarrow> Some (int (msgtype_code OPENLI_PROTO_NO_MESSAGE))
      | AMQP_FRAME_OTHER \<Rightarrow> None
      | AMQP_FRAME_METHOD m \<Rightarrow>
          (case m of
             AMQP_BASIC_ACK_METHOD \<Rightarrow> Some (int (msgtype_code OPENLI_PROTO_NO_MESSAGE))
           | AMQP_BASIC_RETURN_METHOD readok \<Rightarrow>
               Some (if readok then int (msgtype_code OPENLI_PROTO_NO_MESSAGE)
                     else OPENLI_PROTO_RECV_ERROR)
           | AMQP_CHANNEL_CLOSE_METHOD \<Rightarrow> Some OPENLI_PROTO_RECV_ERROR
           | AMQP_CONNECTION_CLOSE_METHOD \<Rightarrow> Some OPENLI_PROTO_PEER_DISCONNECTED
           | AMQP_OTHER_METHOD \<Rightarrow> Some OPENLI_PROTO_RECV_ERROR))"

definition receive_RMQ_buffer ::
  "allocator \<Rightarrow> amqp_reply \<Rightarrow> bytes \<Rightarrow> net_buffer option \<Rightarrow>
   (int \<times> received \<times> net_buffer option) option" where
  "receive_RMQ_buffer ok reply body nbo =
     (case nbo of
        None \<Rightarrow> Some (OPENLI_PROTO_NULL_BUFFER, None, None)
      | Some nb \<Rightarrow>
          if nb_buftype nb \<noteq> NETBUF_RECV
          then Some (OPENLI_PROTO_WRONG_BUFFER_TYPE, None, Some nb)
          else case parse_received_message nb of (rettype, out, nb1) \<Rightarrow>
          if rettype \<noteq> int (msgtype_code OPENLI_PROTO_NO_MESSAGE)
          then Some (rettype, out, Some nb1)
          else case amqp_reply_result reply of
                 Some r \<Rightarrow> Some (r, out, Some nb1)
               | None \<Rightarrow>
          case (if NETBUF_SPACE_REM nb1 < int (length body)
                then extend_net_buffer ok (c_int (int (length body))) nb1
                else Some (0, nb1)) of
            None \<Rightarrow> None
          | Some (r, nb2) \<Rightarrow>
          if r = -1 then Some (OPENLI_PROTO_BUFFER_TOO_FULL, out, Some nb2)
          else case append_received body nb2 of
                 None \<Rightarrow> None
               | Some nb3 \<Rightarrow>
                   (case parse_received_message nb3 of (rettype', out', nb4) \<Rightarrow>
                     Some (rettype', if out' = None then out else out', Some nb4)))"

subsection \<open>Invariant and growth\<close>

definition nb_inv :: "net_buffer \<Rightarrow> bool" where
  "nb_inv nb \<longleftrightarrow>
     nb_actptr nb \<le> nb_appendptr nb \<and> nb_appendptr nb \<le> nb_alloced nb \<and>
     nb_alloced nb \<le> INT_MAX"

text \<open>The members no buffer operation changes.\<close>

definition nb_same :: "net_buffer \<Rightarrow> net_buffer \<Rightarrow> bool" where
  "nb_same nb nb' \<longleftrightarrow>
     nb_fd nb' = nb_fd nb \<and> nb_buftype nb' = nb_buftype nb \<and> nb_ssl nb' = nb_ssl nb"

text \<open>Room for \<^term>\<open>n :: nat\<close> more bytes, either already or after growing once.\<close>

definition can_push :: "allocator \<Rightarrow> nat \<Rightarrow> net_buffer \<Rightarrow> bool" where
  "can_push ok n nb \<longleftrightarrow>
     nb_inv nb \<and>
     (int n \<le> NETBUF_SPACE_REM nb \<or>
      (n \<le> NETBUF_ALLOC_SIZE \<and> nb_alloced nb + NETBUF_ALLOC_SIZE \<le> INT_MAX \<and>
       ok (nb_alloced nb + NETBUF_ALLOC_SIZE)))"

lemma nb_same_refl [simp]: "nb_same nb nb"
  by (simp add: nb_same_def)

lemma nb_same_trans: "nb_same a b \<Longrightarrow> nb_same b c \<Longrightarrow> nb_same a c"
  by (simp add: nb_same_def)

lemma length_nb_content [simp]: "length (nb_content nb) = NETBUF_CONTENT_SIZE nb"
  by (simp add: nb_content_def)

lemma create_net_buffer_inv: "nb_inv (create_net_buffer m ty fd ssl)"
  by (simp add: nb_inv_def create_net_buffer_def NETBUF_ALLOC_SIZE_def INT_MAX_def)

lemma can_push_fresh:
  "n \<le> NETBUF_ALLOC_SIZE \<Longrightarrow> can_push ok n (create_net_buffer m ty fd ssl)"
  using create_net_buffer_inv [of m ty fd ssl]
  by (simp add: can_push_def NETBUF_SPACE_REM_def create_net_buffer_def)

lemma create_net_buffer_content [simp]: "nb_content (create_net_buffer m ty fd ssl) = []"
  by (simp add: nb_content_def create_net_buffer_def NETBUF_CONTENT_SIZE_def)

lemma slide_net_buffer_props:
  assumes "nb_inv nb"
  shows "nb_inv (slide_net_buffer nb)" "nb_content (slide_net_buffer nb) = nb_content nb"
    "nb_same nb (slide_net_buffer nb)"
    "NETBUF_SPACE_REM (slide_net_buffer nb) = NETBUF_SPACE_REM nb + int (nb_actptr nb)"
    "nb_alloced (slide_net_buffer nb) = nb_alloced nb"
  using assms mem_read_write
    [of "nb_buf nb" 0 "mem_read (nb_buf nb) (nb_actptr nb) (nb_appendptr nb - nb_actptr nb)"]
  by (auto simp: nb_inv_def slide_net_buffer_def nb_content_def NETBUF_CONTENT_SIZE_def
      NETBUF_FRONT_FREE_def NETBUF_SPACE_REM_def nb_same_def memmove_def)

lemma grow_net_buffer_props:
  assumes "grow_net_buffer ok nb = Some (r, nb')" "nb_inv nb"
  shows "nb_inv nb' \<and> nb_content nb' = nb_content nb \<and> nb_same nb nb' \<and> (r = 0 \<or> r = -1)"
  using assms
  by (auto simp: grow_net_buffer_def nb_inv_def nb_content_def NETBUF_CONTENT_SIZE_def
      nb_same_def split: if_splits)

lemma extend_net_buffer_props:
  assumes "extend_net_buffer ok n nb = Some (r, nb')" "nb_inv nb"
  shows "nb_inv nb' \<and> nb_content nb' = nb_content nb \<and> nb_same nb nb' \<and> (r = 0 \<or> r = -1)"
  using assms slide_net_buffer_props [OF assms(2)] nb_same_trans [of nb "slide_net_buffer nb" nb']
    grow_net_buffer_props [of ok "slide_net_buffer nb" r nb'] grow_net_buffer_props [of ok nb r nb']
  by (simp add: extend_net_buffer_def Let_def split: if_splits; blast)

text \<open>When the allocation can grow, an extension succeeds; it gives the space asked for by
  sliding, or it adds an allocation unit.\<close>

lemma extend_net_buffer_succeeds:
  assumes inv: "nb_inv nb" and max: "nb_alloced nb + NETBUF_ALLOC_SIZE \<le> INT_MAX"
    and ok: "ok (nb_alloced nb + NETBUF_ALLOC_SIZE)"
  obtains nb' where "extend_net_buffer ok n nb = Some (0, nb')"
    "nb_alloced nb' = nb_alloced nb \<and> n \<le> NETBUF_SPACE_REM nb' \<or>
     NETBUF_SPACE_REM nb + int NETBUF_ALLOC_SIZE \<le> NETBUF_SPACE_REM nb'"
proof -
  have grow: "grow_net_buffer ok b = Some (0, b \<lparr>nb_alloced := nb_alloced b + NETBUF_ALLOC_SIZE\<rparr>)"
    if "nb_alloced b = nb_alloced nb" for b
    using max ok that by (simp add: grow_net_buffer_def)
  show ?thesis
    using that grow slide_net_buffer_props [OF inv]
    by (cases "4 * NETBUF_FRONT_FREE nb \<ge> 3 * nb_alloced nb";
        cases "NETBUF_SPACE_REM (slide_net_buffer nb) \<ge> n")
      (auto simp: extend_net_buffer_def NETBUF_SPACE_REM_def)
qed

lemma ensure_space_props:
  assumes "ensure_space ok len nb = Some (r, nb')" "nb_inv nb"
  shows "nb_inv nb' \<and> nb_content nb' = nb_content nb \<and> nb_same nb nb' \<and>
    (r = -1 \<or> r = 0 \<and> int len \<le> NETBUF_SPACE_REM nb')"
  using assms
proof (induction ok len nb rule: ensure_space.induct)
  case (1 ok len nb)
  show ?case
  proof (cases "NETBUF_SPACE_REM nb < int len")
    case True
    then obtain r1 nb1 where ext: "extend_net_buffer ok (int len) nb = Some (r1, nb1)"
      using "1.prems" by (auto simp: ensure_space.simps [of ok len nb] split: option.splits)
    show ?thesis
      using "1.prems" "1.IH" [OF True ext refl] True ext extend_net_buffer_props [OF ext]
        nb_same_trans [of nb nb1 nb']
      by (auto simp: ensure_space.simps [of ok len nb] split: if_splits)
  next
    case False
    with "1.prems" show ?thesis by (auto simp: ensure_space.simps [of ok len nb])
  qed
qed

lemma write_at_append:
  assumes "nb_inv nb" "int (length data) \<le> NETBUF_SPACE_REM nb"
    and "nb' = nb \<lparr> nb_buf := mem_write (nb_buf nb) (nb_appendptr nb) data,
                    nb_appendptr := nb_appendptr nb + length data \<rparr>"
  shows "nb_inv nb'" "nb_content nb' = nb_content nb @ data" "nb_same nb nb'"
    "NETBUF_SPACE_REM nb' = NETBUF_SPACE_REM nb - int (length data)"
proof -
  obtain k where k: "nb_appendptr nb = nb_actptr nb + k"
    using assms(1) le_Suc_ex by (auto simp: nb_inv_def)
  show "nb_content nb' = nb_content nb @ data"
    unfolding assms(3)
    by (simp add: nb_content_def NETBUF_CONTENT_SIZE_def k add.assoc mem_read_append mem_simps)
qed (use assms in \<open>auto simp: nb_inv_def NETBUF_SPACE_REM_def nb_same_def\<close>)

lemma push_generic_props:
  assumes "push_generic_onto_net_buffer ok data nb = Some (r, nb')" "nb_inv nb"
  shows "nb_inv nb' \<and> nb_same nb nb' \<and>
    (r = -1 \<and> nb_content nb' = nb_content nb \<or>
     r = int (length data) \<and> nb_content nb' = nb_content nb @ data)"
proof (cases "length data = 0")
  case True
  with assms show ?thesis by (auto simp: push_generic_onto_net_buffer_def)
next
  case False
  then obtain r1 nb1 where es: "ensure_space ok (length data) nb = Some (r1, nb1)"
    using assms by (auto simp: push_generic_onto_net_buffer_def split: option.splits)
  show ?thesis
    using assms False es ensure_space_props [OF es assms(2)]
      write_at_append [OF _ _ refl, of nb1 data]
      nb_same_trans [of nb nb1 nb']
    by (auto simp: push_generic_onto_net_buffer_def split: if_splits)
qed

lemma ensure_space_succeeds:
  assumes "can_push ok n nb" "len \<le> n"
  obtains nb' where "ensure_space ok len nb = Some (0, nb')" "can_push ok n nb'"
    "int len \<le> NETBUF_SPACE_REM nb'"
proof (cases "NETBUF_SPACE_REM nb < int len")
  case False
  with assms that show ?thesis by (simp add: ensure_space.simps)
next
  case True
  with assms have n: "n \<le> NETBUF_ALLOC_SIZE" and max: "nb_alloced nb + NETBUF_ALLOC_SIZE \<le> INT_MAX"
    and ok: "ok (nb_alloced nb + NETBUF_ALLOC_SIZE)" and inv: "nb_inv nb"
    by (auto simp: can_push_def)
  obtain nb1 where ext: "extend_net_buffer ok (int len) nb = Some (0, nb1)"
    and space: "nb_alloced nb1 = nb_alloced nb \<and> int len \<le> NETBUF_SPACE_REM nb1 \<or>
      NETBUF_SPACE_REM nb + int NETBUF_ALLOC_SIZE \<le> NETBUF_SPACE_REM nb1"
    using extend_net_buffer_succeeds [of nb ok, OF inv max ok] by blast
  have nonneg: "0 \<le> NETBUF_SPACE_REM nb"
    using inv by (simp add: nb_inv_def NETBUF_SPACE_REM_def)
  have len1: "int len \<le> NETBUF_SPACE_REM nb1" and can1: "can_push ok n nb1"
    using space nonneg n max ok assms(2) extend_net_buffer_props [OF ext inv]
    by (auto simp: can_push_def)
  show ?thesis
    using that [OF _ can1 len1] True ext len1
    by (simp add: ensure_space.simps [of ok len nb] ensure_space.simps [of ok len nb1])
qed

text \<open>A push within the room available succeeds, and leaves the rest of the room.\<close>

lemma push_generic_succeeds:
  assumes "can_push ok n nb" "length data \<le> n"
  obtains nb' where "push_generic_onto_net_buffer ok data nb = Some (int (length data), nb')"
    "can_push ok (n - length data) nb'" "nb_content nb' = nb_content nb @ data" "nb_same nb nb'"
proof -
  have inv: "nb_inv nb" using assms(1) by (simp add: can_push_def)
  obtain nb1 where es: "ensure_space ok (length data) nb = Some (0, nb1)"
    and can: "can_push ok n nb1" and len: "int (length data) \<le> NETBUF_SPACE_REM nb1"
    using ensure_space_succeeds [OF assms] by blast
  let ?nb' = "nb1 \<lparr> nb_buf := mem_write (nb_buf nb1) (nb_appendptr nb1) data,
                    nb_appendptr := nb_appendptr nb1 + length data \<rparr>"
  have w: "nb_inv ?nb'" "nb_content ?nb' = nb_content nb1 @ data"
    "NETBUF_SPACE_REM ?nb' = NETBUF_SPACE_REM nb1 - int (length data)"
    using can len by (auto simp: can_push_def intro!: write_at_append [OF _ _ refl])
  have can': "can_push ok (n - length data) ?nb'"
    using can w assms(2) by (auto simp: can_push_def)
  show ?thesis
  proof (cases "data = []")
    case True
    then show ?thesis
      using that assms by (simp add: push_generic_onto_net_buffer_def)
  next
    case False
    then have push: "push_generic_onto_net_buffer ok data nb = Some (int (length data), ?nb')"
      by (simp add: push_generic_onto_net_buffer_def es)
    from push_generic_props [OF push inv] can' push show ?thesis
      using that by auto
  qed
qed

subsection \<open>What a push emits\<close>

text \<open>
  \<^term>\<open>emits ok p r bs\<close>: given room for the bytes \<^term>\<open>bs\<close>, the push \<^term>\<open>p\<close> returns
  \<^term>\<open>r\<close>, appends exactly \<^term>\<open>bs\<close> to the content and uses up exactly that much room.
  \<^term>\<open>keeps p\<close>: whatever happens, \<^term>\<open>p\<close> leaves what is already queued in place.
\<close>

definition emits :: "allocator \<Rightarrow> push \<Rightarrow> int \<Rightarrow> bytes \<Rightarrow> bool" where
  "emits ok p r bs \<longleftrightarrow>
     (\<forall>n nb. can_push ok n nb \<and> length bs \<le> n \<longrightarrow>
       (\<exists>nb'. p nb = Some (r, nb') \<and> can_push ok (n - length bs) nb' \<and>
          nb_content nb' = nb_content nb @ bs \<and> nb_same nb nb'))"

definition keeps :: "push \<Rightarrow> bool" where
  "keeps p \<longleftrightarrow>
     (\<forall>nb r nb'. nb_inv nb \<and> p nb = Some (r, nb') \<longrightarrow>
        nb_inv nb' \<and> nb_same nb nb' \<and> (\<exists>bs. nb_content nb' = nb_content nb @ bs))"

named_theorems emits_intros \<open>what the pushes emit\<close>
named_theorems keeps_intros \<open>pushes keep the queued content\<close>

definition msg_header :: "nat \<Rightarrow> nat \<Rightarrow> u64 \<Rightarrow> bytes" where
  "msg_header ty len intid =
     be_bytes 4 (unat OPENLI_PROTO_MAGIC) @ be_bytes 2 len @ be_bytes 2 ty @
     be_bytes 8 (unat intid)"

definition msg_bytes :: "nat \<Rightarrow> u64 \<Rightarrow> bytes \<Rightarrow> bytes" where
  "msg_bytes ty intid body = msg_header ty (length body) intid @ body"

lemma length_msg_header [simp]: "length (msg_header ty len i) = ii_header_size"
  by (simp add: msg_header_def ii_header_size_def)

lemma length_msg_bytes [simp]: "length (msg_bytes ty i b) = ii_header_size + length b"
  by (simp add: msg_bytes_def)

lemma emitsD:
  assumes "emits ok p r bs" "can_push ok n nb" "length bs \<le> n"
  obtains nb' where "p nb = Some (r, nb')" "can_push ok (n - length bs) nb'"
    "nb_content nb' = nb_content nb @ bs" "nb_same nb nb'"
  using assms by (auto simp: emits_def)

lemma emits_generic [emits_intros]:
  "emits ok (push_generic_onto_net_buffer ok data) (int (length data)) data"
  unfolding emits_def using push_generic_succeeds by metis

lemma keeps_generic [keeps_intros]: "keeps (push_generic_onto_net_buffer ok data)"
  using push_generic_props [of ok data] unfolding keeps_def by fastforce

lemma populate_header_bytes:
  assumes "ty < 65536" "len < 65536"
  shows "ii_header_bytes (populate_header ty len i) = msg_header ty len i"
  using assms
  by (simp add: ii_header_bytes_def populate_header_def msg_header_def swap_macros
      host32_byteswap32 host16_byteswap16 host64_byteswap64 unat_of_nat)

lemma emits_header [emits_intros]:
  assumes "len < 65536"
  shows "emits ok (push_header ok ty len i) (int ii_header_size) (msg_header (msgtype_code ty) len i)"
  using emits_generic [of ok "msg_header (msgtype_code ty) len i"] assms msgtype_code_less [of ty]
  by (simp add: push_header_def populate_header_bytes)

lemma keeps_header [keeps_intros]: "keeps (push_header ok ty len i)"
  unfolding push_header_def by (rule keeps_generic)

lemma emits_tlv [emits_intros]:
  assumes "copy_obj value n = Some v" "n \<le> 4092"
  shows "emits ok (push_tlv ok t value n) (int (n + 4)) (tlv_bytes (fieldtype_code t) v)"
proof -
  have len: "length v = n"
    using assms(1) by (auto simp: copy_obj_def split: if_splits option.splits)
  have "push_tlv ok t value n =
      push_generic_onto_net_buffer ok (tlv_bytes (fieldtype_code t) v)"
    using assms fieldtype_code_wire [of t]
    by (auto simp: push_tlv_def tlv_bytes_def swap_macros host16_byteswap16 unat_of_nat len)
  with emits_generic [of ok "tlv_bytes (fieldtype_code t) v"] show ?thesis
    by (simp add: len)
qed

lemma keeps_tlv [keeps_intros]: "keeps (push_tlv ok t value n)"
  using keeps_generic unfolding keeps_def push_tlv_def
  by (auto split: if_splits option.splits)

lemma emits_run_Nil [emits_intros]: "emits ok (run_pushes [] r) r []"
  by (auto simp: emits_def)

lemma emits_run_Cons [emits_intros]:
  assumes "emits ok p r bs" "r \<noteq> -1" "emits ok (run_pushes ps res) res' bs'"
  shows "emits ok (run_pushes (p # ps) res) res' (bs @ bs')"
  unfolding emits_def
proof (intro allI impI, elim conjE)
  fix n nb assume can: "can_push ok n nb" and len: "length (bs @ bs') \<le> n"
  obtain nb1 where 1: "p nb = Some (r, nb1)" "can_push ok (n - length bs) nb1"
    "nb_content nb1 = nb_content nb @ bs" "nb_same nb nb1"
    using emitsD [OF assms(1) can] len by auto
  have len': "length bs' \<le> n - length bs" using len by simp
  obtain nb2 where 2: "run_pushes ps res nb1 = Some (res', nb2)"
    "can_push ok (n - length bs - length bs') nb2"
    "nb_content nb2 = nb_content nb1 @ bs'" "nb_same nb1 nb2"
    using emitsD [OF assms(3) 1(2) len'] by blast
  show "\<exists>nb'. run_pushes (p # ps) res nb = Some (res', nb') \<and>
      can_push ok (n - length (bs @ bs')) nb' \<and>
      nb_content nb' = nb_content nb @ bs @ bs' \<and> nb_same nb nb'"
    using 1 2 assms(2) by (auto intro: nb_same_trans)
qed

lemma keeps_run [keeps_intros]: "list_all keeps ps \<Longrightarrow> keeps (run_pushes ps r)"
proof (induction ps)
  case Nil
  then show ?case by (auto simp: keeps_def)
next
  case (Cons p ps)
  then have p: "keeps p" and ps: "keeps (run_pushes ps r)" by auto
  show ?case
    unfolding keeps_def
  proof (intro allI impI, elim conjE)
    fix nb r' nb' assume inv: "nb_inv nb" and run: "run_pushes (p # ps) r nb = Some (r', nb')"
    then obtain x nb1 where x: "p nb = Some (x, nb1)" by (auto split: option.splits)
    with p inv obtain bs where 1: "nb_inv nb1" "nb_same nb nb1" "nb_content nb1 = nb_content nb @ bs"
      unfolding keeps_def by blast
    show "nb_inv nb' \<and> nb_same nb nb' \<and> (\<exists>bs. nb_content nb' = nb_content nb @ bs)"
    proof (cases "x = -1")
      case True
      with run x 1 show ?thesis by auto
    next
      case False
      with run x have "run_pushes ps r nb1 = Some (r', nb')" by simp
      with ps 1(1) obtain bs' where
        "nb_inv nb'" "nb_same nb1 nb'" "nb_content nb' = nb_content nb1 @ bs'"
        unfolding keeps_def by blast
      with 1 show ?thesis by (auto intro: nb_same_trans)
    qed
  qed
qed

subsection \<open>Transmission and reception\<close>

lemma advance_props:
  assumes "nb_inv nb" "n \<le> NETBUF_CONTENT_SIZE nb"
    and "nb' = nb \<lparr> nb_actptr := nb_actptr nb + n \<rparr>"
  shows "nb_inv nb'" "nb_content nb' = drop n (nb_content nb)" "nb_same nb nb'"
  using assms
  by (auto simp: nb_inv_def nb_same_def nb_content_def NETBUF_CONTENT_SIZE_def mem_read_drop)

lemma after_send_props:
  assumes "nb_inv nb" "n \<le> NETBUF_CONTENT_SIZE nb"
  shows "nb_inv (after_send n nb)" "nb_content (after_send n nb) = drop n (nb_content nb)"
    "nb_same nb (after_send n nb)"
  using advance_props [OF assms refl] slide_net_buffer_props [OF advance_props(1) [OF assms refl]]
  by (auto simp: after_send_def Let_def intro: nb_same_trans)

text \<open>The loads of a header read exactly its bytes.\<close>

lemma nb_content_at: "mem_at (nb_buf nb) (nb_actptr nb) (nb_content nb)"
  by (simp add: mem_at_def nb_content_def)

lemma header_load_msg:
  assumes "nb_content nb = msg_header ty len i @ rest" "ty < 65536" "len < 65536"
  shows "ii_header_load (nb_buf nb) (nb_actptr nb) = populate_header ty len i"
proof (rule ii_header_load_bytes)
  show "mem_at (nb_buf nb) (nb_actptr nb) (ii_header_bytes (populate_header ty len i))"
    using nb_content_at [of nb] assms by (simp add: populate_header_bytes mem_at_append)
qed

lemma parse_complete:
  assumes "nb_inv nb" "nb_content nb = msg_bytes ty i body @ rest"
    and "ty < 65536" "length body < 65536"
  obtains nb' where
    "parse_received_message nb =
       (int ty, Some (nb_actptr nb + ii_header_size, length body, i), nb')"
    "nb_inv nb'" "nb_same nb nb'" "nb_content nb' = rest" "nb_buf nb' = nb_buf nb"
    "mem_at (nb_buf nb) (nb_actptr nb + ii_header_size) body"
proof -
  let ?k = "length body + ii_header_size"
  let ?nb' = "nb \<lparr> nb_actptr := nb_actptr nb + ?k \<rparr>"
  have size: "NETBUF_CONTENT_SIZE nb = ?k + length rest"
    using length_nb_content [of nb] assms(2) by simp
  have load: "ii_header_load (nb_buf nb) (nb_actptr nb) = populate_header ty (length body) i"
    using assms by (intro header_load_msg [of _ _ _ _ "body @ rest"]) (auto simp: msg_bytes_def)
  have parse: "parse_received_message nb =
      (int ty, Some (nb_actptr nb + ii_header_size, length body, i), ?nb')"
    using assms(3,4)
    by (simp add: parse_received_message_def size load populate_header_def swap_macros unat_of_nat
        Let_def)
  have adv: "nb_inv ?nb'" "nb_content ?nb' = drop ?k (nb_content nb)" "nb_same nb ?nb'"
    using size by (auto intro!: advance_props [OF assms(1) _ refl])
  have body: "mem_at (nb_buf nb) (nb_actptr nb + ii_header_size) body"
    using nb_content_at [of nb] assms(2) by (simp add: msg_bytes_def mem_at_append)
  show ?thesis
    using adv assms(2) by (intro that [OF parse _ _ _ _ body]) auto
qed

text \<open>A strict prefix of a message is not enough, and the buffer is left as it is.\<close>

lemma parse_incomplete:
  assumes "nb_content nb @ suffix = msg_bytes ty i body" "suffix \<noteq> []"
    and "ty < 65536" "length body < 65536"
  shows "parse_received_message nb = (int (msgtype_code OPENLI_PROTO_NO_MESSAGE), None, nb)"
proof (cases "NETBUF_CONTENT_SIZE nb < ii_header_size")
  case True
  then show ?thesis by (simp add: parse_received_message_def)
next
  case False
  have "NETBUF_CONTENT_SIZE nb + length suffix = ii_header_size + length body"
    using arg_cong [OF assms(1), of length] by simp
  moreover have "0 < length suffix" using assms(2) by simp
  ultimately have len: "NETBUF_CONTENT_SIZE nb < ii_header_size + length body" by linarith
  have "take ii_header_size (nb_content nb) = msg_header ty (length body) i"
    using False arg_cong [OF assms(1), of "take ii_header_size"] by (simp add: msg_bytes_def)
  then have "nb_content nb =
      msg_header ty (length body) i @ drop ii_header_size (nb_content nb)"
    by (metis append_take_drop_id)
  from header_load_msg [OF this assms(3,4)] False len assms(4) show ?thesis
    by (simp add: parse_received_message_def populate_header_def swap_macros unat_of_nat Let_def)
qed

lemma parse_bad_magic:
  assumes "ii_header_size \<le> NETBUF_CONTENT_SIZE nb"
    and "take 4 (nb_content nb) \<noteq> be_bytes 4 (unat OPENLI_PROTO_MAGIC)"
  shows "parse_received_message nb = (OPENLI_PROTO_INVALID_MESSAGE, None, nb)"
proof -
  let ?w = "load32 (nb_buf nb) (nb_actptr nb)"
  have read: "take 4 (nb_content nb) = mem_read (nb_buf nb) (nb_actptr nb) 4"
    using assms(1) by (simp add: nb_content_def mem_read_take ii_header_size_def)
  have "host32 ?w = mem_read (nb_buf nb) (nb_actptr nb) 4"
    using le_bytes_le_nat [of "mem_read (nb_buf nb) (nb_actptr nb) 4"]
      le_nat_bound [of "mem_read (nb_buf nb) (nb_actptr nb) 4"]
    by (simp add: host32_def load32_def unat_of_nat)
  moreover have "host32 ?w = be_bytes 4 (unat OPENLI_PROTO_MAGIC)"
    if "byteswap32 ?w = OPENLI_PROTO_MAGIC"
    using host32_byteswap32 [of "byteswap32 ?w"] that byteswap_involution(2) [of ?w] by metis
  ultimately have "byteswap32 ?w \<noteq> OPENLI_PROTO_MAGIC"
    using assms(2) read by metis
  with assms(1) show ?thesis
    by (simp add: parse_received_message_def ii_header_load_def swap_macros)
qed

end
