(* ===== verification/Net_Encode.thy ===== *)
theory Net_Encode
  imports Net_Buffer "HOL-Library.Monad_Syntax"
begin

text \<open>
  The encoders of the control protocol: one definition per \<^verbatim>\<open>push_*_onto_net_buffer\<close> function
  of \<^verbatim>\<open>src/src/netcomms.c\<close>, with the body-length macros it uses. Each encoder writes the
  header with the precomputed body length and then the fields one by one; a failing push
  ends it with -1 and leaves what was pushed before in the buffer.

  A body length is an \<^typ>\<open>int\<close>; \<^term>\<open>u16_of\<close>, \<^term>\<open>c_int\<close> and \<^term>\<open>c_size\<close> mark where the code
  stores it in a \<^verbatim>\<open>uint16_t\<close>, in an \<^verbatim>\<open>int\<close> or compares it as a \<^verbatim>\<open>size_t\<close>. \<^verbatim>\<open>strlen\<close> of NULL
  is undefined.
\<close>

subsection \<open>Field pushes\<close>

definition strlen_p :: "cstr option \<Rightarrow> int option" where
  "strlen_p s = map_option (\<lambda>b. int (strlen b)) s"

text \<open>\<^verbatim>\<open>push_tlv(nb, t, s, strlen(s))\<close>, \<^verbatim>\<open>push_tlv(nb, t, s, n)\<close> and \<^verbatim>\<open>push_tlv(nb, t, &x,
  sizeof(x))\<close> for the integer widths.\<close>

definition push_str :: "allocator \<Rightarrow> openli_proto_fieldtype \<Rightarrow> cstr option \<Rightarrow> push" where
  "push_str ok t s nb =
     (case strlen_p s of
        None \<Rightarrow> None
      | Some n \<Rightarrow> push_tlv ok t (str_obj s) (u16_of n) nb)"

definition push_strn :: "allocator \<Rightarrow> openli_proto_fieldtype \<Rightarrow> cstr option \<Rightarrow> int \<Rightarrow> push" where
  "push_strn ok t s n = push_tlv ok t (str_obj s) (u16_of n)"

definition push_u8 :: "allocator \<Rightarrow> openli_proto_fieldtype \<Rightarrow> u8 \<Rightarrow> push" where
  "push_u8 ok t x = push_tlv ok t (Some [x]) 1"

definition push_u32 :: "allocator \<Rightarrow> openli_proto_fieldtype \<Rightarrow> u32 \<Rightarrow> push" where
  "push_u32 ok t x = push_tlv ok t (Some (host32 x)) 4"

definition push_u64 :: "allocator \<Rightarrow> openli_proto_fieldtype \<Rightarrow> u64 \<Rightarrow> push" where
  "push_u64 ok t x = push_tlv ok t (Some (host64 x)) 8"

text \<open>Use a length that the code computes before it pushes anything.\<close>

definition with_len :: "int option \<Rightarrow> (int \<Rightarrow> push) \<Rightarrow> push" where
  "with_len lo f nb = (case lo of None \<Rightarrow> None | Some l \<Rightarrow> f l nb)"

definition push_fail :: push where
  "push_fail nb = Some (-1, nb)"

subsection \<open>Authentication, mediation and agencies\<close>

definition push_auth_onto_net_buffer :: "allocator \<Rightarrow> openli_proto_msgtype \<Rightarrow> push" where
  "push_auth_onto_net_buffer ok msgtype =
     (if msgtype = OPENLI_PROTO_COLLECTOR_AUTH
      then push_header ok msgtype 0 OPENLI_COLLECTOR_MAGIC
      else if msgtype = OPENLI_PROTO_MEDIATOR_AUTH
      then push_header ok msgtype 0 OPENLI_MEDIATOR_MAGIC
      else push_fail)"

definition push_disconnect_mediators_onto_net_buffer :: "allocator \<Rightarrow> push" where
  "push_disconnect_mediators_onto_net_buffer ok =
     push_header ok OPENLI_PROTO_DISCONNECT_MEDIATORS 0 0"

definition LIIDMAP_BODY_LEN :: "cstr option \<Rightarrow> cstr option \<Rightarrow> int option" where
  "LIIDMAP_BODY_LEN agency liid = do {
     a \<leftarrow> strlen_p agency; l \<leftarrow> strlen_p liid; Some (a + l + 2 * 4) }"

definition push_liid_mapping_onto_net_buffer ::
  "allocator \<Rightarrow> cstr option \<Rightarrow> cstr option \<Rightarrow> push" where
  "push_liid_mapping_onto_net_buffer ok agency liid =
     with_len (LIIDMAP_BODY_LEN agency liid) (\<lambda>len.
       let totallen = u16_of len in
       run_pushes
         [push_header ok OPENLI_PROTO_MEDIATE_INTERCEPT totallen 0,
          push_str ok OPENLI_PROTO_FIELD_LEAID agency,
          push_str ok OPENLI_PROTO_FIELD_LIID liid]
         (int totallen))"

definition push_cease_mediation_onto_net_buffer ::
  "allocator \<Rightarrow> cstr option \<Rightarrow> int \<Rightarrow> push" where
  "push_cease_mediation_onto_net_buffer ok liid liid_len =
     (let totallen = u16_of (liid_len + 4) in
      run_pushes
        [push_header ok OPENLI_PROTO_CEASE_MEDIATION totallen 0,
         push_strn ok OPENLI_PROTO_FIELD_LIID liid liid_len]
        (int totallen))"

definition LEA_BODY_LEN :: "liagency \<Rightarrow> int option" where
  "LEA_BODY_LEN lea = do {
     a \<leftarrow> strlen_p (lea_agencyid lea); i2 \<leftarrow> strlen_p (lea_hi2_ipstr lea);
     p2 \<leftarrow> strlen_p (lea_hi2_portstr lea); i3 \<leftarrow> strlen_p (lea_hi3_ipstr lea);
     p3 \<leftarrow> strlen_p (lea_hi3_portstr lea);
     Some (a + i2 + p2 + i3 + p3 + 4 + 4 + 7 * 4) }"

definition LEA_WITHDRAW_BODY_LEN :: "liagency \<Rightarrow> int option" where
  "LEA_WITHDRAW_BODY_LEN lea = do { a \<leftarrow> strlen_p (lea_agencyid lea); Some (a + 1 * 4) }"

definition push_lea_onto_net_buffer :: "allocator \<Rightarrow> liagency \<Rightarrow> push" where
  "push_lea_onto_net_buffer ok lea =
     with_len (LEA_BODY_LEN lea) (\<lambda>len.
       let totallen = u16_of len in
       run_pushes
         [push_header ok OPENLI_PROTO_ANNOUNCE_LEA totallen 0,
          push_str ok OPENLI_PROTO_FIELD_LEAID (lea_agencyid lea),
          push_str ok OPENLI_PROTO_FIELD_HI2IP (lea_hi2_ipstr lea),
          push_str ok OPENLI_PROTO_FIELD_HI2PORT (lea_hi2_portstr lea),
          push_str ok OPENLI_PROTO_FIELD_HI3IP (lea_hi3_ipstr lea),
          push_str ok OPENLI_PROTO_FIELD_HI3PORT (lea_hi3_portstr lea),
          push_u32 ok OPENLI_PROTO_FIELD_KAFREQ (lea_keepalivefreq lea),
          push_u32 ok OPENLI_PROTO_FIELD_KAWAIT (lea_keepalivewait lea)]
         (int totallen))"

definition push_lea_withdrawal_onto_net_buffer :: "allocator \<Rightarrow> liagency \<Rightarrow> push" where
  "push_lea_withdrawal_onto_net_buffer ok lea =
     with_len (LEA_WITHDRAW_BODY_LEN lea) (\<lambda>len.
       let totallen = u16_of len in
       run_pushes
         [push_header ok OPENLI_PROTO_WITHDRAW_LEA totallen 0,
          push_str ok OPENLI_PROTO_FIELD_LEAID (lea_agencyid lea)]
         (int totallen))"

subsection \<open>The fields every intercept has\<close>

definition INTERCEPT_COMMON_LEN :: "intercept_common \<Rightarrow> int option" where
  "INTERCEPT_COMMON_LEN c = do {
     ta \<leftarrow> strlen_p (ic_targetagency c);
     Some (ic_liid_len c + ic_authcc_len c + 8 + 8 + 4 + ta + 4 + 4 + ic_delivcc_len c +
           (case ic_encryptkey c of None \<Rightarrow> 0 | Some k \<Rightarrow> int (strlen k) + 4) + 9 * 4) }"

text \<open>
  \<^verbatim>\<open>_push_intercept_common_fields\<close> has no \<^verbatim>\<open>return\<close> after its last push, so a call that does not
  fail returns an unspecified value: the argument \<^term>\<open>junk :: int\<close>. Its callers compare the
  value with -1.
\<close>

definition push_intercept_common_fields :: "allocator \<Rightarrow> int \<Rightarrow> intercept_common \<Rightarrow> push" where
  "push_intercept_common_fields ok junk c =
     run_pushes
       ([push_str ok OPENLI_PROTO_FIELD_LIID (ic_liid c),
         push_str ok OPENLI_PROTO_FIELD_AUTHCC (ic_authcc c),
         push_str ok OPENLI_PROTO_FIELD_DELIVCC (ic_delivcc c),
         push_str ok OPENLI_PROTO_FIELD_LEAID (ic_targetagency c),
         push_u64 ok OPENLI_PROTO_FIELD_INTERCEPT_START_TIME (ic_tostart_time c),
         push_u64 ok OPENLI_PROTO_FIELD_INTERCEPT_END_TIME (ic_toend_time c),
         push_u32 ok OPENLI_PROTO_FIELD_MEDIATORID (ic_destid c),
         push_u32 ok OPENLI_PROTO_FIELD_TOMEDIATE (ic_tomediate c),
         push_u32 ok OPENLI_PROTO_FIELD_PAYLOAD_ENCRYPTION (ic_encrypt c)] @
        (if ic_encryptkey c \<noteq> None
         then [push_str ok OPENLI_PROTO_FIELD_ENCRYPTION_KEY (ic_encryptkey c)] else []))
       junk"

subsection \<open>Modifying an intercept\<close>

definition VENDMIRROR_IPINTERCEPT_MODIFY_BODY_LEN :: "ipintercept \<Rightarrow> int option" where
  "VENDMIRROR_IPINTERCEPT_MODIFY_BODY_LEN ip = do {
     c \<leftarrow> INTERCEPT_COMMON_LEN (ipi_common ip);
     Some (c + ipi_username_len ip + 4 + 4 + 4 + 4 * 4) }"

definition IPINTERCEPT_MODIFY_BODY_LEN :: "ipintercept \<Rightarrow> int option" where
  "IPINTERCEPT_MODIFY_BODY_LEN ip = do {
     c \<leftarrow> INTERCEPT_COMMON_LEN (ipi_common ip);
     Some (c + ipi_username_len ip + 4 + 4 + 3 * 4) }"

text \<open>The fields after the common ones, the same in an announcement and a modification.\<close>

definition push_ipintercept_fields :: "allocator \<Rightarrow> ipintercept \<Rightarrow> push list" where
  "push_ipintercept_fields ok ip =
     [push_strn ok OPENLI_PROTO_FIELD_USERNAME (ipi_username ip) (ipi_username_len ip),
      push_u32 ok OPENLI_PROTO_FIELD_ACCESSTYPE (ipi_accesstype ip),
      push_u32 ok OPENLI_PROTO_FIELD_INTOPTIONS (ipi_options ip)] @
     (if ipi_vendmirrorid ip \<noteq> OPENLI_VENDOR_MIRROR_NONE
      then [push_u32 ok OPENLI_PROTO_FIELD_VENDMIRRORID (ipi_vendmirrorid ip)] else [])"

definition push_ipintercept_modify :: "allocator \<Rightarrow> int \<Rightarrow> ipintercept \<Rightarrow> push" where
  "push_ipintercept_modify ok junk ip =
     with_len (if ipi_vendmirrorid ip \<noteq> OPENLI_VENDOR_MIRROR_NONE
               then VENDMIRROR_IPINTERCEPT_MODIFY_BODY_LEN ip
               else IPINTERCEPT_MODIFY_BODY_LEN ip) (\<lambda>len.
       let totallen = u16_of len in
       if totallen > 65535 then push_fail
       else run_pushes
         (push_header ok OPENLI_PROTO_MODIFY_IPINTERCEPT totallen 0 #
          push_intercept_common_fields ok junk (ipi_common ip) #
          push_ipintercept_fields ok ip)
         (int totallen))"

definition EMAILINTERCEPT_MODIFY_BODY_LEN :: "emailintercept \<Rightarrow> int option" where
  "EMAILINTERCEPT_MODIFY_BODY_LEN em = do {
     c \<leftarrow> INTERCEPT_COMMON_LEN (em_common em); Some (c + 1 + 1 * 4) }"

definition push_emailintercept_modify :: "allocator \<Rightarrow> int \<Rightarrow> emailintercept \<Rightarrow> push" where
  "push_emailintercept_modify ok junk em =
     with_len (EMAILINTERCEPT_MODIFY_BODY_LEN em) (\<lambda>len.
       let totallen = u16_of len in
       if totallen > 65535 then push_fail
       else run_pushes
         [push_header ok OPENLI_PROTO_MODIFY_EMAILINTERCEPT totallen 0,
          push_intercept_common_fields ok junk (em_common em),
          push_u8 ok OPENLI_PROTO_FIELD_DELIVER_COMPRESSED (em_delivercompressed em)]
         (int totallen))"

definition VOIPINTERCEPT_MODIFY_BODY_LEN :: "voipintercept \<Rightarrow> int option" where
  "VOIPINTERCEPT_MODIFY_BODY_LEN vint = do {
     c \<leftarrow> INTERCEPT_COMMON_LEN (vint_common vint); Some (c + 4 + 1 * 4) }"

definition push_voipintercept_modify :: "allocator \<Rightarrow> int \<Rightarrow> voipintercept \<Rightarrow> push" where
  "push_voipintercept_modify ok junk vint =
     with_len (VOIPINTERCEPT_MODIFY_BODY_LEN vint) (\<lambda>len.
       let totallen = u16_of len in
       if totallen > 65535 then push_fail
       else run_pushes
         [push_header ok OPENLI_PROTO_MODIFY_VOIPINTERCEPT totallen 0,
          push_intercept_common_fields ok junk (vint_common vint),
          push_u32 ok OPENLI_PROTO_FIELD_INTOPTIONS (vint_options vint)]
         (int totallen))"

text \<open>The \<^verbatim>\<open>void *\<close> argument of the modify and withdraw functions. Passing a struct of another
  kind than the message type says is undefined.\<close>

datatype intercept_data =
  IP_data ipintercept | VOIP_data voipintercept | Email_data emailintercept

definition push_intercept_modify_onto_net_buffer ::
  "allocator \<Rightarrow> int \<Rightarrow> intercept_data \<Rightarrow> openli_proto_msgtype \<Rightarrow> push" where
  "push_intercept_modify_onto_net_buffer ok junk data modtype nb =
     (if modtype = OPENLI_PROTO_MODIFY_VOIPINTERCEPT
      then (case data of VOIP_data v \<Rightarrow> push_voipintercept_modify ok junk v nb | _ \<Rightarrow> None)
      else if modtype = OPENLI_PROTO_MODIFY_IPINTERCEPT
      then (case data of IP_data i \<Rightarrow> push_ipintercept_modify ok junk i nb | _ \<Rightarrow> None)
      else if modtype = OPENLI_PROTO_MODIFY_EMAILINTERCEPT
      then (case data of Email_data e \<Rightarrow> push_emailintercept_modify ok junk e nb | _ \<Rightarrow> None)
      else push_fail nb)"

subsection \<open>Announcing and withdrawing intercepts\<close>

definition EMAILINTERCEPT_BODY_LEN :: "emailintercept \<Rightarrow> int option" where
  "EMAILINTERCEPT_BODY_LEN em = do {
     c \<leftarrow> INTERCEPT_COMMON_LEN (em_common em); Some (c + 1 + 1 * 4) }"

definition push_emailintercept_onto_net_buffer :: "allocator \<Rightarrow> int \<Rightarrow> emailintercept \<Rightarrow> push" where
  "push_emailintercept_onto_net_buffer ok junk em =
     with_len (EMAILINTERCEPT_BODY_LEN em) (\<lambda>len.
       let totallen = u16_of len in
       if totallen > 65535 then push_fail
       else run_pushes
         [push_header ok OPENLI_PROTO_START_EMAILINTERCEPT totallen 0,
          push_intercept_common_fields ok junk (em_common em),
          push_u8 ok OPENLI_PROTO_FIELD_DELIVER_COMPRESSED (em_delivercompressed em)]
         (int totallen))"

definition INTERCEPT_WITHDRAW_BODY_LEN :: "cstr option \<Rightarrow> cstr option \<Rightarrow> int option" where
  "INTERCEPT_WITHDRAW_BODY_LEN liid authcc = do {
     l \<leftarrow> strlen_p liid; a \<leftarrow> strlen_p authcc; Some (l + a + 2 * 4) }"

text \<open>The \<^verbatim>\<open>liid\<close> and \<^verbatim>\<open>authcc\<close> that the withdrawal takes from its argument: undefined when the
  struct is of another kind; the withdrawal types are checked by the caller.\<close>

definition withdrawal_common ::
  "intercept_data \<Rightarrow> openli_proto_msgtype \<Rightarrow> intercept_common option" where
  "withdrawal_common data wdtype =
     (case data of
        VOIP_data v \<Rightarrow>
          if wdtype = OPENLI_PROTO_HALT_VOIPINTERCEPT then Some (vint_common v) else None
      | Email_data e \<Rightarrow>
          if wdtype = OPENLI_PROTO_HALT_EMAILINTERCEPT then Some (em_common e) else None
      | IP_data i \<Rightarrow>
          if wdtype = OPENLI_PROTO_HALT_IPINTERCEPT then Some (ipi_common i) else None)"

definition push_intercept_withdrawal_onto_net_buffer ::
  "allocator \<Rightarrow> intercept_data \<Rightarrow> openli_proto_msgtype \<Rightarrow> push" where
  "push_intercept_withdrawal_onto_net_buffer ok data wdtype nb =
     (if wdtype \<notin> {OPENLI_PROTO_HALT_VOIPINTERCEPT, OPENLI_PROTO_HALT_EMAILINTERCEPT,
                   OPENLI_PROTO_HALT_IPINTERCEPT}
      then push_fail nb
      else case withdrawal_common data wdtype of
        None \<Rightarrow> None
      | Some c \<Rightarrow>
          with_len (INTERCEPT_WITHDRAW_BODY_LEN (ic_liid c) (ic_authcc c)) (\<lambda>len.
            let totallen = u16_of len in
            if totallen > 65535 then push_fail
            else run_pushes
              [push_header ok wdtype totallen 0,
               push_str ok OPENLI_PROTO_FIELD_LIID (ic_liid c),
               push_str ok OPENLI_PROTO_FIELD_AUTHCC (ic_authcc c)]
              (int totallen)) nb)"

definition VOIPINTERCEPT_BODY_LEN :: "voipintercept \<Rightarrow> int option" where
  "VOIPINTERCEPT_BODY_LEN vint = do {
     c \<leftarrow> INTERCEPT_COMMON_LEN (vint_common vint); Some (c + 4 + 1 * 4) }"

definition push_voipintercept_onto_net_buffer :: "allocator \<Rightarrow> int \<Rightarrow> voipintercept \<Rightarrow> push" where
  "push_voipintercept_onto_net_buffer ok junk vint =
     with_len (VOIPINTERCEPT_BODY_LEN vint) (\<lambda>len.
       if c_size len > 65535 then push_fail
       else let totallen = u16_of len in
         run_pushes
           [push_header ok OPENLI_PROTO_START_VOIPINTERCEPT totallen 0,
            push_intercept_common_fields ok junk (vint_common vint),
            push_u32 ok OPENLI_PROTO_FIELD_INTOPTIONS (vint_options vint)]
           (int totallen))"

subsection \<open>Targets of an intercept\<close>

definition SIPTARGET_BODY_LEN_NOREALM :: "sip_identity \<Rightarrow> voipintercept \<Rightarrow> int" where
  "SIPTARGET_BODY_LEN_NOREALM sipid vint =
     ic_liid_len (vint_common vint) + sip_username_len sipid + 2 * 4"

definition SIPTARGET_BODY_LEN :: "sip_identity \<Rightarrow> voipintercept \<Rightarrow> int" where
  "SIPTARGET_BODY_LEN sipid vint =
     ic_liid_len (vint_common vint) + sip_username_len sipid + sip_realm_len sipid + 3 * 4"

definition push_sip_target_onto_net_buffer_generic ::
  "allocator \<Rightarrow> sip_identity \<Rightarrow> voipintercept \<Rightarrow> openli_proto_msgtype \<Rightarrow> push" where
  "push_sip_target_onto_net_buffer_generic ok sipid vint msgtype =
     (if msgtype \<noteq> OPENLI_PROTO_ANNOUNCE_SIP_TARGET \<and> msgtype \<noteq> OPENLI_PROTO_WITHDRAW_SIP_TARGET
      then push_fail
      else let totallen = u16_of (if sip_realm sipid \<noteq> None then SIPTARGET_BODY_LEN sipid vint
                                  else SIPTARGET_BODY_LEN_NOREALM sipid vint) in
        if totallen > 65535 then push_fail
        else run_pushes
          ([push_header ok msgtype totallen 0,
            push_strn ok OPENLI_PROTO_FIELD_LIID (ic_liid (vint_common vint))
              (ic_liid_len (vint_common vint)),
            push_strn ok OPENLI_PROTO_FIELD_SIP_USER (sip_username sipid)
              (sip_username_len sipid)] @
           (if sip_realm sipid \<noteq> None
            then [push_strn ok OPENLI_PROTO_FIELD_SIP_REALM (sip_realm sipid)
                    (sip_realm_len sipid)] else []))
          (int totallen))"

definition push_sip_target_onto_net_buffer ::
  "allocator \<Rightarrow> sip_identity \<Rightarrow> voipintercept \<Rightarrow> push" where
  "push_sip_target_onto_net_buffer ok sipid vint =
     push_sip_target_onto_net_buffer_generic ok sipid vint OPENLI_PROTO_ANNOUNCE_SIP_TARGET"

definition push_sip_target_withdrawal_onto_net_buffer ::
  "allocator \<Rightarrow> sip_identity \<Rightarrow> voipintercept \<Rightarrow> push" where
  "push_sip_target_withdrawal_onto_net_buffer ok sipid vint =
     push_sip_target_onto_net_buffer_generic ok sipid vint OPENLI_PROTO_WITHDRAW_SIP_TARGET"

definition EMAILTARGET_BODY_LEN :: "email_target \<Rightarrow> emailintercept \<Rightarrow> int option" where
  "EMAILTARGET_BODY_LEN tgt em = do {
     a \<leftarrow> strlen_p (et_address tgt); Some (ic_liid_len (em_common em) + a + 2 * 4) }"

definition push_email_target_onto_net_buffer_generic ::
  "allocator \<Rightarrow> email_target \<Rightarrow> emailintercept \<Rightarrow> openli_proto_msgtype \<Rightarrow> push" where
  "push_email_target_onto_net_buffer_generic ok tgt em msgtype =
     (if msgtype \<noteq> OPENLI_PROTO_ANNOUNCE_EMAIL_TARGET \<and>
         msgtype \<noteq> OPENLI_PROTO_WITHDRAW_EMAIL_TARGET
      then push_fail
      else with_len (EMAILTARGET_BODY_LEN tgt em) (\<lambda>len.
        let totallen = u16_of len in
        if totallen > 65535 then push_fail
        else run_pushes
          [push_header ok msgtype totallen 0,
           push_strn ok OPENLI_PROTO_FIELD_LIID (ic_liid (em_common em))
             (ic_liid_len (em_common em)),
           push_str ok OPENLI_PROTO_FIELD_EMAIL_TARGET (et_address tgt)]
          (int totallen)))"

definition push_email_target_onto_net_buffer ::
  "allocator \<Rightarrow> email_target \<Rightarrow> emailintercept \<Rightarrow> push" where
  "push_email_target_onto_net_buffer ok tgt em =
     push_email_target_onto_net_buffer_generic ok tgt em OPENLI_PROTO_ANNOUNCE_EMAIL_TARGET"

definition push_email_target_withdrawal_onto_net_buffer ::
  "allocator \<Rightarrow> email_target \<Rightarrow> emailintercept \<Rightarrow> push" where
  "push_email_target_withdrawal_onto_net_buffer ok tgt em =
     push_email_target_onto_net_buffer_generic ok tgt em OPENLI_PROTO_WITHDRAW_EMAIL_TARGET"

definition STATICIP_RANGE_BODY_LEN :: "ipintercept \<Rightarrow> static_ipranges \<Rightarrow> int option" where
  "STATICIP_RANGE_BODY_LEN ip ipr = do {
     r \<leftarrow> strlen_p (ipr_rangestr ipr); Some (r + 4 + ic_liid_len (ipi_common ip) + 3 * 4) }"

definition push_static_ipranges_generic ::
  "allocator \<Rightarrow> ipintercept \<Rightarrow> static_ipranges option \<Rightarrow> openli_proto_msgtype \<Rightarrow> push" where
  "push_static_ipranges_generic ok ip ipro msgtype nb =
     (case ipro of
        None \<Rightarrow> Some (0, nb)
      | Some ipr \<Rightarrow>
          with_len (STATICIP_RANGE_BODY_LEN ip ipr) (\<lambda>len.
            let totallen = c_int len in
            if totallen > 65535 then push_fail
            else run_pushes
              [push_header ok msgtype (u16_of totallen) 0,
               push_str ok OPENLI_PROTO_FIELD_STATICIP_RANGE (ipr_rangestr ipr),
               push_strn ok OPENLI_PROTO_FIELD_LIID (ic_liid (ipi_common ip))
                 (ic_liid_len (ipi_common ip)),
               push_u32 ok OPENLI_PROTO_FIELD_CIN (ipr_cin ipr)]
              0) nb)"

definition push_static_ipranges_removal_onto_net_buffer ::
  "allocator \<Rightarrow> ipintercept \<Rightarrow> static_ipranges option \<Rightarrow> push" where
  "push_static_ipranges_removal_onto_net_buffer ok ip ipr =
     push_static_ipranges_generic ok ip ipr OPENLI_PROTO_REMOVE_STATICIPS"

definition push_static_ipranges_modify_onto_net_buffer ::
  "allocator \<Rightarrow> ipintercept \<Rightarrow> static_ipranges option \<Rightarrow> push" where
  "push_static_ipranges_modify_onto_net_buffer ok ip ipr =
     push_static_ipranges_generic ok ip ipr OPENLI_PROTO_MODIFY_STATICIPS"

definition push_static_ipranges_onto_net_buffer ::
  "allocator \<Rightarrow> ipintercept \<Rightarrow> static_ipranges option \<Rightarrow> push" where
  "push_static_ipranges_onto_net_buffer ok ip ipr =
     push_static_ipranges_generic ok ip ipr OPENLI_PROTO_ADD_STATICIPS"

definition IPINTERCEPT_BODY_LEN :: "ipintercept \<Rightarrow> int option" where
  "IPINTERCEPT_BODY_LEN ip = do {
     c \<leftarrow> INTERCEPT_COMMON_LEN (ipi_common ip);
     Some (c + ipi_username_len ip + 4 + 4 + 3 * 4) }"

definition VENDMIRROR_IPINTERCEPT_BODY_LEN :: "ipintercept \<Rightarrow> int option" where
  "VENDMIRROR_IPINTERCEPT_BODY_LEN ip = do {
     c \<leftarrow> INTERCEPT_COMMON_LEN (ipi_common ip);
     Some (c + ipi_username_len ip + 4 + 4 + 4 + 4 * 4) }"

definition push_ipintercept_onto_net_buffer :: "allocator \<Rightarrow> int \<Rightarrow> ipintercept \<Rightarrow> push" where
  "push_ipintercept_onto_net_buffer ok junk ip =
     with_len (if ipi_vendmirrorid ip \<noteq> OPENLI_VENDOR_MIRROR_NONE
               then VENDMIRROR_IPINTERCEPT_BODY_LEN ip
               else IPINTERCEPT_BODY_LEN ip) (\<lambda>len.
       let totallen = c_int len in
       if totallen > 65535 then push_fail
       else run_pushes
         (push_header ok OPENLI_PROTO_START_IPINTERCEPT (u16_of totallen) 0 #
          push_intercept_common_fields ok junk (ipi_common ip) #
          push_ipintercept_fields ok ip @
          map (\<lambda>ipr. push_static_ipranges_onto_net_buffer ok ip (Some ipr)) (ipi_statics ip))
         totallen)"

subsection \<open>Mediators, HI1 notifications, defaults and core servers\<close>

definition MEDIATOR_BODY_LEN :: "openli_mediator \<Rightarrow> int option" where
  "MEDIATOR_BODY_LEN med = do {
     i \<leftarrow> strlen_p (med_ipstr med); p \<leftarrow> strlen_p (med_portstr med);
     Some (4 + i + p + 3 * 4) }"

definition push_mediator_msg_onto_net_buffer ::
  "allocator \<Rightarrow> openli_mediator \<Rightarrow> openli_proto_msgtype \<Rightarrow> push" where
  "push_mediator_msg_onto_net_buffer ok med type =
     with_len (MEDIATOR_BODY_LEN med) (\<lambda>len.
       if c_size len > 65535 then push_fail
       else let totallen = u16_of len in
         run_pushes
           [push_header ok type totallen 0,
            push_u32 ok OPENLI_PROTO_FIELD_MEDIATORID (med_mediatorid med),
            push_str ok OPENLI_PROTO_FIELD_MEDIATORIP (med_ipstr med),
            push_str ok OPENLI_PROTO_FIELD_MEDIATORPORT (med_portstr med)]
           (int totallen))"

definition push_mediator_onto_net_buffer :: "allocator \<Rightarrow> openli_mediator \<Rightarrow> push" where
  "push_mediator_onto_net_buffer ok med =
     push_mediator_msg_onto_net_buffer ok med OPENLI_PROTO_ANNOUNCE_MEDIATOR"

definition push_mediator_withdraw_onto_net_buffer :: "allocator \<Rightarrow> openli_mediator \<Rightarrow> push" where
  "push_mediator_withdraw_onto_net_buffer ok med =
     push_mediator_msg_onto_net_buffer ok med OPENLI_PROTO_WITHDRAW_MEDIATOR"

definition HI1_NOTIFY_BODY_LEN :: "hi1_notify_data \<Rightarrow> int \<Rightarrow> int \<Rightarrow> int option" where
  "HI1_NOTIFY_BODY_LEN nd target_info_len field_count = do {
     l \<leftarrow> strlen_p (hi1_liid nd); a \<leftarrow> strlen_p (hi1_authcc nd);
     d \<leftarrow> strlen_p (hi1_delivcc nd); g \<leftarrow> strlen_p (hi1_agencyid nd);
     Some (4 + 4 + 8 + 4 + l + a + d + g + target_info_len + field_count * 4) }"

definition push_hi1_notification_onto_net_buffer :: "allocator \<Rightarrow> hi1_notify_data \<Rightarrow> push" where
  "push_hi1_notification_onto_net_buffer ok nd =
     (let (field_count, target_info_len) =
        (case hi1_target_info nd of None \<Rightarrow> (8, 0) | Some t \<Rightarrow> (9, int (strlen t))) in
      with_len (HI1_NOTIFY_BODY_LEN nd target_info_len field_count) (\<lambda>len.
        if c_size len > 65535 then push_fail
        else let totallen = u16_of len in
          run_pushes
            ([push_header ok OPENLI_PROTO_HI1_NOTIFICATION totallen 0,
              push_u32 ok OPENLI_PROTO_FIELD_HI1_NOTIFY_TYPE (hi1_notify_type nd),
              push_str ok OPENLI_PROTO_FIELD_LIID (hi1_liid nd),
              push_str ok OPENLI_PROTO_FIELD_AUTHCC (hi1_authcc nd),
              push_str ok OPENLI_PROTO_FIELD_DELIVCC (hi1_delivcc nd),
              push_str ok OPENLI_PROTO_FIELD_LEAID (hi1_agencyid nd),
              push_u32 ok OPENLI_PROTO_FIELD_SEQNO (hi1_seqno nd),
              push_u64 ok OPENLI_PROTO_FIELD_TS_SEC (hi1_ts_sec nd),
              push_u32 ok OPENLI_PROTO_FIELD_TS_USEC (hi1_ts_usec nd)] @
             (if hi1_target_info nd \<noteq> None
              then [push_strn ok OPENLI_PROTO_FIELD_USERNAME (hi1_target_info nd) target_info_len]
              else []))
            (int totallen)))"

definition DEF_RADIUS_BODY_LEN :: "default_radius_user \<Rightarrow> int" where
  "DEF_RADIUS_BODY_LEN def = dru_namelen def + 1 * 4"

definition push_default_radius_msg_onto_net_buffer ::
  "allocator \<Rightarrow> default_radius_user \<Rightarrow> openli_proto_msgtype \<Rightarrow> push" where
  "push_default_radius_msg_onto_net_buffer ok defrad type =
     (if DEF_RADIUS_BODY_LEN defrad > 65535 then push_fail
      else let totallen = u16_of (DEF_RADIUS_BODY_LEN defrad) in
        run_pushes
          [push_header ok type totallen 0,
           push_strn ok OPENLI_PROTO_FIELD_USERNAME (dru_name defrad) (dru_namelen defrad)]
          (int totallen))"

definition push_default_radius_onto_net_buffer :: "allocator \<Rightarrow> default_radius_user \<Rightarrow> push" where
  "push_default_radius_onto_net_buffer ok defrad =
     push_default_radius_msg_onto_net_buffer ok defrad OPENLI_PROTO_ANNOUNCE_DEFAULT_RADIUS"

definition push_default_radius_withdraw_onto_net_buffer ::
  "allocator \<Rightarrow> default_radius_user \<Rightarrow> push" where
  "push_default_radius_withdraw_onto_net_buffer ok defrad =
     push_default_radius_msg_onto_net_buffer ok defrad OPENLI_PROTO_WITHDRAW_DEFAULT_RADIUS"

definition push_default_email_compression_onto_net_buffer :: "allocator \<Rightarrow> u8 \<Rightarrow> push" where
  "push_default_email_compression_onto_net_buffer ok defaultcompress =
     (let totallen = u16_of (1 + 1 * 4) in
      run_pushes
        [push_header ok OPENLI_PROTO_ANNOUNCE_DEFAULT_EMAIL_COMPRESSION totallen 0,
         push_u8 ok OPENLI_PROTO_FIELD_DELIVER_COMPRESSED defaultcompress]
        (int totallen))"

definition CORESERVER_BODY_LEN :: "coreserver \<Rightarrow> int option" where
  "CORESERVER_BODY_LEN cs = do {
     i \<leftarrow> strlen_p (cs_ipstr cs);
     Some (1 + i + (case cs_portstr cs of Some p \<Rightarrow> int (strlen p) + 3 * 4 | None \<Rightarrow> 2 * 4)) }"

definition push_coreserver_msg_onto_net_buffer ::
  "allocator \<Rightarrow> coreserver \<Rightarrow> u8 \<Rightarrow> openli_proto_msgtype \<Rightarrow> push" where
  "push_coreserver_msg_onto_net_buffer ok cs cstype type =
     with_len (CORESERVER_BODY_LEN cs) (\<lambda>len.
       let totallen = u16_of len in
       if totallen > 65535 then push_fail
       else run_pushes
         ([push_header ok type totallen 0,
           push_u8 ok OPENLI_PROTO_FIELD_CORESERVER_TYPE cstype,
           push_str ok OPENLI_PROTO_FIELD_CORESERVER_IP (cs_ipstr cs)] @
          (if cs_portstr cs \<noteq> None
           then [push_str ok OPENLI_PROTO_FIELD_CORESERVER_PORT (cs_portstr cs)] else []))
         (int totallen))"

definition push_coreserver_onto_net_buffer :: "allocator \<Rightarrow> coreserver \<Rightarrow> u8 \<Rightarrow> push" where
  "push_coreserver_onto_net_buffer ok cs cstype =
     push_coreserver_msg_onto_net_buffer ok cs cstype OPENLI_PROTO_ANNOUNCE_CORESERVER"

definition push_coreserver_withdraw_onto_net_buffer :: "allocator \<Rightarrow> coreserver \<Rightarrow> u8 \<Rightarrow> push" where
  "push_coreserver_withdraw_onto_net_buffer ok cs cstype =
     push_coreserver_msg_onto_net_buffer ok cs cstype OPENLI_PROTO_WITHDRAW_CORESERVER"

definition push_nomore_intercepts :: "allocator \<Rightarrow> push" where
  "push_nomore_intercepts ok = push_header ok OPENLI_PROTO_NOMORE_INTERCEPTS 0 0"

definition push_ssl_required :: "allocator \<Rightarrow> push" where
  "push_ssl_required ok = push_header ok OPENLI_PROTO_SSL_REQUIRED 0 0"

subsection \<open>Fields\<close>

type_synonym field = "nat \<times> bytes"

definition field_bytes :: "field \<Rightarrow> bytes" where
  "field_bytes f = tlv_bytes (fst f) (snd f)"

definition fields_bytes :: "field list \<Rightarrow> bytes" where
  "fields_bytes fs = concat (map field_bytes fs)"

text \<open>The field of a string and of an integer.\<close>

definition sfield :: "openli_proto_fieldtype \<Rightarrow> cstr option \<Rightarrow> field" where
  "sfield t s = (fieldtype_code t, case s of None \<Rightarrow> [] | Some b \<Rightarrow> b)"

definition wfield :: "openli_proto_fieldtype \<Rightarrow> bytes \<Rightarrow> field" where
  "wfield t v = (fieldtype_code t, v)"

text \<open>Strings a field can hold.\<close>

definition sendable :: "cstr option \<Rightarrow> bool" where
  "sendable s \<longleftrightarrow> (case s of None \<Rightarrow> False | Some b \<Rightarrow> no_nul b \<and> length b \<le> 4092)"

definition opt_sendable :: "cstr option \<Rightarrow> bool" where
  "opt_sendable s \<longleftrightarrow> s = None \<or> sendable s"

text \<open>A push that succeeds and emits the given bytes.\<close>

definition pushes :: "allocator \<Rightarrow> push \<Rightarrow> bytes \<Rightarrow> bool" where
  "pushes ok p bs \<longleftrightarrow> (\<exists>r. r \<noteq> -1 \<and> emits ok p r bs)"

text \<open>The fields of each message, in the order they are pushed.\<close>

definition liid_mapping_fields :: "cstr option \<Rightarrow> cstr option \<Rightarrow> field list" where
  "liid_mapping_fields agency liid =
     [sfield OPENLI_PROTO_FIELD_LEAID agency, sfield OPENLI_PROTO_FIELD_LIID liid]"

definition cease_fields :: "cstr option \<Rightarrow> field list" where
  "cease_fields liid = [sfield OPENLI_PROTO_FIELD_LIID liid]"

definition lea_fields :: "liagency \<Rightarrow> field list" where
  "lea_fields lea =
     [sfield OPENLI_PROTO_FIELD_LEAID (lea_agencyid lea),
      sfield OPENLI_PROTO_FIELD_HI2IP (lea_hi2_ipstr lea),
      sfield OPENLI_PROTO_FIELD_HI2PORT (lea_hi2_portstr lea),
      sfield OPENLI_PROTO_FIELD_HI3IP (lea_hi3_ipstr lea),
      sfield OPENLI_PROTO_FIELD_HI3PORT (lea_hi3_portstr lea),
      wfield OPENLI_PROTO_FIELD_KAFREQ (host32 (lea_keepalivefreq lea)),
      wfield OPENLI_PROTO_FIELD_KAWAIT (host32 (lea_keepalivewait lea))]"

definition common_fields :: "intercept_common \<Rightarrow> field list" where
  "common_fields c =
     [sfield OPENLI_PROTO_FIELD_LIID (ic_liid c),
      sfield OPENLI_PROTO_FIELD_AUTHCC (ic_authcc c),
      sfield OPENLI_PROTO_FIELD_DELIVCC (ic_delivcc c),
      sfield OPENLI_PROTO_FIELD_LEAID (ic_targetagency c),
      wfield OPENLI_PROTO_FIELD_INTERCEPT_START_TIME (host64 (ic_tostart_time c)),
      wfield OPENLI_PROTO_FIELD_INTERCEPT_END_TIME (host64 (ic_toend_time c)),
      wfield OPENLI_PROTO_FIELD_MEDIATORID (host32 (ic_destid c)),
      wfield OPENLI_PROTO_FIELD_TOMEDIATE (host32 (ic_tomediate c)),
      wfield OPENLI_PROTO_FIELD_PAYLOAD_ENCRYPTION (host32 (ic_encrypt c))] @
     (if ic_encryptkey c \<noteq> None
      then [sfield OPENLI_PROTO_FIELD_ENCRYPTION_KEY (ic_encryptkey c)] else [])"

definition ip_fields :: "ipintercept \<Rightarrow> field list" where
  "ip_fields ip =
     [sfield OPENLI_PROTO_FIELD_USERNAME (ipi_username ip),
      wfield OPENLI_PROTO_FIELD_ACCESSTYPE (host32 (ipi_accesstype ip)),
      wfield OPENLI_PROTO_FIELD_INTOPTIONS (host32 (ipi_options ip))] @
     (if ipi_vendmirrorid ip \<noteq> OPENLI_VENDOR_MIRROR_NONE
      then [wfield OPENLI_PROTO_FIELD_VENDMIRRORID (host32 (ipi_vendmirrorid ip))] else [])"

definition ipintercept_fields :: "ipintercept \<Rightarrow> field list" where
  "ipintercept_fields ip = common_fields (ipi_common ip) @ ip_fields ip"

definition emailintercept_fields :: "emailintercept \<Rightarrow> field list" where
  "emailintercept_fields em =
     common_fields (em_common em) @
     [wfield OPENLI_PROTO_FIELD_DELIVER_COMPRESSED [em_delivercompressed em]]"

definition voipintercept_fields :: "voipintercept \<Rightarrow> field list" where
  "voipintercept_fields vint =
     common_fields (vint_common vint) @
     [wfield OPENLI_PROTO_FIELD_INTOPTIONS (host32 (vint_options vint))]"

definition withdrawal_fields :: "intercept_common \<Rightarrow> field list" where
  "withdrawal_fields c =
     [sfield OPENLI_PROTO_FIELD_LIID (ic_liid c), sfield OPENLI_PROTO_FIELD_AUTHCC (ic_authcc c)]"

definition sip_target_fields :: "sip_identity \<Rightarrow> intercept_common \<Rightarrow> field list" where
  "sip_target_fields sipid c =
     [sfield OPENLI_PROTO_FIELD_LIID (ic_liid c),
      sfield OPENLI_PROTO_FIELD_SIP_USER (sip_username sipid)] @
     (if sip_realm sipid \<noteq> None
      then [sfield OPENLI_PROTO_FIELD_SIP_REALM (sip_realm sipid)] else [])"

definition email_target_fields :: "email_target \<Rightarrow> intercept_common \<Rightarrow> field list" where
  "email_target_fields tgt c =
     [sfield OPENLI_PROTO_FIELD_LIID (ic_liid c),
      sfield OPENLI_PROTO_FIELD_EMAIL_TARGET (et_address tgt)]"

definition staticip_fields :: "static_ipranges \<Rightarrow> intercept_common \<Rightarrow> field list" where
  "staticip_fields ipr c =
     [sfield OPENLI_PROTO_FIELD_STATICIP_RANGE (ipr_rangestr ipr),
      sfield OPENLI_PROTO_FIELD_LIID (ic_liid c),
      wfield OPENLI_PROTO_FIELD_CIN (host32 (ipr_cin ipr))]"

definition mediator_fields :: "openli_mediator \<Rightarrow> field list" where
  "mediator_fields med =
     [wfield OPENLI_PROTO_FIELD_MEDIATORID (host32 (med_mediatorid med)),
      sfield OPENLI_PROTO_FIELD_MEDIATORIP (med_ipstr med),
      sfield OPENLI_PROTO_FIELD_MEDIATORPORT (med_portstr med)]"

definition hi1_fields :: "hi1_notify_data \<Rightarrow> field list" where
  "hi1_fields nd =
     [wfield OPENLI_PROTO_FIELD_HI1_NOTIFY_TYPE (host32 (hi1_notify_type nd)),
      sfield OPENLI_PROTO_FIELD_LIID (hi1_liid nd),
      sfield OPENLI_PROTO_FIELD_AUTHCC (hi1_authcc nd),
      sfield OPENLI_PROTO_FIELD_DELIVCC (hi1_delivcc nd),
      sfield OPENLI_PROTO_FIELD_LEAID (hi1_agencyid nd),
      wfield OPENLI_PROTO_FIELD_SEQNO (host32 (hi1_seqno nd)),
      wfield OPENLI_PROTO_FIELD_TS_SEC (host64 (hi1_ts_sec nd)),
      wfield OPENLI_PROTO_FIELD_TS_USEC (host32 (hi1_ts_usec nd))] @
     (if hi1_target_info nd \<noteq> None
      then [sfield OPENLI_PROTO_FIELD_USERNAME (hi1_target_info nd)] else [])"

definition radius_fields :: "default_radius_user \<Rightarrow> field list" where
  "radius_fields def = [sfield OPENLI_PROTO_FIELD_USERNAME (dru_name def)]"

definition compression_fields :: "u8 \<Rightarrow> field list" where
  "compression_fields x = [wfield OPENLI_PROTO_FIELD_DELIVER_COMPRESSED [x]]"

definition coreserver_fields :: "coreserver \<Rightarrow> u8 \<Rightarrow> field list" where
  "coreserver_fields cs cstype =
     [wfield OPENLI_PROTO_FIELD_CORESERVER_TYPE [cstype],
      sfield OPENLI_PROTO_FIELD_CORESERVER_IP (cs_ipstr cs)] @
     (if cs_portstr cs \<noteq> None
      then [sfield OPENLI_PROTO_FIELD_CORESERVER_PORT (cs_portstr cs)] else [])"

lemmas message_fields_defs =
  liid_mapping_fields_def cease_fields_def lea_fields_def common_fields_def ip_fields_def
  ipintercept_fields_def emailintercept_fields_def voipintercept_fields_def
  withdrawal_fields_def sip_target_fields_def email_target_fields_def staticip_fields_def
  mediator_fields_def hi1_fields_def radius_fields_def compression_fields_def
  coreserver_fields_def

subsection \<open>Well-formed arguments\<close>

definition len_agrees :: "cstr option \<Rightarrow> int \<Rightarrow> bool" where
  "len_agrees s n \<longleftrightarrow> sendable s \<and> (case s of None \<Rightarrow> False | Some b \<Rightarrow> n = int (length b))"

definition lea_ok :: "liagency \<Rightarrow> bool" where
  "lea_ok lea \<longleftrightarrow>
     sendable (lea_agencyid lea) \<and> sendable (lea_hi2_ipstr lea) \<and>
     sendable (lea_hi2_portstr lea) \<and> sendable (lea_hi3_ipstr lea) \<and>
     sendable (lea_hi3_portstr lea)"

definition common_ok :: "intercept_common \<Rightarrow> bool" where
  "common_ok c \<longleftrightarrow>
     len_agrees (ic_liid c) (ic_liid_len c) \<and> len_agrees (ic_authcc c) (ic_authcc_len c) \<and>
     len_agrees (ic_delivcc c) (ic_delivcc_len c) \<and> sendable (ic_targetagency c) \<and>
     opt_sendable (ic_encryptkey c)"

definition ipintercept_ok :: "ipintercept \<Rightarrow> bool" where
  "ipintercept_ok ip \<longleftrightarrow>
     common_ok (ipi_common ip) \<and> len_agrees (ipi_username ip) (ipi_username_len ip)"

definition sip_identity_ok :: "sip_identity \<Rightarrow> bool" where
  "sip_identity_ok sipid \<longleftrightarrow>
     len_agrees (sip_username sipid) (sip_username_len sipid) \<and>
     (sip_realm sipid = None \<or> len_agrees (sip_realm sipid) (sip_realm_len sipid))"

definition mediator_ok :: "openli_mediator \<Rightarrow> bool" where
  "mediator_ok med \<longleftrightarrow> sendable (med_ipstr med) \<and> sendable (med_portstr med)"

definition hi1_ok :: "hi1_notify_data \<Rightarrow> bool" where
  "hi1_ok nd \<longleftrightarrow>
     sendable (hi1_liid nd) \<and> sendable (hi1_authcc nd) \<and> sendable (hi1_delivcc nd) \<and>
     sendable (hi1_agencyid nd) \<and> opt_sendable (hi1_target_info nd)"

definition coreserver_ok :: "coreserver \<Rightarrow> bool" where
  "coreserver_ok cs \<longleftrightarrow> sendable (cs_ipstr cs) \<and> opt_sendable (cs_portstr cs)"

subsection \<open>What each encoder emits\<close>

declare run_pushes.simps [simp del]

lemma sendableE [elim!]:
  "sendable s \<Longrightarrow> (\<And>b. s = Some b \<Longrightarrow> no_nul b \<Longrightarrow> length b \<le> 4092 \<Longrightarrow> P) \<Longrightarrow> P"
  by (auto simp: sendable_def split: option.splits)

lemma sendable_Some [simp]: "sendable (Some b) \<longleftrightarrow> no_nul b \<and> length b \<le> 4092"
  by (simp add: sendable_def)

lemma len_agreesE [elim!]:
  "len_agrees s n \<Longrightarrow>
   (\<And>b. s = Some b \<Longrightarrow> no_nul b \<Longrightarrow> length b \<le> 4092 \<Longrightarrow> n = int (length b) \<Longrightarrow> P) \<Longrightarrow> P"
  by (auto simp: len_agrees_def)

lemma opt_sendableE [elim!]:
  "opt_sendable s \<Longrightarrow> (s = None \<Longrightarrow> P) \<Longrightarrow>
   (\<And>b. s = Some b \<Longrightarrow> no_nul b \<Longrightarrow> length b \<le> 4092 \<Longrightarrow> P) \<Longrightarrow> P"
  by (auto simp: opt_sendable_def)

lemma fields_bytes_simps [simp]:
  "fields_bytes [] = []" "fields_bytes (f # fs) = field_bytes f @ fields_bytes fs"
  "fields_bytes (xs @ ys) = fields_bytes xs @ fields_bytes ys"
  by (simp_all add: fields_bytes_def)

lemma length_field_bytes [simp]:
  "length (field_bytes (sfield t (Some b))) = length b + 4"
  "length (field_bytes (wfield t v)) = length v + 4"
  by (simp_all add: field_bytes_def sfield_def wfield_def)

lemma pushes_str [emits_intros]:
  "no_nul b \<Longrightarrow> length b \<le> 4092 \<Longrightarrow>
   pushes ok (push_str ok t (Some b)) (field_bytes (sfield t (Some b)))"
  using emits_tlv [of "Some (b @ [0])" "length b" b ok t]
  by (auto simp: pushes_def push_str_def [abs_def] strlen_p_def str_obj_def u16_of_nat copy_obj_def
      field_bytes_def sfield_def intro!: exI [of _ "int (length b + 4)"])

lemma pushes_strn [emits_intros]:
  "no_nul b \<Longrightarrow> length b \<le> 4092 \<Longrightarrow>
   pushes ok (push_strn ok t (Some b) (int (length b))) (field_bytes (sfield t (Some b)))"
  using emits_tlv [of "Some (b @ [0])" "length b" b ok t]
  by (auto simp: pushes_def push_strn_def str_obj_def u16_of_nat copy_obj_def
      field_bytes_def sfield_def intro!: exI [of _ "int (length b + 4)"])

lemma pushes_words [emits_intros]:
  "pushes ok (push_u8 ok t x) (field_bytes (wfield t [x]))"
  "pushes ok (push_u32 ok t w) (field_bytes (wfield t (host32 w)))"
  "pushes ok (push_u64 ok t v) (field_bytes (wfield t (host64 v)))"
  unfolding pushes_def push_u8_def push_u32_def push_u64_def field_bytes_def wfield_def
  using emits_tlv [of "Some [x]" 1 "[x]" ok t] emits_tlv [of "Some (host32 w)" 4 "host32 w" ok t]
    emits_tlv [of "Some (host64 v)" 8 "host64 v" ok t]
  by (auto simp: copy_obj_def intro: exI [of _ 5] exI [of _ 8] exI [of _ 12])

text \<open>A sequence of pushes that all succeed and emit the given bytes.\<close>

definition pushes_all :: "allocator \<Rightarrow> push list \<Rightarrow> bytes \<Rightarrow> bool" where
  "pushes_all ok ps bs \<longleftrightarrow> (\<forall>r. emits ok (run_pushes ps r) r bs)"

lemma pushes_all_Nil [emits_intros]: "pushes_all ok [] []"
  by (simp add: pushes_all_def emits_run_Nil)

lemma pushes_all_Cons [emits_intros]:
  "pushes ok p b \<Longrightarrow> pushes_all ok ps bs \<Longrightarrow> pushes_all ok (p # ps) (b @ bs)"
  by (auto simp: pushes_all_def pushes_def intro: emits_run_Cons)

lemma pushes_all_single [emits_intros]: "pushes ok p b \<Longrightarrow> pushes_all ok [p] b"
  using pushes_all_Cons [OF _ pushes_all_Nil] by simp

lemma pushes_run: "pushes_all ok ps bs \<Longrightarrow> r \<noteq> -1 \<Longrightarrow> pushes ok (run_pushes ps r) bs"
  by (auto simp: pushes_all_def pushes_def)

lemma u16_guard: "(65535 < u16_of n) = False"
  using u16_of_less [of n] by (auto simp del: u16_of_less)

text \<open>A header with the length of the fields, and the fields after it.\<close>

lemma emits_message:
  assumes "pushes_all ok ps body" "n = int (length body)" "length body < 65536"
  shows "emits ok (run_pushes (push_header ok ty (u16_of n) i # ps) r) r
           (msg_bytes (msgtype_code ty) i body)"
  using assms emits_run_Cons [OF emits_header [OF assms(3), of ok ty i], of ps r r body]
  by (simp add: msg_bytes_def ii_header_size_def pushes_all_def u16_of_nat)

lemma emits_len_message:
  assumes "\<And>n. f n = run_pushes (push_header ok ty (u16_of n) 0 # ps) (int (u16_of n))"
    and "pushes_all ok ps body" "length body < 65536" "lo = Some (int (length body))"
  shows "emits ok (with_len lo f) (int (length body)) (msg_bytes (msgtype_code ty) 0 body)"
  using emits_message [OF assms(2) refl assms(3), of ty 0 "int (length body)"] assms
  by (simp add: with_len_def [abs_def] u16_of_nat)

lemma emits_lea:
  assumes "lea_ok lea"
  shows "emits ok (push_lea_onto_net_buffer ok lea) (int (length (fields_bytes (lea_fields lea))))
    (msg_bytes (msgtype_code OPENLI_PROTO_ANNOUNCE_LEA) 0 (fields_bytes (lea_fields lea)))"
  unfolding push_lea_onto_net_buffer_def Let_def
  by (rule emits_len_message, rule refl)
    (use assms in \<open>auto simp: lea_ok_def LEA_BODY_LEN_def strlen_p_def lea_fields_def
      intro!: emits_intros\<close>)

lemma emits_lea_withdrawal:
  assumes "sendable (lea_agencyid lea)"
  shows "emits ok (push_lea_withdrawal_onto_net_buffer ok lea)
    (int (length (fields_bytes [sfield OPENLI_PROTO_FIELD_LEAID (lea_agencyid lea)])))
    (msg_bytes (msgtype_code OPENLI_PROTO_WITHDRAW_LEA) 0
       (fields_bytes [sfield OPENLI_PROTO_FIELD_LEAID (lea_agencyid lea)]))"
  unfolding push_lea_withdrawal_onto_net_buffer_def Let_def
  by (rule emits_len_message, rule refl)
    (use assms in \<open>auto simp: LEA_WITHDRAW_BODY_LEN_def strlen_p_def intro!: emits_intros\<close>)

lemma emits_liid_mapping:
  assumes "sendable agency" "sendable liid"
  shows "emits ok (push_liid_mapping_onto_net_buffer ok agency liid)
    (int (length (fields_bytes (liid_mapping_fields agency liid))))
    (msg_bytes (msgtype_code OPENLI_PROTO_MEDIATE_INTERCEPT) 0
       (fields_bytes (liid_mapping_fields agency liid)))"
  unfolding push_liid_mapping_onto_net_buffer_def Let_def
  by (rule emits_len_message, rule refl)
    (use assms in \<open>auto simp: LIIDMAP_BODY_LEN_def strlen_p_def liid_mapping_fields_def
      intro!: emits_intros\<close>)

text \<open>The common fields are emitted whatever the unspecified result is; the caller goes on
  unless it happens to be -1.\<close>

lemma pushes_common:
  assumes "common_ok c" "junk \<noteq> -1"
  shows "pushes ok (push_intercept_common_fields ok junk c) (fields_bytes (common_fields c))"
  unfolding push_intercept_common_fields_def
  by (rule pushes_run)
    (use assms in \<open>auto simp: common_ok_def common_fields_def intro!: emits_intros\<close>)

lemma common_len:
  assumes "common_ok c"
  shows "INTERCEPT_COMMON_LEN c = Some (int (length (fields_bytes (common_fields c))))"
    "length (fields_bytes (common_fields c)) \<le> 20600"
  using assms by (auto simp: common_ok_def common_fields_def INTERCEPT_COMMON_LEN_def strlen_p_def)

lemma emits_emailintercept:
  assumes "common_ok (em_common em)" "junk \<noteq> -1"
  shows "emits ok (push_emailintercept_onto_net_buffer ok junk em)
    (int (length (fields_bytes (emailintercept_fields em))))
    (msg_bytes (msgtype_code OPENLI_PROTO_START_EMAILINTERCEPT) 0
       (fields_bytes (emailintercept_fields em)))"
  unfolding push_emailintercept_onto_net_buffer_def Let_def u16_guard if_False
  by (rule emits_len_message, rule refl)
    (use assms common_len [OF assms(1)] in \<open>auto simp: emailintercept_fields_def
      EMAILINTERCEPT_BODY_LEN_def intro!: pushes_common emits_intros\<close>)

lemma emits_emailintercept_modify:
  assumes "common_ok (em_common em)" "junk \<noteq> -1"
  shows "emits ok (push_emailintercept_modify ok junk em)
    (int (length (fields_bytes (emailintercept_fields em))))
    (msg_bytes (msgtype_code OPENLI_PROTO_MODIFY_EMAILINTERCEPT) 0
       (fields_bytes (emailintercept_fields em)))"
  unfolding push_emailintercept_modify_def Let_def u16_guard if_False
  by (rule emits_len_message, rule refl)
    (use assms common_len [OF assms(1)] in \<open>auto simp: emailintercept_fields_def
      EMAILINTERCEPT_MODIFY_BODY_LEN_def intro!: pushes_common emits_intros\<close>)

lemma emits_voipintercept_modify:
  assumes "common_ok (vint_common v)" "junk \<noteq> -1"
  shows "emits ok (push_voipintercept_modify ok junk v)
    (int (length (fields_bytes (voipintercept_fields v))))
    (msg_bytes (msgtype_code OPENLI_PROTO_MODIFY_VOIPINTERCEPT) 0
       (fields_bytes (voipintercept_fields v)))"
  unfolding push_voipintercept_modify_def Let_def u16_guard if_False
  by (rule emits_len_message, rule refl)
    (use assms common_len [OF assms(1)] in \<open>auto simp: voipintercept_fields_def
      VOIPINTERCEPT_MODIFY_BODY_LEN_def intro!: pushes_common emits_intros\<close>)

lemma emits_size_message:
  assumes "\<And>n. f n = (if c_size n > 65535 then push_fail
              else run_pushes (push_header ok ty (u16_of n) 0 # ps) (int (u16_of n)))"
    and "pushes_all ok ps body" "length body < 65536" "lo = Some (int (length body))"
  shows "emits ok (with_len lo f) (int (length body)) (msg_bytes (msgtype_code ty) 0 body)"
  using emits_message [OF assms(2) refl assms(3), of ty 0 "int (length body)"] assms
  by (simp add: with_len_def [abs_def] u16_of_nat c_size_id)

lemma emits_now_message:
  assumes "pushes_all ok ps body" "length body < 65536" "n = int (length body)"
  shows "emits ok (run_pushes (push_header ok ty (u16_of n) 0 # ps) (int (u16_of n)))
           (int (length body)) (msg_bytes (msgtype_code ty) 0 body)"
  using emits_message [OF assms(1,3,2), of ty 0 n] assms by (simp add: u16_of_nat)

lemma emits_voipintercept:
  assumes "common_ok (vint_common v)" "junk \<noteq> -1"
  shows "emits ok (push_voipintercept_onto_net_buffer ok junk v)
    (int (length (fields_bytes (voipintercept_fields v))))
    (msg_bytes (msgtype_code OPENLI_PROTO_START_VOIPINTERCEPT) 0
       (fields_bytes (voipintercept_fields v)))"
  unfolding push_voipintercept_onto_net_buffer_def Let_def
  by (rule emits_size_message, rule refl)
    (use assms common_len [OF assms(1)] in \<open>auto simp: voipintercept_fields_def
      VOIPINTERCEPT_BODY_LEN_def intro!: pushes_common emits_intros\<close>)

lemma emits_withdrawal:
  assumes "withdrawal_common data ty = Some c" "sendable (ic_liid c)" "sendable (ic_authcc c)"
  shows "emits ok (push_intercept_withdrawal_onto_net_buffer ok data ty)
    (int (length (fields_bytes (withdrawal_fields c))))
    (msg_bytes (msgtype_code ty) 0 (fields_bytes (withdrawal_fields c)))"
proof -
  have ty: "ty \<in> {OPENLI_PROTO_HALT_VOIPINTERCEPT, OPENLI_PROTO_HALT_EMAILINTERCEPT,
      OPENLI_PROTO_HALT_IPINTERCEPT}"
    using assms(1) by (auto simp: withdrawal_common_def split: intercept_data.splits if_splits)
  have eq: "push_intercept_withdrawal_onto_net_buffer ok data ty =
    with_len (INTERCEPT_WITHDRAW_BODY_LEN (ic_liid c) (ic_authcc c)) (\<lambda>len.
      run_pushes
        [push_header ok ty (u16_of len) 0, push_str ok OPENLI_PROTO_FIELD_LIID (ic_liid c),
         push_str ok OPENLI_PROTO_FIELD_AUTHCC (ic_authcc c)] (int (u16_of len)))"
    using ty assms(1)
    by (intro ext) (simp add: push_intercept_withdrawal_onto_net_buffer_def u16_guard Let_def)
  show ?thesis
    unfolding eq
    by (rule emits_len_message, rule refl)
      (use assms in \<open>auto simp: withdrawal_fields_def INTERCEPT_WITHDRAW_BODY_LEN_def
        strlen_p_def intro!: emits_intros\<close>)
qed

lemma emits_sip_target:
  assumes "ty = OPENLI_PROTO_ANNOUNCE_SIP_TARGET \<or> ty = OPENLI_PROTO_WITHDRAW_SIP_TARGET"
    and "len_agrees (ic_liid (vint_common v)) (ic_liid_len (vint_common v))"
    and "sip_identity_ok sipid"
  shows "emits ok (push_sip_target_onto_net_buffer_generic ok sipid v ty)
    (int (length (fields_bytes (sip_target_fields sipid (vint_common v)))))
    (msg_bytes (msgtype_code ty) 0 (fields_bytes (sip_target_fields sipid (vint_common v))))"
proof -
  have "\<not> (ty \<noteq> OPENLI_PROTO_ANNOUNCE_SIP_TARGET \<and> ty \<noteq> OPENLI_PROTO_WITHDRAW_SIP_TARGET)"
    using assms(1) by blast
  then show ?thesis
    unfolding push_sip_target_onto_net_buffer_generic_def Let_def u16_guard append_Cons
    apply (simp only: if_False)
    by (rule emits_now_message)
      (use assms(2,3) in \<open>auto simp: sip_identity_ok_def sip_target_fields_def
        SIPTARGET_BODY_LEN_def SIPTARGET_BODY_LEN_NOREALM_def intro!: emits_intros\<close>)
qed

lemma emits_email_target:
  assumes "ty = OPENLI_PROTO_ANNOUNCE_EMAIL_TARGET \<or> ty = OPENLI_PROTO_WITHDRAW_EMAIL_TARGET"
    and "len_agrees (ic_liid (em_common em)) (ic_liid_len (em_common em))"
    and "sendable (et_address tgt)"
  shows "emits ok (push_email_target_onto_net_buffer_generic ok tgt em ty)
    (int (length (fields_bytes (email_target_fields tgt (em_common em)))))
    (msg_bytes (msgtype_code ty) 0 (fields_bytes (email_target_fields tgt (em_common em))))"
proof -
  have "\<not> (ty \<noteq> OPENLI_PROTO_ANNOUNCE_EMAIL_TARGET \<and> ty \<noteq> OPENLI_PROTO_WITHDRAW_EMAIL_TARGET)"
    using assms(1) by blast
  then show ?thesis
    unfolding push_email_target_onto_net_buffer_generic_def Let_def u16_guard if_False
    apply (simp only: if_False)
    by (rule emits_len_message, rule refl)
      (use assms(2,3) in \<open>auto simp: email_target_fields_def EMAILTARGET_BODY_LEN_def
        strlen_p_def intro!: emits_intros\<close>)
qed

lemma emits_mediator:
  assumes "mediator_ok med"
  shows "emits ok (push_mediator_msg_onto_net_buffer ok med ty)
    (int (length (fields_bytes (mediator_fields med))))
    (msg_bytes (msgtype_code ty) 0 (fields_bytes (mediator_fields med)))"
  unfolding push_mediator_msg_onto_net_buffer_def Let_def
  by (rule emits_size_message, rule refl)
    (use assms in \<open>auto simp: mediator_ok_def mediator_fields_def MEDIATOR_BODY_LEN_def
      strlen_p_def intro!: emits_intros\<close>)

lemma emits_coreserver:
  assumes "coreserver_ok cs"
  shows "emits ok (push_coreserver_msg_onto_net_buffer ok cs cstype ty)
    (int (length (fields_bytes (coreserver_fields cs cstype))))
    (msg_bytes (msgtype_code ty) 0 (fields_bytes (coreserver_fields cs cstype)))"
  unfolding push_coreserver_msg_onto_net_buffer_def Let_def u16_guard if_False append_Cons
  by (rule emits_len_message, rule refl)
    (use assms in \<open>auto simp: coreserver_ok_def coreserver_fields_def CORESERVER_BODY_LEN_def
      strlen_p_def intro!: emits_intros\<close>)

lemma emits_default_radius:
  assumes "len_agrees (dru_name def) (dru_namelen def)"
  shows "emits ok (push_default_radius_msg_onto_net_buffer ok def ty)
    (int (length (fields_bytes (radius_fields def))))
    (msg_bytes (msgtype_code ty) 0 (fields_bytes (radius_fields def)))"
proof -
  have "\<not> DEF_RADIUS_BODY_LEN def > 65535"
    using assms by (auto simp: DEF_RADIUS_BODY_LEN_def)
  then show ?thesis
    unfolding push_default_radius_msg_onto_net_buffer_def Let_def
    apply (simp only: if_False)
    by (rule emits_now_message)
      (use assms in \<open>auto simp: radius_fields_def DEF_RADIUS_BODY_LEN_def intro!: emits_intros\<close>)
qed

lemma emits_default_email_compression:
  "emits ok (push_default_email_compression_onto_net_buffer ok x)
    (int (length (fields_bytes (compression_fields x))))
    (msg_bytes (msgtype_code OPENLI_PROTO_ANNOUNCE_DEFAULT_EMAIL_COMPRESSION) 0
       (fields_bytes (compression_fields x)))"
  unfolding push_default_email_compression_onto_net_buffer_def Let_def
  by (rule emits_now_message) (auto simp: compression_fields_def intro!: emits_intros)

lemma emits_cease_mediation:
  assumes "len_agrees liid n"
  shows "emits ok (push_cease_mediation_onto_net_buffer ok liid n)
    (int (length (fields_bytes (cease_fields liid))))
    (msg_bytes (msgtype_code OPENLI_PROTO_CEASE_MEDIATION) 0 (fields_bytes (cease_fields liid)))"
  unfolding push_cease_mediation_onto_net_buffer_def Let_def
  by (rule emits_now_message) (use assms in \<open>auto simp: cease_fields_def intro!: emits_intros\<close>)

lemma emits_hi1_notification:
  assumes "hi1_ok nd"
  shows "emits ok (push_hi1_notification_onto_net_buffer ok nd)
    (int (length (fields_bytes (hi1_fields nd))))
    (msg_bytes (msgtype_code OPENLI_PROTO_HI1_NOTIFICATION) 0 (fields_bytes (hi1_fields nd)))"
proof (cases "hi1_target_info nd")
  case None
  show ?thesis
    unfolding push_hi1_notification_onto_net_buffer_def Let_def None option.case prod.case append_Cons
    by (rule emits_size_message, rule refl)
      (use assms None in \<open>auto simp: hi1_ok_def hi1_fields_def HI1_NOTIFY_BODY_LEN_def
        strlen_p_def intro!: emits_intros\<close>)
next
  case (Some t)
  show ?thesis
    unfolding push_hi1_notification_onto_net_buffer_def Let_def Some option.case prod.case append_Cons
    by (rule emits_size_message, rule refl)
      (use assms Some in \<open>auto simp: hi1_ok_def hi1_fields_def HI1_NOTIFY_BODY_LEN_def
        strlen_p_def intro!: emits_intros\<close>)
qed

lemma emits_append:
  assumes "pushes_all ok ps a" "pushes_all ok qs b"
  shows "pushes_all ok (ps @ qs) (a @ b)"
proof -
  have run: "run_pushes (ps @ qs) r nb =
      (case run_pushes ps 0 nb of None \<Rightarrow> None
       | Some (x, nb') \<Rightarrow> if x = -1 then Some (-1, nb') else run_pushes qs r nb')" for r nb
    by (induction ps arbitrary: nb) (auto simp: run_pushes.simps split: option.splits)
  have "emits ok (run_pushes ((run_pushes ps 0) # qs) r) r (a @ b)" for r
    using assms by (intro emits_run_Cons [of ok _ 0]) (auto simp: pushes_all_def)
  moreover have "run_pushes ((run_pushes ps 0) # qs) r = run_pushes (ps @ qs) r" for r
    by (intro ext) (simp add: run run_pushes.simps)
  ultimately show ?thesis by (simp add: pushes_all_def)
qed

text \<open>A message whose length is kept in an \<^verbatim>\<open>int\<close>, followed by further pushes.\<close>

lemma emits_int_message:
  assumes "\<And>n. f n = (if c_int n > 65535 then push_fail
              else run_pushes (push_header ok ty (u16_of (c_int n)) 0 # ps @ qs) (g (c_int n)))"
    and "pushes_all ok ps body" "pushes_all ok qs rest"
    and "length body < 65536" "lo = Some (int (length body))"
  shows "emits ok (with_len lo f) (g (int (length body)))
           (msg_bytes (msgtype_code ty) 0 body @ rest)"
  using emits_run_Cons [OF emits_header [OF assms(4), of ok ty 0], of "ps @ qs"
      "g (int (length body))"] emits_append [OF assms(2,3)] assms
  by (simp add: with_len_def [abs_def] u16_of_nat c_int_id pushes_all_def ii_header_size_def
      msg_bytes_def)

definition staticip_ok :: "ipintercept \<Rightarrow> static_ipranges \<Rightarrow> bool" where
  "staticip_ok ip ipr \<longleftrightarrow>
     sendable (ipr_rangestr ipr) \<and> len_agrees (ic_liid (ipi_common ip)) (ic_liid_len (ipi_common ip))"

definition staticip_msg :: "openli_proto_msgtype \<Rightarrow> ipintercept \<Rightarrow> static_ipranges \<Rightarrow> bytes" where
  "staticip_msg ty ip ipr =
     msg_bytes (msgtype_code ty) 0 (fields_bytes (staticip_fields ipr (ipi_common ip)))"

lemma emits_static_ipranges:
  assumes "staticip_ok ip ipr"
  shows "emits ok (push_static_ipranges_generic ok ip (Some ipr) ty) 0 (staticip_msg ty ip ipr)"
proof -
  have eq: "push_static_ipranges_generic ok ip (Some ipr) ty =
    with_len (STATICIP_RANGE_BODY_LEN ip ipr) (\<lambda>len.
      if c_int len > 65535 then push_fail
      else run_pushes (push_header ok ty (u16_of (c_int len)) 0 #
        [push_str ok OPENLI_PROTO_FIELD_STATICIP_RANGE (ipr_rangestr ipr),
         push_strn ok OPENLI_PROTO_FIELD_LIID (ic_liid (ipi_common ip))
           (ic_liid_len (ipi_common ip)),
         push_u32 ok OPENLI_PROTO_FIELD_CIN (ipr_cin ipr)] @ []) 0)"
    unfolding push_static_ipranges_generic_def [abs_def] option.case Let_def append_Nil2 ..
  have "emits ok (push_static_ipranges_generic ok ip (Some ipr) ty) 0 (staticip_msg ty ip ipr @ [])"
    unfolding eq staticip_msg_def
    by (rule emits_int_message [where g = "\<lambda>_. 0"], rule refl)
      (use assms in \<open>auto simp: staticip_ok_def staticip_fields_def STATICIP_RANGE_BODY_LEN_def
        strlen_p_def intro!: emits_intros\<close>)
  then show ?thesis by simp
qed

lemma pushes_statics:
  "list_all (staticip_ok ip) iprs \<Longrightarrow>
   pushes_all ok (map (\<lambda>ipr. push_static_ipranges_onto_net_buffer ok ip (Some ipr)) iprs)
     (concat (map (staticip_msg OPENLI_PROTO_ADD_STATICIPS ip) iprs))"
  by (induction iprs)
    (auto simp: push_static_ipranges_onto_net_buffer_def pushes_def
      intro!: emits_intros exI [of _ 0] emits_static_ipranges)

lemma pushes_ip_fields:
  assumes "ipintercept_ok ip" "junk \<noteq> -1"
  shows "pushes_all ok (push_intercept_common_fields ok junk (ipi_common ip) #
      push_ipintercept_fields ok ip) (fields_bytes (ipintercept_fields ip))"
  using assms pushes_common [of "ipi_common ip" junk ok]
  by (auto simp: ipintercept_ok_def push_ipintercept_fields_def ipintercept_fields_def
      ip_fields_def intro!: emits_intros)

lemma ip_len:
  assumes "ipintercept_ok ip"
  shows "(if ipi_vendmirrorid ip \<noteq> OPENLI_VENDOR_MIRROR_NONE
          then VENDMIRROR_IPINTERCEPT_BODY_LEN ip else IPINTERCEPT_BODY_LEN ip) =
      Some (int (length (fields_bytes (ipintercept_fields ip))))"
    "(if ipi_vendmirrorid ip \<noteq> OPENLI_VENDOR_MIRROR_NONE
      then VENDMIRROR_IPINTERCEPT_MODIFY_BODY_LEN ip else IPINTERCEPT_MODIFY_BODY_LEN ip) =
      Some (int (length (fields_bytes (ipintercept_fields ip))))"
    "length (fields_bytes (ipintercept_fields ip)) < 65536"
  using assms common_len [of "ipi_common ip"]
  by (auto simp: ipintercept_ok_def ipintercept_fields_def ip_fields_def
      VENDMIRROR_IPINTERCEPT_BODY_LEN_def IPINTERCEPT_BODY_LEN_def
      VENDMIRROR_IPINTERCEPT_MODIFY_BODY_LEN_def IPINTERCEPT_MODIFY_BODY_LEN_def)

lemma emits_ipintercept:
  assumes "ipintercept_ok ip" "junk \<noteq> -1" "list_all (staticip_ok ip) (ipi_statics ip)"
  shows "emits ok (push_ipintercept_onto_net_buffer ok junk ip)
    (int (length (fields_bytes (ipintercept_fields ip))))
    (msg_bytes (msgtype_code OPENLI_PROTO_START_IPINTERCEPT) 0 (fields_bytes (ipintercept_fields ip)) @
     concat (map (staticip_msg OPENLI_PROTO_ADD_STATICIPS ip) (ipi_statics ip)))"
  unfolding push_ipintercept_onto_net_buffer_def Let_def
  by (rule emits_int_message [where g = "\<lambda>n. n" and ps = "p # ps" for p ps, unfolded append_Cons, OF refl pushes_ip_fields [OF assms(1,2)]
        pushes_statics [OF assms(3)] ip_len(3,1) [OF assms(1)]])

lemma emits_ipintercept_modify:
  assumes "ipintercept_ok ip" "junk \<noteq> -1"
  shows "emits ok (push_ipintercept_modify ok junk ip)
    (int (length (fields_bytes (ipintercept_fields ip))))
    (msg_bytes (msgtype_code OPENLI_PROTO_MODIFY_IPINTERCEPT) 0
       (fields_bytes (ipintercept_fields ip)))"
  unfolding push_ipintercept_modify_def Let_def u16_guard if_False
  by (rule emits_len_message [OF refl pushes_ip_fields [OF assms] ip_len(3,2) [OF assms(1)]])

end
