(* ===== verification/Util.thy ===== *)
theory Util
  imports Intercept_Types Byteswap
begin

text \<open>
  The address and record helpers of \<^verbatim>\<open>src/src/util.c\<close>: comparing socket addresses, taking
  the addresses out of an IP header, normalising an address range, and reading the LIID that
  the collector puts in front of every exported record.
\<close>

definition sockaddr_to_key :: "int \<Rightarrow> sockaddr_storage \<Rightarrow> bytes option" where
  "sockaddr_to_key family sa =
     (if family = AF_INET then Some (sin_addr sa)
      else if family = AF_INET6 then Some (sin6_addr sa)
      else None)"

text \<open>The second test compares the family with \<^verbatim>\<open>AF_INET\<close> again, as in the source.\<close>

definition sockaddr_match :: "int \<Rightarrow> sockaddr_storage \<Rightarrow> sockaddr_storage \<Rightarrow> int" where
  "sockaddr_match family a b =
     (if family = AF_INET
      then (if sin_addr a = sin_addr b then 1 else 0)
      else if family = AF_INET
      then (if sin6_addr a = sin6_addr b then 1 else 0)
      else 0)"

text \<open>\<^verbatim>\<open>memcpy\<close> to the front of a buffer.\<close>

definition overwrite :: "bytes \<Rightarrow> bytes \<Rightarrow> bytes" where
  "overwrite buf bs = bs @ drop (length bs) buf"

definition TRACE_ETHERTYPE_IP :: nat where
  "TRACE_ETHERTYPE_IP = 0x0800"

text \<open>The argument \<^term>\<open>l3\<close> is the result of \<^verbatim>\<open>trace_get_layer3\<close>: the ethertype and the
  bytes from the IP header on. The result is the return value, the two buffers and the
  family.\<close>

definition extract_ip_addresses ::
  "(nat \<times> bytes) option \<Rightarrow> bytes option \<Rightarrow> bytes option \<Rightarrow> int \<Rightarrow>
   int \<times> bytes option \<times> bytes option \<times> int" where
  "extract_ip_addresses l3 srcip destip ipfamily =
     (case (srcip, destip) of
        (Some src, Some dst) \<Rightarrow>
          (case l3 of
             None \<Rightarrow> (-1, srcip, destip, 0)
           | Some (ethertype, hdr) \<Rightarrow>
               if length hdr = 0 then (-1, srcip, destip, 0)
               else if ethertype = TRACE_ETHERTYPE_IP
               then (if length hdr < 20 then (-1, srcip, destip, 0)
                     else (0, Some (overwrite src (take 4 (drop 12 hdr))),
                           Some (overwrite dst (take 4 (drop 16 hdr))), AF_INET))
               else (if length hdr < 40 then (-1, srcip, destip, 0)
                     else (0, Some (overwrite src (take 16 (drop 8 hdr))),
                           Some (overwrite dst (take 16 (drop 24 hdr))), AF_INET)))
      | _ \<Rightarrow> (-1, srcip, destip, ipfamily))"

text \<open>\<^verbatim>\<open>snprintf\<close> into a buffer of \<^term>\<open>n :: nat\<close> bytes keeps at most \<^term>\<open>n - 1\<close> characters.\<close>

definition snprintf :: "nat \<Rightarrow> cstr \<Rightarrow> cstr" where
  "snprintf n s = take (n - 1) s"

definition parse_iprange_string :: "cstr option \<Rightarrow> cstr option" where
  "parse_iprange_string ipr_str =
     (case ipr_str of
        None \<Rightarrow> None
      | Some s \<Rightarrow>
          if word_of_nat (of_char CHR '':'') \<in> set (c_str s) \<or>
             word_of_nat (of_char CHR ''.'') \<in> set (c_str s)
          then let family = (if word_of_nat (of_char CHR '':'') \<in> set (c_str s)
                             then AF_INET6 else AF_INET) in
            if word_of_nat (of_char CHR ''/'') \<notin> set (c_str s)
            then let rlen = strlen s + 5 in
              Some (snprintf (rlen - 1)
                      (c_str s @ lit ''/'' @ (if family = AF_INET then lit ''32'' else lit ''128'')))
            else Some (strdup s)
          else None)"

text \<open>
  \<^verbatim>\<open>extract_liid_from_exported_msg\<close>: the LIID copied to the caller's buffer and the number of
  bytes to skip. The length is read in network order, cut to the message and to the buffer;
  it is a \<^verbatim>\<open>uint16_t\<close> compared as an \<^verbatim>\<open>int\<close>.
\<close>

definition extract_liid_from_exported_msg :: "mem \<Rightarrow> nat \<Rightarrow> nat \<Rightarrow> int \<Rightarrow> cstr \<times> nat" where
  "extract_liid_from_exported_msg m etsimsg msglen maxspace =
     (let liidlen = unat (ntohs (load16 m etsimsg));
          liidlen = (if int liidlen > int msglen - 2 then u16_of (int msglen - 2) else liidlen);
          liidlen = (if int liidlen > maxspace - 1 then u16_of (maxspace - 1) else liidlen)
      in (mem_read m (etsimsg + 2) liidlen, u16_of (int liidlen + 2)))"

subsection \<open>Properties\<close>

lemma lit_length [simp]: "length (lit s) = length s"
  by (simp add: lit_def)

lemma lit_append: "lit (s @ t) = lit s @ lit t"
  by (simp add: lit_def)

definition has_char :: "char \<Rightarrow> cstr \<Rightarrow> bool" where
  "has_char c s \<longleftrightarrow> word_of_nat (of_char c) \<in> set s"

text \<open>C23. An address range without a prefix length becomes a host range when it is an IPv4 address: it
  gets the suffix \<^verbatim>\<open>/32\<close>. An IPv6 address becomes a \<^verbatim>\<open>/12\<close>: the buffer has room for \<^verbatim>\<open>/128\<close>, but
  \<^verbatim>\<open>snprintf\<close> is given one byte less than its size and drops the last digit. A range that has a
  prefix length is kept, and a string that is neither kind of address is rejected.\<close>

theorem iprange_spec:
  assumes "no_nul s"
  shows "(has_char CHR ''.'' s \<and> \<not> has_char CHR '':'' s \<and> \<not> has_char CHR ''/'' s \<longrightarrow>
            parse_iprange_string (Some s) = Some (s @ lit ''/32'')) \<and>
         (has_char CHR '':'' s \<and> \<not> has_char CHR ''/'' s \<longrightarrow>
            parse_iprange_string (Some s) = Some (s @ lit ''/12'')) \<and>
         ((has_char CHR ''.'' s \<or> has_char CHR '':'' s) \<and> has_char CHR ''/'' s \<longrightarrow>
            parse_iprange_string (Some s) = Some s) \<and>
         (\<not> has_char CHR ''.'' s \<and> \<not> has_char CHR '':'' s \<longrightarrow>
            parse_iprange_string (Some s) = None)"
  using assms lit_append [of "''/''" "''32''"]
  by (auto simp: parse_iprange_string_def has_char_def snprintf_def strdup_def AF_INET_def AF_INET6_def
      Let_def lit_def)

theorem iprange_spec_witness:
  "parse_iprange_string (Some (lit ''1.2'')) = Some (lit ''1.2/32'') \<and>
   parse_iprange_string (Some (lit ''fe80::1'')) = Some (lit ''fe80::1/12'')"
proof -
  have "no_nul (lit ''1.2'')" "no_nul (lit ''fe80::1'')" by (simp_all add: no_nul_def lit_def)
  from this [THEN iprange_spec] show ?thesis by (simp add: has_char_def lit_def)
qed


text \<open>C25. The addresses of an IP packet are copied to the caller's buffers, but the family of an
  IPv6 packet is reported as \<^verbatim>\<open>AF_INET\<close>.\<close>

theorem extract_ip_addresses_spec:
  assumes "length hdr \<ge> (if ethertype = TRACE_ETHERTYPE_IP then 20 else 40)"
    and "length src = 16" "length dst = 16"
  shows "\<exists>src' dst'. extract_ip_addresses (Some (ethertype, hdr)) (Some src) (Some dst) fam =
           (0, Some src', Some dst', AF_INET) \<and> length src' = 16 \<and> length dst' = 16 \<and>
         (if ethertype = TRACE_ETHERTYPE_IP
          then take 4 src' = take 4 (drop 12 hdr) \<and> take 4 dst' = take 4 (drop 16 hdr)
          else src' = take 16 (drop 8 hdr) \<and> dst' = take 16 (drop 24 hdr))"
  using assms by (auto simp: extract_ip_addresses_def overwrite_def split: if_splits)

theorem extract_ip_addresses_spec_witness:
  "\<exists>src' dst'. extract_ip_addresses (Some (0x86dd, replicate 40 1)) (Some (replicate 16 0))
     (Some (replicate 16 0)) 0 = (0, Some src', Some dst', AF_INET) \<and> src' = replicate 16 1"
  using extract_ip_addresses_spec [of "0x86dd" "replicate 40 1" "replicate 16 0" "replicate 16 0" 0]
  by (auto simp: TRACE_ETHERTYPE_IP_def)

text \<open>Reading the LIID in front of an exported record gives the LIID that was put there and the
  offset of the record, when the LIID fits the caller's buffer.\<close>

lemma extract_liid_at:
  assumes "mem_at m p (be_bytes 2 (length liid) @ liid @ record)"
    and "int (length liid) < maxspace" "length liid + 2 + length record = msglen" "msglen < 65536"
  shows "extract_liid_from_exported_msg m p msglen maxspace = (liid, length liid + 2)"
proof -
  have len: "length liid < 65536" using assms(3,4) by simp
  have "be_bytes 2 (length liid) = host16 (htons (word_of_nat (length liid)))"
    using len by (simp add: swap_macros host16_byteswap16 unat_of_nat)
  with assms(1) have load: "load16 m p = htons (word_of_nat (length liid))"
    and liid: "mem_at m (p + 2) liid"
    by (auto simp: mem_at_append dest: load16_host)
  have "int (length liid) \<le> int msglen - 2" "int (length liid) \<le> maxspace - 1"
    using assms(2,3) by linarith+
  then show ?thesis
    using len load liid assms(3,4)
    by (simp add: extract_liid_from_exported_msg_def swap_macros unat_of_nat Let_def mem_at_def
        u16_of_id)
qed

end
