(* ===== verification/Coreserver.thy ===== *)
theory Coreserver
  imports Util
begin

text \<open>
  Core servers (\<^verbatim>\<open>src/src/coreserver.c\<close>): the machines whose RADIUS, SIP, mail or mirrored
  traffic a collector looks at, the key they are stored under, and the match of a packet
  against a list of them.
\<close>

definition OPENLI_CORE_SERVER_UNKNOWN :: u8 where "OPENLI_CORE_SERVER_UNKNOWN = 0"
definition OPENLI_CORE_SERVER_RADIUS :: u8 where "OPENLI_CORE_SERVER_RADIUS = 1"
definition OPENLI_CORE_SERVER_DHCP :: u8 where "OPENLI_CORE_SERVER_DHCP = 2"
definition OPENLI_CORE_SERVER_SIP :: u8 where "OPENLI_CORE_SERVER_SIP = 3"
definition OPENLI_CORE_SERVER_ALUMIRROR :: u8 where "OPENLI_CORE_SERVER_ALUMIRROR = 4"
definition OPENLI_CORE_SERVER_GTP :: u8 where "OPENLI_CORE_SERVER_GTP = 5"
definition OPENLI_CORE_SERVER_SMTP :: u8 where "OPENLI_CORE_SERVER_SMTP = 6"
definition OPENLI_CORE_SERVER_IMAP :: u8 where "OPENLI_CORE_SERVER_IMAP = 7"
definition OPENLI_CORE_SERVER_POP3 :: u8 where "OPENLI_CORE_SERVER_POP3 = 8"

lemmas coreserver_types =
  OPENLI_CORE_SERVER_UNKNOWN_def OPENLI_CORE_SERVER_RADIUS_def OPENLI_CORE_SERVER_DHCP_def
  OPENLI_CORE_SERVER_SIP_def OPENLI_CORE_SERVER_ALUMIRROR_def OPENLI_CORE_SERVER_GTP_def
  OPENLI_CORE_SERVER_SMTP_def OPENLI_CORE_SERVER_IMAP_def OPENLI_CORE_SERVER_POP3_def

definition coreserver_type_to_string :: "u8 \<Rightarrow> cstr" where
  "coreserver_type_to_string cstype =
     lit (if cstype = OPENLI_CORE_SERVER_RADIUS then ''RADIUS''
          else if cstype = OPENLI_CORE_SERVER_DHCP then ''DHCP''
          else if cstype = OPENLI_CORE_SERVER_SIP then ''SIP''
          else if cstype = OPENLI_CORE_SERVER_SMTP then ''SMTP''
          else if cstype = OPENLI_CORE_SERVER_IMAP then ''IMAP''
          else if cstype = OPENLI_CORE_SERVER_POP3 then ''POP3''
          else if cstype = OPENLI_CORE_SERVER_GTP then ''GTP''
          else if cstype = OPENLI_CORE_SERVER_ALUMIRROR then ''ALU-Mirror''
          else ''Unknown'')"

text \<open>\<^verbatim>\<open>strdup\<close> of NULL is undefined.\<close>

definition deep_copy_coreserver :: "coreserver \<Rightarrow> coreserver option" where
  "deep_copy_coreserver cs =
     (case (cs_serverkey cs, cs_ipstr cs) of
        (Some key, Some ip) \<Rightarrow>
          Some \<lparr> cs_serverkey = Some (strdup key), cs_servertype = cs_servertype cs,
                 cs_ipstr = Some (strdup ip), cs_portstr = map_option strdup (cs_portstr cs),
                 cs_info = None, cs_portswapped = cs_portswapped cs, cs_awaitingconfirm = 0 \<rparr>
      | _ \<Rightarrow> None)"

definition construct_coreserver_key :: "coreserver \<Rightarrow> cstr option \<times> coreserver" where
  "construct_coreserver_key cs =
     (case cs_ipstr cs of
        None \<Rightarrow> (None, cs)
      | Some ip \<Rightarrow>
          let keyspace =
            snprintf 256
              (case cs_portstr cs of
                 None \<Rightarrow> c_str ip @ lit ''-default-'' @ coreserver_type_to_string (cs_servertype cs)
               | Some port \<Rightarrow>
                   c_str ip @ lit ''-'' @ c_str port @ lit ''-'' @
                   coreserver_type_to_string (cs_servertype cs));
              key = Some (strdup keyspace)
          in (key, cs \<lparr> cs_serverkey := key \<rparr>))"

definition CORESERVER_MATCH_V4 :: "coreserver \<Rightarrow> addrinfo \<Rightarrow> sockaddr_storage \<Rightarrow> u16 \<Rightarrow> bool" where
  "CORESERVER_MATCH_V4 cs info sa port \<longleftrightarrow>
     port = cs_portswapped cs \<and> sin_addr sa = sin_addr (ai_addr info)"

definition CORESERVER_MATCH_V6 :: "coreserver \<Rightarrow> addrinfo \<Rightarrow> sockaddr_storage \<Rightarrow> u16 \<Rightarrow> bool" where
  "CORESERVER_MATCH_V6 cs info sa port \<longleftrightarrow>
     port = cs_portswapped cs \<and> sin6_addr sa = sin6_addr (ai_addr info)"

text \<open>
  The resolution of a server's address inside the match loop; \<^term>\<open>populate_addrinfo\<close> is the
  lookup through \<^verbatim>\<open>getaddrinfo\<close>. The port is at the same offset in both address families.
  \<^term>\<open>None\<close>: the lookup fails and the server is deleted from the list.
\<close>

definition resolve_coreserver ::
  "(cstr option \<Rightarrow> cstr option \<Rightarrow> addrinfo option) \<Rightarrow> coreserver \<Rightarrow> (coreserver \<times> addrinfo) option"
where
  "resolve_coreserver populate_addrinfo cs =
     (case cs_info cs of
        Some info \<Rightarrow> Some (cs, info)
      | None \<Rightarrow>
          (case populate_addrinfo (cs_ipstr cs) (cs_portstr cs) of
             None \<Rightarrow> None
           | Some info \<Rightarrow>
               Some (cs \<lparr> cs_info := Some info,
                          cs_portswapped :=
                            (if ai_family info = AF_INET \<or> ai_family info = AF_INET6
                             then ntohs (sin_port (ai_addr info)) else cs_portswapped cs) \<rparr>,
                     info)))"

definition coreserver_matches :: "packet_info \<Rightarrow> coreserver \<Rightarrow> addrinfo \<Rightarrow> bool" where
  "coreserver_matches pinfo cs info \<longleftrightarrow>
     (if ai_family info = AF_INET
      then CORESERVER_MATCH_V4 cs info (pi_destip pinfo) (pi_destport pinfo)
      else if ai_family info = AF_INET6
      then CORESERVER_MATCH_V6 cs info (pi_destip pinfo) (pi_destport pinfo)
      else False)"

text \<open>The loop: the match, and the servers as they are afterwards.\<close>

fun match_loop ::
  "(cstr option \<Rightarrow> cstr option \<Rightarrow> addrinfo option) \<Rightarrow> packet_info \<Rightarrow> coreserver list \<Rightarrow>
   coreserver option \<times> coreserver list" where
  "match_loop gai pinfo [] = (None, [])"
| "match_loop gai pinfo (cs # rest) =
     (case resolve_coreserver gai cs of
        None \<Rightarrow> match_loop gai pinfo rest
      | Some (cs', info) \<Rightarrow>
          if coreserver_matches pinfo cs' info then (Some cs', cs' # rest)
          else (case match_loop gai pinfo rest of (r, rest') \<Rightarrow> (r, cs' # rest')))"

definition match_packet_to_coreserver ::
  "(cstr option \<Rightarrow> cstr option \<Rightarrow> addrinfo option) \<Rightarrow> coreserver list \<Rightarrow> packet_info \<Rightarrow>
   coreserver option \<times> coreserver list" where
  "match_packet_to_coreserver gai serverlist pinfo =
     (if pi_destport pinfo = 0 then (None, serverlist)
      else match_loop gai pinfo serverlist)"

subsection \<open>Properties\<close>

definition server_matches :: "packet_info \<Rightarrow> coreserver \<Rightarrow> bool" where
  "server_matches pinfo cs \<longleftrightarrow>
     (case cs_info cs of None \<Rightarrow> False | Some info \<Rightarrow> coreserver_matches pinfo cs info)"

lemma resolve_coreserver_info:
  "resolve_coreserver gai cs = Some (cs', info) \<Longrightarrow> cs_info cs' = Some info"
  by (auto simp: resolve_coreserver_def split: option.splits)

lemma match_loop_spec:
  "match_loop gai pinfo servers = (r, rest) \<Longrightarrow>
   r = List.find (server_matches pinfo) rest \<and>
   (r = None \<longrightarrow> (\<forall>cs\<in>set rest. cs_info cs \<noteq> None))"
proof (induction servers arbitrary: r rest)
  case (Cons cs servers)
  show ?case
  proof (cases "resolve_coreserver gai cs")
    case None
    with Cons show ?thesis by simp
  next
    case (Some x)
    obtain cs' info where x: "x = (cs', info)" by (cases x)
    obtain r1 rest1 where l: "match_loop gai pinfo servers = (r1, rest1)" by fastforce
    show ?thesis
      using Cons.prems Cons.IH [OF l] Some x l resolve_coreserver_info [of gai cs cs' info]
      by (auto simp: server_matches_def split: if_splits)
  qed
qed simp


definition ex_server :: coreserver where
  "ex_server = \<lparr> cs_serverkey = None, cs_servertype = OPENLI_CORE_SERVER_ALUMIRROR,
     cs_ipstr = Some (lit ''10.0.0.1''), cs_portstr = Some (lit ''53''),
     cs_info = Some \<lparr> ai_family = AF_INET, ai_addr = [2, 0, 0, 53, 10, 0, 0, 1] \<rparr>,
     cs_portswapped = 53, cs_awaitingconfirm = 0 \<rparr>"

definition ex_packet :: packet_info where
  "ex_packet = \<lparr> pi_family = AF_INET, pi_srcip = [2, 0, 3, 232, 10, 0, 0, 2],
     pi_destip = [2, 0, 0, 53, 10, 0, 0, 1], pi_srcport = 1000, pi_destport = 53 \<rparr>"


text \<open>The key of a core server is its address, its port (or \<^verbatim>\<open>default\<close>) and its type, as long as
  they fit in 255 characters, and copying a server keeps its key, type, address and port.\<close>

theorem coreserver_key_copy:
  assumes "cs_ipstr cs = Some ip" "no_nul ip" "cs_portstr cs = Some port" "no_nul port"
    and "length ip + length port \<le> 240"
  shows "\<exists>cs'. construct_coreserver_key cs =
      (Some (ip @ lit ''-'' @ port @ lit ''-'' @ coreserver_type_to_string (cs_servertype cs)), cs') \<and>
    (\<exists>copy. deep_copy_coreserver cs' = Some copy \<and> cs_serverkey copy = cs_serverkey cs' \<and>
       cs_servertype copy = cs_servertype cs \<and> cs_ipstr copy = Some ip \<and>
       cs_portstr copy = Some port \<and> cs_info copy = None)"
proof -
  let ?key = "ip @ lit ''-'' @ port @ lit ''-'' @ coreserver_type_to_string (cs_servertype cs)"
  have "no_nul ?key"
    using assms(2,4) by (auto simp: no_nul_def lit_def coreserver_type_to_string_def split: if_splits)
  moreover have "length ?key \<le> 255"
    using assms(5) by (auto simp: coreserver_type_to_string_def)
  ultimately show ?thesis
    using assms(1-4)
    by (auto simp: construct_coreserver_key_def deep_copy_coreserver_def snprintf_def strdup_def
        Let_def)
qed

theorem coreserver_key_copy_witness:
  "\<exists>key cs'. construct_coreserver_key
     \<lparr> cs_serverkey = None, cs_servertype = OPENLI_CORE_SERVER_SIP, cs_ipstr = Some [49],
       cs_portstr = Some [53], cs_info = None, cs_portswapped = 0, cs_awaitingconfirm = 0 \<rparr> =
     (Some key, cs')"
  using coreserver_key_copy [of "\<lparr> cs_serverkey = None, cs_servertype = OPENLI_CORE_SERVER_SIP,
      cs_ipstr = Some [49], cs_portstr = Some [53], cs_info = None, cs_portswapped = 0,
      cs_awaitingconfirm = 0 \<rparr>" "[49]" "[53]"]
  by (auto simp: no_nul_def)

end
