(* ===== verification/Net_Decode.thy ===== *)
theory Net_Decode
  imports Net_Buffer Coreserver
begin

text \<open>
  The decoders of the control protocol: one definition per \<^verbatim>\<open>decode_*\<close> function of
  \<^verbatim>\<open>src/src/netcomms.c\<close>. Every decoder resets the members it fills in, walks the fields of the
  message body, and stores each value according to its type. A decoder takes the memory, the
  offset and the length of the body and the struct the caller passes, and returns the return
  value with the struct as the function leaves it.

  The walk is the same in all of them and is \<^term>\<open>decode_fields\<close> here; the \<^verbatim>\<open>if\<close> cascade over
  the field type is a handler per message. A handler returns \<^term>\<open>None\<close> where the code
  returns -1.
\<close>

type_synonym 's handler = "mem \<Rightarrow> nat \<Rightarrow> nat \<Rightarrow> nat \<Rightarrow> 's \<Rightarrow> 's option"

text \<open>\<^verbatim>\<open>decode_tlv\<close>: the type, the length and the offset of the value.\<close>

definition decode_tlv :: "mem \<Rightarrow> nat \<Rightarrow> nat \<Rightarrow> (nat \<times> nat \<times> nat) option" where
  "decode_tlv m start msgend =
     (let t = unat (ntohs (load16 m start)) in
      if start + 2 \<ge> msgend then None
      else let l = unat (ntohs (load16 m (start + 2))) in
        if start + 4 \<ge> msgend then None
        else if start + 4 + l > msgend then None
        else Some (t, l, start + 4))"

text \<open>\<^verbatim>\<open>DECODE_STRING_FIELD\<close>.\<close>

definition decode_string :: "mem \<Rightarrow> nat \<Rightarrow> nat \<Rightarrow> cstr option" where
  "decode_string m valptr vallen = Some (mem_read m valptr vallen)"

function decode_fields :: "'s handler \<Rightarrow> mem \<Rightarrow> nat \<Rightarrow> nat \<Rightarrow> 's \<Rightarrow> int \<times> 's" where
  "decode_fields h m msgbody msgend s =
     (if msgbody < msgend
      then (case decode_tlv m msgbody msgend of
              None \<Rightarrow> (-1, s)
            | Some (f, vallen, valptr) \<Rightarrow>
                (case h m f vallen valptr s of
                   None \<Rightarrow> (-1, s)
                 | Some s' \<Rightarrow> decode_fields h m (msgbody + (vallen + 4)) msgend s'))
      else (0, s))"
  by pat_completeness auto

termination
  by (relation "measure (\<lambda>(h, m, p, e, s). e - p)") auto

declare decode_fields.simps [simp del]

subsection \<open>Email intercepts\<close>

text \<open>The updates of the members every intercept has.\<close>

definition set_common :: "mem \<Rightarrow> nat \<Rightarrow> nat \<Rightarrow> nat \<Rightarrow> intercept_common \<Rightarrow> intercept_common option" where
  "set_common m f vallen valptr c =
     (if f = fieldtype_code OPENLI_PROTO_FIELD_MEDIATORID
      then Some (c \<lparr> ic_destid := load32 m valptr \<rparr>)
      else if f = fieldtype_code OPENLI_PROTO_FIELD_LIID
      then Some (c \<lparr> ic_liid := decode_string m valptr vallen, ic_liid_len := int vallen \<rparr>)
      else if f = fieldtype_code OPENLI_PROTO_FIELD_AUTHCC
      then Some (c \<lparr> ic_authcc := decode_string m valptr vallen, ic_authcc_len := int vallen \<rparr>)
      else if f = fieldtype_code OPENLI_PROTO_FIELD_LEAID
      then Some (c \<lparr> ic_targetagency := decode_string m valptr vallen \<rparr>)
      else if f = fieldtype_code OPENLI_PROTO_FIELD_DELIVCC
      then Some (c \<lparr> ic_delivcc := decode_string m valptr vallen, ic_delivcc_len := int vallen \<rparr>)
      else if f = fieldtype_code OPENLI_PROTO_FIELD_INTERCEPT_START_TIME
      then Some (c \<lparr> ic_tostart_time := load64 m valptr \<rparr>)
      else if f = fieldtype_code OPENLI_PROTO_FIELD_INTERCEPT_END_TIME
      then Some (c \<lparr> ic_toend_time := load64 m valptr \<rparr>)
      else if f = fieldtype_code OPENLI_PROTO_FIELD_TOMEDIATE
      then Some (c \<lparr> ic_tomediate := load32 m valptr \<rparr>)
      else if f = fieldtype_code OPENLI_PROTO_FIELD_PAYLOAD_ENCRYPTION
      then Some (c \<lparr> ic_encrypt := load32 m valptr \<rparr>)
      else if f = fieldtype_code OPENLI_PROTO_FIELD_ENCRYPTION_KEY
      then Some (c \<lparr> ic_encryptkey := decode_string m valptr vallen \<rparr>)
      else None)"

definition reset_common :: "intercept_common \<Rightarrow> intercept_common" where
  "reset_common c =
     c \<lparr> ic_liid := None, ic_authcc := None, ic_delivcc := None, ic_destid := 0,
         ic_targetagency := None, ic_liid_len := 0, ic_authcc_len := 0, ic_delivcc_len := 0,
         ic_tostart_time := 0, ic_toend_time := 0, ic_tomediate := 0, ic_encrypt := 0,
         ic_encryptkey := None \<rparr>"

definition emailintercept_handler :: "emailintercept handler" where
  "emailintercept_handler m f vallen valptr em =
     (if f = fieldtype_code OPENLI_PROTO_FIELD_DELIVER_COMPRESSED
      then Some (em \<lparr> em_delivercompressed := m valptr \<rparr>)
      else map_option (\<lambda>c. em \<lparr> em_common := c \<rparr>) (set_common m f vallen valptr (em_common em)))"

definition decode_emailintercept_start ::
  "mem \<Rightarrow> nat \<Rightarrow> nat \<Rightarrow> emailintercept \<Rightarrow> int \<times> emailintercept" where
  "decode_emailintercept_start m msgbody len em =
     decode_fields emailintercept_handler m msgbody (msgbody + len)
       (em \<lparr> em_common := reset_common (em_common em), em_targets := [],
             em_awaitingconfirm := 0,
             em_delivercompressed := OPENLI_EMAILINT_DELIVER_COMPRESSED_DEFAULT \<rparr>)"

definition decode_emailintercept_halt ::
  "mem \<Rightarrow> nat \<Rightarrow> nat \<Rightarrow> emailintercept \<Rightarrow> int \<times> emailintercept" where
  "decode_emailintercept_halt = decode_emailintercept_start"

definition decode_emailintercept_modify ::
  "mem \<Rightarrow> nat \<Rightarrow> nat \<Rightarrow> emailintercept \<Rightarrow> int \<times> emailintercept" where
  "decode_emailintercept_modify = decode_emailintercept_start"

subsection \<open>VoIP intercepts\<close>

definition voipintercept_handler :: "voipintercept handler" where
  "voipintercept_handler m f vallen valptr vint =
     (if f = fieldtype_code OPENLI_PROTO_FIELD_INTOPTIONS
      then Some (vint \<lparr> vint_options := load32 m valptr \<rparr>)
      else if f = fieldtype_code OPENLI_PROTO_FIELD_INTERCEPTID
      then Some (vint \<lparr> vint_internalid := load64 m valptr \<rparr>)
      else map_option (\<lambda>c. vint \<lparr> vint_common := c \<rparr>)
             (set_common m f vallen valptr (vint_common vint)))"

definition decode_voipintercept_start ::
  "mem \<Rightarrow> nat \<Rightarrow> nat \<Rightarrow> voipintercept \<Rightarrow> int \<times> voipintercept" where
  "decode_voipintercept_start m msgbody len vint =
     decode_fields voipintercept_handler m msgbody (msgbody + len)
       (vint \<lparr> vint_internalid := 0, vint_common := reset_common (vint_common vint),
               vint_active_cins := [], vint_active_registrations := [],
               vint_cin_callid_map := [], vint_cin_sdp_map := [], vint_targets := [],
               vint_active := 1, vint_awaitingconfirm := 0, vint_options := 0 \<rparr>)"

definition decode_voipintercept_halt ::
  "mem \<Rightarrow> nat \<Rightarrow> nat \<Rightarrow> voipintercept \<Rightarrow> int \<times> voipintercept" where
  "decode_voipintercept_halt = decode_voipintercept_start"

definition decode_voipintercept_modify ::
  "mem \<Rightarrow> nat \<Rightarrow> nat \<Rightarrow> voipintercept \<Rightarrow> int \<times> voipintercept" where
  "decode_voipintercept_modify = decode_voipintercept_start"

subsection \<open>IP intercepts\<close>

definition ipintercept_handler :: "ipintercept handler" where
  "ipintercept_handler m f vallen valptr ip =
     (if f = fieldtype_code OPENLI_PROTO_FIELD_VENDMIRRORID
      then Some (ip \<lparr> ipi_vendmirrorid := load32 m valptr \<rparr>)
      else if f = fieldtype_code OPENLI_PROTO_FIELD_ACCESSTYPE
      then Some (ip \<lparr> ipi_accesstype := load32 m valptr \<rparr>)
      else if f = fieldtype_code OPENLI_PROTO_FIELD_LIID
      then Some (ip \<lparr> ipi_common := (ipi_common ip)
                  \<lparr> ic_liid := decode_string m valptr vallen, ic_liid_len := int vallen,
                    ic_seqtrackerid := 0 \<rparr> \<rparr>)
      else if f = fieldtype_code OPENLI_PROTO_FIELD_INTOPTIONS
      then Some (ip \<lparr> ipi_options := load32 m valptr \<rparr>)
      else if f = fieldtype_code OPENLI_PROTO_FIELD_USERNAME
      then Some (ip \<lparr> ipi_username := (if vallen = 0 then None else decode_string m valptr vallen),
                      ipi_username_len := int vallen \<rparr>)
      else map_option (\<lambda>c. ip \<lparr> ipi_common := c \<rparr>) (set_common m f vallen valptr (ipi_common ip)))"

definition decode_ipintercept_start ::
  "mem \<Rightarrow> nat \<Rightarrow> nat \<Rightarrow> ipintercept \<Rightarrow> int \<times> ipintercept" where
  "decode_ipintercept_start m msgbody len ip =
     decode_fields ipintercept_handler m msgbody (msgbody + len)
       (ip \<lparr> ipi_common := reset_common (ipi_common ip), ipi_username := None,
             ipi_awaitingconfirm := 0, ipi_vendmirrorid := OPENLI_VENDOR_MIRROR_NONE,
             ipi_accesstype := INTERNET_ACCESS_TYPE_UNDEFINED, ipi_statics := [],
             ipi_options := 0, ipi_username_len := 0 \<rparr>)"

definition decode_ipintercept_halt ::
  "mem \<Rightarrow> nat \<Rightarrow> nat \<Rightarrow> ipintercept \<Rightarrow> int \<times> ipintercept" where
  "decode_ipintercept_halt = decode_ipintercept_start"

definition decode_ipintercept_modify ::
  "mem \<Rightarrow> nat \<Rightarrow> nat \<Rightarrow> ipintercept \<Rightarrow> int \<times> ipintercept" where
  "decode_ipintercept_modify = decode_ipintercept_start"

subsection \<open>Mediators and targets\<close>

definition mediator_handler :: "openli_mediator handler" where
  "mediator_handler m f vallen valptr med =
     (if f = fieldtype_code OPENLI_PROTO_FIELD_MEDIATORID
      then Some (med \<lparr> med_mediatorid := load32 m valptr \<rparr>)
      else if f = fieldtype_code OPENLI_PROTO_FIELD_MEDIATORIP
      then Some (med \<lparr> med_ipstr := decode_string m valptr vallen \<rparr>)
      else if f = fieldtype_code OPENLI_PROTO_FIELD_MEDIATORPORT
      then Some (med \<lparr> med_portstr := decode_string m valptr vallen \<rparr>)
      else None)"

definition decode_mediator_announcement ::
  "mem \<Rightarrow> nat \<Rightarrow> nat \<Rightarrow> openli_mediator \<Rightarrow> int \<times> openli_mediator" where
  "decode_mediator_announcement m msgbody len med =
     decode_fields mediator_handler m msgbody (msgbody + len)
       (med \<lparr> med_ipstr := None, med_portstr := None, med_mediatorid := 0 \<rparr>)"

definition decode_mediator_withdraw ::
  "mem \<Rightarrow> nat \<Rightarrow> nat \<Rightarrow> openli_mediator \<Rightarrow> int \<times> openli_mediator" where
  "decode_mediator_withdraw = decode_mediator_announcement"

text \<open>\<^verbatim>\<open>strncpy\<close> of \<^term>\<open>n :: nat\<close> bytes: the string, padded with NULs.\<close>

definition strncpy :: "mem \<Rightarrow> nat \<Rightarrow> nat \<Rightarrow> bytes" where
  "strncpy m p n = (let s = c_str (mem_read m p n) in s @ replicate (n - length s) 0)"

text \<open>The target decoders also fill the caller's buffer for the LIID, which has
  \<^term>\<open>spacelen :: int\<close> bytes; the state of their loop is the target and the string in that
  buffer.\<close>

definition email_target_handler :: "int \<Rightarrow> (email_target \<times> cstr) handler" where
  "email_target_handler spacelen m f vallen valptr st =
     (case st of (tgt, liidspace) \<Rightarrow>
       if f = fieldtype_code OPENLI_PROTO_FIELD_EMAIL_TARGET
       then Some (tgt \<lparr> et_address := decode_string m valptr vallen \<rparr>, liidspace)
       else if f = fieldtype_code OPENLI_PROTO_FIELD_LIID
       then (if int vallen \<ge> spacelen then None
             else Some (tgt, strncpy m valptr vallen))
       else None)"

definition decode_email_target_announcement ::
  "mem \<Rightarrow> nat \<Rightarrow> nat \<Rightarrow> email_target \<Rightarrow> cstr \<Rightarrow> int \<Rightarrow> int \<times> email_target \<times> cstr" where
  "decode_email_target_announcement m msgbody len tgt liidspace spacelen =
     (case decode_fields (email_target_handler spacelen) m msgbody (msgbody + len)
             (tgt \<lparr> et_address := None, et_awaitingconfirm := 0 \<rparr>, liidspace) of
        (r, tgt', space') \<Rightarrow>
          if r = -1 then (-1, tgt', space')
          else if et_address tgt' = None then (-1, tgt', space')
          else (0, tgt', space'))"

definition decode_email_target_withdraw ::
  "mem \<Rightarrow> nat \<Rightarrow> nat \<Rightarrow> email_target \<Rightarrow> cstr \<Rightarrow> int \<Rightarrow> int \<times> email_target \<times> cstr" where
  "decode_email_target_withdraw = decode_email_target_announcement"

definition sip_target_handler :: "int \<Rightarrow> (sip_identity \<times> cstr) handler" where
  "sip_target_handler spacelen m f vallen valptr st =
     (case st of (sipid, liidspace) \<Rightarrow>
       if f = fieldtype_code OPENLI_PROTO_FIELD_SIP_USER
       then Some (sipid \<lparr> sip_username := decode_string m valptr vallen,
                          sip_username_len := int (strlen (mem_read m valptr vallen)) \<rparr>, liidspace)
       else if f = fieldtype_code OPENLI_PROTO_FIELD_SIP_REALM
       then Some (sipid \<lparr> sip_realm := decode_string m valptr vallen,
                          sip_realm_len := int (strlen (mem_read m valptr vallen)) \<rparr>, liidspace)
       else if f = fieldtype_code OPENLI_PROTO_FIELD_LIID
       then (if int vallen \<ge> spacelen then None
             else Some (sipid, strncpy m valptr vallen))
       else None)"

definition decode_sip_target_announcement ::
  "mem \<Rightarrow> nat \<Rightarrow> nat \<Rightarrow> sip_identity \<Rightarrow> cstr \<Rightarrow> int \<Rightarrow> int \<times> sip_identity \<times> cstr" where
  "decode_sip_target_announcement m msgbody len sipid liidspace spacelen =
     (case decode_fields (sip_target_handler spacelen) m msgbody (msgbody + len)
             (sipid \<lparr> sip_realm := None, sip_realm_len := 0, sip_username := None,
                      sip_username_len := 0, sip_awaitingconfirm := 0 \<rparr>, liidspace) of
        (r, sipid', space') \<Rightarrow>
          if r = -1 then (-1, sipid', space')
          else if sip_username sipid' = None then (-1, sipid', space')
          else (0, sipid', space'))"

definition decode_sip_target_withdraw ::
  "mem \<Rightarrow> nat \<Rightarrow> nat \<Rightarrow> sip_identity \<Rightarrow> cstr \<Rightarrow> int \<Rightarrow> int \<times> sip_identity \<times> cstr" where
  "decode_sip_target_withdraw = decode_sip_target_announcement"

subsection \<open>Core servers, defaults, static ranges\<close>

definition coreserver_handler :: "coreserver handler" where
  "coreserver_handler m f vallen valptr cs =
     (if f = fieldtype_code OPENLI_PROTO_FIELD_CORESERVER_TYPE
      then Some (cs \<lparr> cs_servertype := m valptr \<rparr>)
      else if f = fieldtype_code OPENLI_PROTO_FIELD_CORESERVER_IP
      then Some (cs \<lparr> cs_ipstr := decode_string m valptr vallen \<rparr>)
      else if f = fieldtype_code OPENLI_PROTO_FIELD_CORESERVER_PORT
      then Some (cs \<lparr> cs_portstr := decode_string m valptr vallen \<rparr>)
      else None)"

definition decode_coreserver_announcement ::
  "mem \<Rightarrow> nat \<Rightarrow> nat \<Rightarrow> coreserver \<Rightarrow> int \<times> coreserver" where
  "decode_coreserver_announcement m msgbody len cs =
     (case decode_fields coreserver_handler m msgbody (msgbody + len)
             (cs \<lparr> cs_servertype := OPENLI_CORE_SERVER_UNKNOWN, cs_ipstr := None,
                   cs_portstr := None, cs_info := None, cs_awaitingconfirm := 0,
                   cs_serverkey := None \<rparr>) of
        (r, cs') \<Rightarrow>
          if r = -1 then (-1, cs')
          else let cs'' = snd (construct_coreserver_key cs') in
            if cs_serverkey cs'' = None then (-1, cs'') else (0, cs''))"

definition decode_coreserver_withdraw ::
  "mem \<Rightarrow> nat \<Rightarrow> nat \<Rightarrow> coreserver \<Rightarrow> int \<times> coreserver" where
  "decode_coreserver_withdraw = decode_coreserver_announcement"

text \<open>Fields of other types are skipped in the two messages about defaults.\<close>

definition default_radius_handler :: "default_radius_user handler" where
  "default_radius_handler m f vallen valptr def =
     (if f = fieldtype_code OPENLI_PROTO_FIELD_USERNAME
      then Some (def \<lparr> dru_name := decode_string m valptr vallen,
                       dru_namelen := int (strlen (mem_read m valptr vallen)) \<rparr>)
      else Some def)"

definition decode_default_radius_announcement ::
  "mem \<Rightarrow> nat \<Rightarrow> nat \<Rightarrow> default_radius_user \<Rightarrow> int \<times> default_radius_user" where
  "decode_default_radius_announcement m msgbody len defuser =
     (case decode_fields default_radius_handler m msgbody (msgbody + len)
             (defuser \<lparr> dru_name := None, dru_namelen := 0, dru_awaitingconfirm := 0 \<rparr>) of
        (r, def') \<Rightarrow>
          if r = -1 then (-1, def')
          else if dru_name def' = None then (-1, def')
          else (0, def'))"

definition decode_default_radius_withdraw ::
  "mem \<Rightarrow> nat \<Rightarrow> nat \<Rightarrow> default_radius_user \<Rightarrow> int \<times> default_radius_user" where
  "decode_default_radius_withdraw = decode_default_radius_announcement"

definition default_compression_handler :: "u8 handler" where
  "default_compression_handler m f vallen valptr result =
     Some (if f = fieldtype_code OPENLI_PROTO_FIELD_DELIVER_COMPRESSED then m valptr else result)"

definition decode_default_email_compression_announcement ::
  "mem \<Rightarrow> nat \<Rightarrow> nat \<Rightarrow> u8 \<Rightarrow> int \<times> u8" where
  "decode_default_email_compression_announcement m msgbody len result =
     decode_fields default_compression_handler m msgbody (msgbody + len) result"

definition staticip_handler :: "static_ipranges handler" where
  "staticip_handler m f vallen valptr ipr =
     (if f = fieldtype_code OPENLI_PROTO_FIELD_LIID
      then Some (ipr \<lparr> ipr_liid := decode_string m valptr vallen \<rparr>)
      else if f = fieldtype_code OPENLI_PROTO_FIELD_STATICIP_RANGE
      then Some (ipr \<lparr> ipr_rangestr := decode_string m valptr vallen \<rparr>)
      else if f = fieldtype_code OPENLI_PROTO_FIELD_CIN
      then Some (ipr \<lparr> ipr_cin := load32 m valptr \<rparr>)
      else None)"

definition decode_staticip_announcement ::
  "mem \<Rightarrow> nat \<Rightarrow> nat \<Rightarrow> static_ipranges \<Rightarrow> int \<times> static_ipranges" where
  "decode_staticip_announcement m msgbody len ipr =
     decode_fields staticip_handler m msgbody (msgbody + len)
       (ipr \<lparr> ipr_rangestr := None, ipr_awaitingconfirm := 0, ipr_liid := None, ipr_cin := 1 \<rparr>)"

definition decode_staticip_removal ::
  "mem \<Rightarrow> nat \<Rightarrow> nat \<Rightarrow> static_ipranges \<Rightarrow> int \<times> static_ipranges" where
  "decode_staticip_removal = decode_staticip_announcement"

definition decode_staticip_modify ::
  "mem \<Rightarrow> nat \<Rightarrow> nat \<Rightarrow> static_ipranges \<Rightarrow> int \<times> static_ipranges" where
  "decode_staticip_modify = decode_staticip_announcement"

subsection \<open>HI1 notifications, agencies, LIID mappings\<close>

definition hi1_handler :: "hi1_notify_data handler" where
  "hi1_handler m f vallen valptr nd =
     (if f = fieldtype_code OPENLI_PROTO_FIELD_LEAID
      then Some (nd \<lparr> hi1_agencyid := decode_string m valptr vallen \<rparr>)
      else if f = fieldtype_code OPENLI_PROTO_FIELD_LIID
      then Some (nd \<lparr> hi1_liid := decode_string m valptr vallen \<rparr>)
      else if f = fieldtype_code OPENLI_PROTO_FIELD_AUTHCC
      then Some (nd \<lparr> hi1_authcc := decode_string m valptr vallen \<rparr>)
      else if f = fieldtype_code OPENLI_PROTO_FIELD_DELIVCC
      then Some (nd \<lparr> hi1_delivcc := decode_string m valptr vallen \<rparr>)
      else if f = fieldtype_code OPENLI_PROTO_FIELD_USERNAME
      then Some (nd \<lparr> hi1_target_info := decode_string m valptr vallen \<rparr>)
      else if f = fieldtype_code OPENLI_PROTO_FIELD_HI1_NOTIFY_TYPE
      then Some (nd \<lparr> hi1_notify_type := load32 m valptr \<rparr>)
      else if f = fieldtype_code OPENLI_PROTO_FIELD_SEQNO
      then Some (nd \<lparr> hi1_seqno := load32 m valptr \<rparr>)
      else if f = fieldtype_code OPENLI_PROTO_FIELD_TS_SEC
      then Some (nd \<lparr> hi1_ts_sec := load64 m valptr \<rparr>)
      else if f = fieldtype_code OPENLI_PROTO_FIELD_TS_USEC
      then Some (nd \<lparr> hi1_ts_usec := load32 m valptr \<rparr>)
      else None)"

definition decode_hi1_notification :: "mem \<Rightarrow> nat \<Rightarrow> nat \<Rightarrow> int \<times> hi1_notify_data" where
  "decode_hi1_notification m msgbody len =
     decode_fields hi1_handler m msgbody (msgbody + len)
       \<lparr> hi1_notify_type = 0, hi1_liid = None, hi1_authcc = None, hi1_delivcc = None,
         hi1_agencyid = None, hi1_seqno = 0, hi1_ts_sec = 0, hi1_ts_usec = 0,
         hi1_target_info = None \<rparr>"

definition lea_handler :: "liagency handler" where
  "lea_handler m f vallen valptr lea =
     (if f = fieldtype_code OPENLI_PROTO_FIELD_LEAID
      then Some (lea \<lparr> lea_agencyid := decode_string m valptr vallen \<rparr>)
      else if f = fieldtype_code OPENLI_PROTO_FIELD_HI2IP
      then Some (lea \<lparr> lea_hi2_ipstr := decode_string m valptr vallen \<rparr>)
      else if f = fieldtype_code OPENLI_PROTO_FIELD_HI2PORT
      then Some (lea \<lparr> lea_hi2_portstr := decode_string m valptr vallen \<rparr>)
      else if f = fieldtype_code OPENLI_PROTO_FIELD_HI3IP
      then Some (lea \<lparr> lea_hi3_ipstr := decode_string m valptr vallen \<rparr>)
      else if f = fieldtype_code OPENLI_PROTO_FIELD_HI3PORT
      then Some (lea \<lparr> lea_hi3_portstr := decode_string m valptr vallen \<rparr>)
      else if f = fieldtype_code OPENLI_PROTO_FIELD_KAFREQ
      then Some (lea \<lparr> lea_keepalivefreq := load32 m valptr \<rparr>)
      else if f = fieldtype_code OPENLI_PROTO_FIELD_KAWAIT
      then Some (lea \<lparr> lea_keepalivewait := load32 m valptr \<rparr>)
      else None)"

definition decode_lea_announcement ::
  "mem \<Rightarrow> nat \<Rightarrow> nat \<Rightarrow> liagency \<Rightarrow> int \<times> liagency" where
  "decode_lea_announcement m msgbody len lea =
     decode_fields lea_handler m msgbody (msgbody + len)
       (lea \<lparr> lea_hi2_ipstr := None, lea_hi2_portstr := None, lea_hi3_ipstr := None,
              lea_hi3_portstr := None, lea_agencyid := None, lea_keepalivefreq := 300,
              lea_keepalivewait := 0 \<rparr>)"

definition decode_lea_withdrawal :: "mem \<Rightarrow> nat \<Rightarrow> nat \<Rightarrow> liagency \<Rightarrow> int \<times> liagency" where
  "decode_lea_withdrawal = decode_lea_announcement"

text \<open>The outputs \<^verbatim>\<open>*agency\<close> and \<^verbatim>\<open>*liid\<close>, which keep the caller's values when a field is
  missing.\<close>

definition liid_mapping_handler :: "(cstr option \<times> cstr option) handler" where
  "liid_mapping_handler m f vallen valptr st =
     (if f = fieldtype_code OPENLI_PROTO_FIELD_LIID
      then Some (fst st, decode_string m valptr vallen)
      else if f = fieldtype_code OPENLI_PROTO_FIELD_LEAID
      then Some (decode_string m valptr vallen, snd st)
      else None)"

definition decode_liid_mapping ::
  "mem \<Rightarrow> nat \<Rightarrow> nat \<Rightarrow> cstr option \<Rightarrow> cstr option \<Rightarrow> int \<times> cstr option \<times> cstr option" where
  "decode_liid_mapping m msgbody len agency liid =
     decode_fields liid_mapping_handler m msgbody (msgbody + len) (agency, liid)"

definition cease_handler :: "cstr option handler" where
  "cease_handler m f vallen valptr liid =
     (if f = fieldtype_code OPENLI_PROTO_FIELD_LIID
      then Some (decode_string m valptr vallen) else None)"

definition decode_cease_mediation ::
  "mem \<Rightarrow> nat \<Rightarrow> nat \<Rightarrow> cstr option \<Rightarrow> int \<times> cstr option" where
  "decode_cease_mediation m msgbody len liid =
     decode_fields cease_handler m msgbody (msgbody + len) liid"

end
