(* ===== verification/Net_Roundtrip.thy ===== *)
theory Net_Roundtrip
  imports Net_Encode Net_Decode
begin

text \<open>
  What the decoders make of what the encoders send. The locale \<^term>\<open>tlv_handler\<close> says what the
  field walk needs of a handler: it looks at nothing but the value of the field, provided the
  value is as long as the type of the field requires. The walk over a sequence of fields is
  then the fold of the handler over their values. Each message's handler is an instance, and
  the round trips are evaluations of the fold.
\<close>

text \<open>The number of bytes that the decoders read for a field of fixed size.\<close>

definition field_need :: "nat \<Rightarrow> nat" where
  "field_need f =
     (if f \<in> fieldtype_code ` {OPENLI_PROTO_FIELD_MEDIATORID, OPENLI_PROTO_FIELD_VENDMIRRORID,
            OPENLI_PROTO_FIELD_KAFREQ, OPENLI_PROTO_FIELD_KAWAIT, OPENLI_PROTO_FIELD_ACCESSTYPE,
            OPENLI_PROTO_FIELD_CIN, OPENLI_PROTO_FIELD_INTOPTIONS,
            OPENLI_PROTO_FIELD_HI1_NOTIFY_TYPE, OPENLI_PROTO_FIELD_SEQNO,
            OPENLI_PROTO_FIELD_TS_USEC, OPENLI_PROTO_FIELD_TOMEDIATE,
            OPENLI_PROTO_FIELD_PAYLOAD_ENCRYPTION} then 4
      else if f \<in> fieldtype_code ` {OPENLI_PROTO_FIELD_INTERCEPTID, OPENLI_PROTO_FIELD_TS_SEC,
            OPENLI_PROTO_FIELD_INTERCEPT_START_TIME, OPENLI_PROTO_FIELD_INTERCEPT_END_TIME} then 8
      else if f \<in> fieldtype_code ` {OPENLI_PROTO_FIELD_CORESERVER_TYPE,
            OPENLI_PROTO_FIELD_DELIVER_COMPRESSED} then 1
      else 0)"

definition field_ok :: "field \<Rightarrow> bool" where
  "field_ok f \<longleftrightarrow> fst f < 65536 \<and> length (snd f) < 65536 \<and> field_need (fst f) \<le> length (snd f)"

text \<open>A handler applied to the value of a field, and to a sequence of fields.\<close>

definition on_value :: "'s handler \<Rightarrow> field \<Rightarrow> 's \<Rightarrow> 's option" where
  "on_value h f s = h (mem_of (snd f)) (fst f) (length (snd f)) 0 s"

fun on_fields :: "'s handler \<Rightarrow> field list \<Rightarrow> 's \<Rightarrow> 's option" where
  "on_fields h [] s = Some s"
| "on_fields h (f # fs) s = Option.bind (on_value h f s) (on_fields h fs)"

lemma load_local:
  assumes "mem_at m v bs"
  shows "4 \<le> length bs \<Longrightarrow> load32 m v = load32 (mem_of bs) 0"
    "8 \<le> length bs \<Longrightarrow> load64 m v = load64 (mem_of bs) 0"
    "1 \<le> length bs \<Longrightarrow> m v = mem_of bs 0"
    "mem_read m v (length bs) = mem_read (mem_of bs) 0 (length bs)"
  using mem_at_agree [OF assms mem_at_mem_of, of 4] mem_at_agree [OF assms mem_at_mem_of, of 8]
    mem_at_agree [OF assms mem_at_mem_of, of 1] mem_at_agree [OF assms mem_at_mem_of, of "length bs"]
  by (auto simp: load32_def load64_def)

lemma decode_tlv_at:
  assumes "mem_at m p (tlv_bytes t v)" "t < 65536" "length v < 65536" "p + 4 + length v \<le> e"
  shows "decode_tlv m p e = (if v = [] \<and> p + 4 = e then None else Some (t, length v, p + 4))"
proof -
  have be: "be_bytes 2 n = host16 (htons (word_of_nat n))" if "n < 65536" for n
    using that by (simp add: swap_macros host16_byteswap16 unat_of_nat)
  have "mem_at m p (host16 (htons (word_of_nat t)))"
    "mem_at m (p + 2) (host16 (htons (word_of_nat (length v))))"
    using assms(1-3) by (auto simp: tlv_bytes_def be mem_at_append)
  then have "load16 m p = htons (word_of_nat t)" "load16 m (p + 2) = htons (word_of_nat (length v))"
    by (auto dest: load16_host)
  moreover have "v \<noteq> [] \<Longrightarrow> p + 4 < e"
    using assms(4) by (cases v) auto
  ultimately show ?thesis
    using assms(2-4)
    by (cases "v = []") (auto simp: decode_tlv_def swap_macros unat_of_nat Let_def)
qed

locale tlv_handler =
  fixes h :: "'s handler"
  assumes value_only:
    "mem_at m v bs \<Longrightarrow> field_need f \<le> length bs \<Longrightarrow>
     h m f (length bs) v s = h (mem_of bs) f (length bs) 0 s"
begin

lemma decode_step:
  assumes "mem_at m p (field_bytes f)" "field_ok f" "p + length (field_bytes f) \<le> e"
    and "snd f \<noteq> [] \<or> p + length (field_bytes f) < e"
  shows "decode_fields h m p e s =
    (case on_value h f s of None \<Rightarrow> (-1, s)
     | Some s' \<Rightarrow> decode_fields h m (p + length (field_bytes f)) e s')"
proof -
  have tlv: "decode_tlv m p e = Some (fst f, length (snd f), p + 4)"
    using decode_tlv_at [of m p "fst f" "snd f" e] assms
    by (auto simp: field_bytes_def field_ok_def)
  have "mem_at m (p + 4) (snd f)"
    using assms(1) by (simp add: field_bytes_def tlv_bytes_def mem_at_append numeral_eq_Suc)
  then have "h m (fst f) (length (snd f)) (p + 4) s = on_value h f s"
    using value_only [of m "p + 4" "snd f" "fst f" s] assms(2)
    by (simp add: on_value_def field_ok_def)
  moreover have len: "length (field_bytes f) = length (snd f) + 4" by (simp add: field_bytes_def)
  moreover have "p < e" using assms(3) len by simp
  ultimately show ?thesis
    using tlv unfolding len by (simp add: decode_fields.simps [of h m p e])
qed

lemma decode_on_fields:
  assumes "mem_at m p (fields_bytes fs)" "list_all field_ok fs"
    and "fs = [] \<or> snd (last fs) \<noteq> []" "on_fields h fs s = Some s'"
  shows "decode_fields h m p (p + length (fields_bytes fs)) s = (0, s')"
  using assms
proof (induction fs arbitrary: p s)
  case Nil
  then show ?case by (simp add: decode_fields.simps)
next
  case (Cons f fs)
  then obtain s1 where s1: "on_value h f s = Some s1" "on_fields h fs s1 = Some s'"
    by (auto simp: bind_eq_Some_conv)
  have "length (fields_bytes fs) > 0" if "fs \<noteq> []"
    using that by (cases fs) (auto simp: field_bytes_def)
  then have "decode_fields h m p (p + length (fields_bytes (f # fs))) s =
      decode_fields h m (p + length (field_bytes f)) (p + length (fields_bytes (f # fs))) s1"
    using Cons.prems s1 by (subst decode_step [of m p f]) (auto simp: mem_at_append split: if_splits)
  also have "\<dots> = (0, s')"
    using Cons.IH [of "p + length (field_bytes f)" s1] Cons.prems s1(2)
    by (auto simp: mem_at_append add.assoc split: if_splits)
  finally show ?case .
qed

lemma decode_empty_last:
  assumes "mem_at m p (fields_bytes (fs @ [(t, [])]))" "list_all field_ok fs" "t < 65536"
    and "on_fields h fs s = Some s'"
  shows "decode_fields h m p (p + length (fields_bytes (fs @ [(t, [])]))) s = (-1, s')"
  using assms
proof (induction fs arbitrary: p s)
  case Nil
  then show ?case
    using decode_tlv_at [of m p t "[]" "p + 4"]
    by (simp add: decode_fields.simps [of h m p] field_bytes_def)
next
  case (Cons f fs)
  then obtain s1 where s1: "on_value h f s = Some s1" "on_fields h fs s1 = Some s'"
    by (auto simp: bind_eq_Some_conv)
  have "decode_fields h m p (p + length (fields_bytes ((f # fs) @ [(t, [])]))) s =
      decode_fields h m (p + length (field_bytes f))
        (p + length (fields_bytes ((f # fs) @ [(t, [])]))) s1"
    using Cons.prems s1 by (subst decode_step [of m p f]) (auto simp: mem_at_append field_bytes_def)
  also have "\<dots> = (-1, s')"
    using Cons.IH [of "p + length (field_bytes f)" s1] Cons.prems s1(2)
    by (auto simp: mem_at_append add.assoc)
  finally show ?case .
qed

end

subsection \<open>The handlers\<close>

lemma field_loads:
  assumes "mem_at m v bs" "field_need f \<le> length bs"
  shows "(f = fieldtype_code OPENLI_PROTO_FIELD_MEDIATORID \<longrightarrow> load32 m v = load32 (mem_of bs) 0) \<and>
    (f = fieldtype_code OPENLI_PROTO_FIELD_VENDMIRRORID \<longrightarrow> load32 m v = load32 (mem_of bs) 0) \<and>
    (f = fieldtype_code OPENLI_PROTO_FIELD_KAFREQ \<longrightarrow> load32 m v = load32 (mem_of bs) 0) \<and>
    (f = fieldtype_code OPENLI_PROTO_FIELD_KAWAIT \<longrightarrow> load32 m v = load32 (mem_of bs) 0) \<and>
    (f = fieldtype_code OPENLI_PROTO_FIELD_ACCESSTYPE \<longrightarrow> load32 m v = load32 (mem_of bs) 0) \<and>
    (f = fieldtype_code OPENLI_PROTO_FIELD_CIN \<longrightarrow> load32 m v = load32 (mem_of bs) 0) \<and>
    (f = fieldtype_code OPENLI_PROTO_FIELD_INTOPTIONS \<longrightarrow> load32 m v = load32 (mem_of bs) 0) \<and>
    (f = fieldtype_code OPENLI_PROTO_FIELD_HI1_NOTIFY_TYPE \<longrightarrow> load32 m v = load32 (mem_of bs) 0) \<and>
    (f = fieldtype_code OPENLI_PROTO_FIELD_SEQNO \<longrightarrow> load32 m v = load32 (mem_of bs) 0) \<and>
    (f = fieldtype_code OPENLI_PROTO_FIELD_TS_USEC \<longrightarrow> load32 m v = load32 (mem_of bs) 0) \<and>
    (f = fieldtype_code OPENLI_PROTO_FIELD_TOMEDIATE \<longrightarrow> load32 m v = load32 (mem_of bs) 0) \<and>
    (f = fieldtype_code OPENLI_PROTO_FIELD_PAYLOAD_ENCRYPTION \<longrightarrow> load32 m v = load32 (mem_of bs) 0) \<and>
    (f = fieldtype_code OPENLI_PROTO_FIELD_INTERCEPTID \<longrightarrow> load64 m v = load64 (mem_of bs) 0) \<and>
    (f = fieldtype_code OPENLI_PROTO_FIELD_TS_SEC \<longrightarrow> load64 m v = load64 (mem_of bs) 0) \<and>
    (f = fieldtype_code OPENLI_PROTO_FIELD_INTERCEPT_START_TIME \<longrightarrow> load64 m v = load64 (mem_of bs) 0) \<and>
    (f = fieldtype_code OPENLI_PROTO_FIELD_INTERCEPT_END_TIME \<longrightarrow> load64 m v = load64 (mem_of bs) 0) \<and>
    (f = fieldtype_code OPENLI_PROTO_FIELD_CORESERVER_TYPE \<longrightarrow> m v = mem_of bs 0) \<and>
    (f = fieldtype_code OPENLI_PROTO_FIELD_DELIVER_COMPRESSED \<longrightarrow> m v = mem_of bs 0) \<and>
    mem_read m v (length bs) = mem_read (mem_of bs) 0 (length bs)"
  using load_local [OF assms(1)] assms(2) by (intro conjI impI) (simp_all add: field_need_def)

named_theorems handler_defs \<open>the field handlers\<close>

lemmas handler_definitions [handler_defs] =
  emailintercept_handler_def voipintercept_handler_def ipintercept_handler_def set_common_def
  mediator_handler_def email_target_handler_def sip_target_handler_def coreserver_handler_def
  default_radius_handler_def default_compression_handler_def staticip_handler_def hi1_handler_def
  lea_handler_def liid_mapping_handler_def cease_handler_def

interpretation email_dec: tlv_handler emailintercept_handler
  by unfold_locales
    (drule (1) field_loads, simp add: handler_defs decode_string_def cong: if_cong)

interpretation voip_dec: tlv_handler voipintercept_handler
  by unfold_locales
    (drule (1) field_loads, simp add: handler_defs decode_string_def cong: if_cong)

interpretation ip_dec: tlv_handler ipintercept_handler
  by unfold_locales
    (drule (1) field_loads, simp add: handler_defs decode_string_def cong: if_cong)

interpretation mediator_dec: tlv_handler mediator_handler
  by unfold_locales
    (drule (1) field_loads, simp add: handler_defs decode_string_def cong: if_cong)

interpretation email_target_dec: tlv_handler "email_target_handler n" for n
  by unfold_locales
    (drule (1) field_loads, simp add: handler_defs decode_string_def strncpy_def split_beta cong: if_cong)

interpretation sip_target_dec: tlv_handler "sip_target_handler n" for n
  by unfold_locales
    (drule (1) field_loads, simp add: handler_defs decode_string_def strncpy_def split_beta cong: if_cong)

interpretation coreserver_dec: tlv_handler coreserver_handler
  by unfold_locales
    (drule (1) field_loads, simp add: handler_defs decode_string_def cong: if_cong)

interpretation radius_dec: tlv_handler default_radius_handler
  by unfold_locales
    (drule (1) field_loads, simp add: handler_defs decode_string_def cong: if_cong)

interpretation compression_dec: tlv_handler default_compression_handler
  by unfold_locales
    (drule (1) field_loads, simp add: handler_defs decode_string_def cong: if_cong)

interpretation staticip_dec: tlv_handler staticip_handler
  by unfold_locales
    (drule (1) field_loads, simp add: handler_defs decode_string_def cong: if_cong)

interpretation hi1_dec: tlv_handler hi1_handler
  by unfold_locales
    (drule (1) field_loads, simp add: handler_defs decode_string_def cong: if_cong)

interpretation lea_dec: tlv_handler lea_handler
  by unfold_locales
    (drule (1) field_loads, simp add: handler_defs decode_string_def cong: if_cong)

interpretation liid_dec: tlv_handler liid_mapping_handler
  by unfold_locales
    (drule (1) field_loads, simp add: handler_defs decode_string_def cong: if_cong)

interpretation cease_dec: tlv_handler cease_handler
  by unfold_locales
    (drule (1) field_loads, simp add: handler_defs decode_string_def cong: if_cong)

subsection \<open>Round trips\<close>

lemma mem_of_loads [simp]:
  "load32 (mem_of (host32 w)) 0 = w" "load64 (mem_of (host64 x)) 0 = x" "mem_of [b] 0 = b"
  "mem_read (mem_of bs) 0 (length bs) = bs"
  using load32_host [OF mem_at_mem_of] load64_host [OF mem_at_mem_of] mem_at_mem_of [of bs]
  by (simp_all add: mem_at_def) (simp add: mem_of_def)

lemma strncpy_mem_of [simp]: "no_nul bs \<Longrightarrow> strncpy (mem_of bs) 0 (length bs) = bs"
  by (simp add: strncpy_def Let_def)

lemma on_value_fields [simp]:
  "on_value h (sfield t (Some b)) s = h (mem_of b) (fieldtype_code t) (length b) 0 s"
  "on_value h (wfield t v) s = h (mem_of v) (fieldtype_code t) (length v) 0 s"
  by (simp_all add: on_value_def sfield_def wfield_def)

lemma on_fields_append [simp]:
  "on_fields h (xs @ ys) s = Option.bind (on_fields h xs s) (on_fields h ys)"
  by (induction xs arbitrary: s) (auto simp: bind_assoc split: bind_splits)

lemma field_ok_fields [simp]:
  "field_ok (sfield t (Some b)) \<longleftrightarrow> length b < 65536 \<and> field_need (fieldtype_code t) \<le> length b"
  "field_ok (wfield t v) \<longleftrightarrow> length v < 65536 \<and> field_need (fieldtype_code t) \<le> length v"
  by (simp_all add: field_ok_def sfield_def wfield_def)

lemma snd_fields [simp]: "snd (sfield t (Some b)) = b" "snd (wfield t v) = v"
  by (simp_all add: sfield_def wfield_def)

lemma host_nonempty [simp]: "host32 w \<noteq> []" "host64 x \<noteq> []"
  by (metis length_host(2) list.size(3) zero_neq_numeral,
      metis length_host(3) list.size(3) zero_neq_numeral)

lemma decode_lea:
  assumes "lea_ok lea" "mem_at m p (fields_bytes (lea_fields lea))"
  shows "decode_lea_announcement m p (length (fields_bytes (lea_fields lea))) lea0 = (0, lea)"
  unfolding decode_lea_announcement_def
proof (rule lea_dec.decode_on_fields [OF assms(2)])
  show "list_all field_ok (lea_fields lea)"
    using assms(1) by (auto simp: lea_ok_def lea_fields_def field_need_def)
  show "lea_fields lea = [] \<or> snd (last (lea_fields lea)) \<noteq> []"
    by (simp add: lea_fields_def)
  show "on_fields lea_handler (lea_fields lea)
      (lea0 \<lparr> lea_hi2_ipstr := None, lea_hi2_portstr := None, lea_hi3_ipstr := None,
              lea_hi3_portstr := None, lea_agencyid := None, lea_keepalivefreq := 300,
              lea_keepalivewait := 0 \<rparr>) = Some lea"
    using assms(1) by (cases lea; cases lea0) (auto simp: lea_ok_def lea_fields_def lea_handler_def decode_string_def)
qed

text \<open>What the receiver has of an intercept's common members: all the sender's, except those the
  message does not carry.\<close>

definition received_common :: "intercept_common \<Rightarrow> intercept_common \<Rightarrow> intercept_common" where
  "received_common c0 c =
     c \<lparr> ic_seqtrackerid := ic_seqtrackerid c0, ic_hi1_seqno := ic_hi1_seqno c0,
         ic_local := ic_local c0 \<rparr>"

lemmas field_evals = field_need_def decode_string_def received_common_def reset_common_def

lemma decode_mediator:
  assumes "mediator_ok med" "med_portstr med \<noteq> Some []"
    and "mem_at m p (fields_bytes (mediator_fields med))"
  shows "decode_mediator_announcement m p (length (fields_bytes (mediator_fields med))) med0 = (0, med)"
  unfolding decode_mediator_announcement_def
  by (rule mediator_dec.decode_on_fields [OF assms(3)];
      use assms(1,2) in \<open>cases med; cases med0; auto simp: mediator_ok_def mediator_fields_def mediator_handler_def field_evals\<close>)

lemma decode_hi1:
  assumes "hi1_ok nd" "hi1_target_info nd \<noteq> Some []" "mem_at m p (fields_bytes (hi1_fields nd))"
  shows "decode_hi1_notification m p (length (fields_bytes (hi1_fields nd))) = (0, nd)"
  unfolding decode_hi1_notification_def
  by (rule hi1_dec.decode_on_fields [OF assms(3)];
      use assms(1,2) in \<open>cases nd; auto simp: hi1_ok_def hi1_fields_def hi1_handler_def field_evals\<close>)

lemma decode_staticip:
  assumes "sendable (ipr_rangestr ipr)" "sendable (ic_liid c)"
    and "mem_at m p (fields_bytes (staticip_fields ipr c))"
  shows "decode_staticip_announcement m p (length (fields_bytes (staticip_fields ipr c))) ipr0 =
    (0, ipr \<lparr> ipr_liid := ic_liid c, ipr_awaitingconfirm := 0 \<rparr>)"
  unfolding decode_staticip_announcement_def
  by (rule staticip_dec.decode_on_fields [OF assms(3)];
      use assms(1,2) in \<open>cases ipr; cases ipr0; auto simp: staticip_fields_def staticip_handler_def field_evals\<close>)

lemma decode_liid_map:
  assumes "sendable agency" "sendable liid" "liid \<noteq> Some []"
    and "mem_at m p (fields_bytes (liid_mapping_fields agency liid))"
  shows "decode_liid_mapping m p (length (fields_bytes (liid_mapping_fields agency liid))) a0 l0 =
    (0, agency, liid)"
  unfolding decode_liid_mapping_def
  by (rule liid_dec.decode_on_fields [OF assms(4)];
      use assms(1-3) in \<open>auto simp: liid_mapping_fields_def liid_mapping_handler_def field_evals\<close>)

lemma decode_cease:
  assumes "sendable liid" "liid \<noteq> Some []" "mem_at m p (fields_bytes (cease_fields liid))"
  shows "decode_cease_mediation m p (length (fields_bytes (cease_fields liid))) l0 = (0, liid)"
  unfolding decode_cease_mediation_def
  by (rule cease_dec.decode_on_fields [OF assms(3)];
      use assms(1-2) in \<open>auto simp: cease_fields_def cease_handler_def field_evals\<close>)

lemma decode_emailintercept:
  assumes "common_ok (em_common em)" "mem_at m p (fields_bytes (emailintercept_fields em))"
  shows "decode_emailintercept_start m p (length (fields_bytes (emailintercept_fields em))) em0 =
    (0, em \<lparr> em_common := received_common (em_common em0) (em_common em), em_targets := [],
             em_awaitingconfirm := 0 \<rparr>)"
  unfolding decode_emailintercept_start_def
  by (rule email_dec.decode_on_fields [OF assms(2)];
      use assms(1) in \<open>cases em; cases em0; auto simp: common_ok_def emailintercept_fields_def common_fields_def
      emailintercept_handler_def set_common_def field_evals\<close>)

lemma decode_voipintercept:
  assumes "common_ok (vint_common v)" "mem_at m p (fields_bytes (voipintercept_fields v))"
  shows "decode_voipintercept_start m p (length (fields_bytes (voipintercept_fields v))) v0 =
    (0, v \<lparr> vint_internalid := 0,
            vint_common := received_common (vint_common v0) (vint_common v),
            vint_targets := [], vint_awaitingconfirm := 0, vint_active := 1,
            vint_cin_callid_map := [], vint_cin_sdp_map := [], vint_active_cins := [],
            vint_active_registrations := [] \<rparr>)"
  unfolding decode_voipintercept_start_def
  by (rule voip_dec.decode_on_fields [OF assms(2)];
      use assms(1) in \<open>cases v; cases v0; auto simp: common_ok_def voipintercept_fields_def
        common_fields_def voipintercept_handler_def set_common_def field_evals\<close>)

lemma decode_ipintercept:
  assumes "ipintercept_ok ip" "mem_at m p (fields_bytes (ipintercept_fields ip))"
  shows "decode_ipintercept_start m p (length (fields_bytes (ipintercept_fields ip))) ip0 =
    (0, ip \<lparr> ipi_common := (received_common (ipi_common ip0) (ipi_common ip)) \<lparr> ic_seqtrackerid := 0 \<rparr>,
             ipi_username := (if ipi_username ip = Some [] then None else ipi_username ip),
             ipi_statics := [], ipi_awaitingconfirm := 0 \<rparr>)"
  unfolding decode_ipintercept_start_def
  by (rule ip_dec.decode_on_fields [OF assms(2)];
      use assms(1) in \<open>cases ip; cases ip0; auto simp: ipintercept_ok_def common_ok_def
        ipintercept_fields_def ip_fields_def common_fields_def ipintercept_handler_def
        set_common_def field_evals split: if_splits\<close>)

lemma decode_email_target:
  assumes "sendable (et_address tgt)" "et_address tgt \<noteq> Some []" "ic_liid c = Some liid"
    and "no_nul liid" "length liid \<le> 4092" "int (length liid) < spacelen"
    and "mem_at m p (fields_bytes (email_target_fields tgt c))"
  shows "decode_email_target_announcement m p (length (fields_bytes (email_target_fields tgt c)))
      tgt0 space spacelen = (0, tgt \<lparr> et_awaitingconfirm := 0 \<rparr>, liid)"
proof -
  have "decode_fields (email_target_handler spacelen) m p
      (p + length (fields_bytes (email_target_fields tgt c)))
      (tgt0 \<lparr> et_address := None, et_awaitingconfirm := 0 \<rparr>, space) =
    (0, (tgt \<lparr> et_awaitingconfirm := 0 \<rparr>, liid))"
    by (rule email_target_dec.decode_on_fields [OF assms(7)];
        use assms(1-6) in \<open>cases tgt; cases tgt0; auto simp: email_target_fields_def
          email_target_handler_def field_evals\<close>)
  then show ?thesis
    using assms(1) by (auto simp: decode_email_target_announcement_def)
qed

lemma decode_sip_target:
  assumes "sip_identity_ok sipid" "sip_username sipid \<noteq> Some []" "sip_realm sipid \<noteq> Some []"
    and "sip_realm sipid = None \<longrightarrow> sip_realm_len sipid = 0" "ic_liid c = Some liid"
    and "no_nul liid" "length liid \<le> 4092" "int (length liid) < spacelen"
    and "mem_at m p (fields_bytes (sip_target_fields sipid c))"
  shows "decode_sip_target_announcement m p (length (fields_bytes (sip_target_fields sipid c)))
      sipid0 space spacelen =
    (0, sipid \<lparr> sip_awaitingconfirm := 0, sip_active := sip_active sipid0 \<rparr>, liid)"
proof -
  have "decode_fields (sip_target_handler spacelen) m p
      (p + length (fields_bytes (sip_target_fields sipid c)))
      (sipid0 \<lparr> sip_realm := None, sip_realm_len := 0, sip_username := None,
                sip_username_len := 0, sip_awaitingconfirm := 0 \<rparr>, space) =
    (0, (sipid \<lparr> sip_awaitingconfirm := 0, sip_active := sip_active sipid0 \<rparr>, liid))"
    by (rule sip_target_dec.decode_on_fields [OF assms(9)];
        use assms(1-8) in \<open>cases sipid; cases sipid0; auto simp: sip_identity_ok_def
          sip_target_fields_def sip_target_handler_def field_evals\<close>)
  then show ?thesis
    using assms(1) by (auto simp: decode_sip_target_announcement_def sip_identity_ok_def)
qed

lemma decode_coreserver:
  assumes "coreserver_ok cs" "cs_ipstr cs \<noteq> Some []" "cs_portstr cs \<noteq> Some []"
    and "mem_at m p (fields_bytes (coreserver_fields cs cstype))"
  shows "decode_coreserver_announcement m p (length (fields_bytes (coreserver_fields cs cstype))) cs0 =
    (0, snd (construct_coreserver_key
          (cs0 \<lparr> cs_serverkey := None, cs_servertype := cstype, cs_ipstr := cs_ipstr cs,
                 cs_portstr := cs_portstr cs, cs_info := None, cs_awaitingconfirm := 0 \<rparr>)))"
proof -
  have "decode_fields coreserver_handler m p (p + length (fields_bytes (coreserver_fields cs cstype)))
      (cs0 \<lparr> cs_servertype := OPENLI_CORE_SERVER_UNKNOWN, cs_ipstr := None, cs_portstr := None,
             cs_info := None, cs_awaitingconfirm := 0, cs_serverkey := None \<rparr>) =
    (0, cs0 \<lparr> cs_serverkey := None, cs_servertype := cstype, cs_ipstr := cs_ipstr cs,
              cs_portstr := cs_portstr cs, cs_info := None, cs_awaitingconfirm := 0 \<rparr>)"
    by (rule coreserver_dec.decode_on_fields [OF assms(4)];
        use assms(1-3) in \<open>cases cs; cases cs0; auto simp: coreserver_ok_def coreserver_fields_def
          coreserver_handler_def field_evals\<close>)
  then show ?thesis
    using assms(1)
    by (auto simp: decode_coreserver_announcement_def coreserver_ok_def construct_coreserver_key_def
        Let_def)
qed

lemma decode_default_radius:
  assumes "len_agrees (dru_name def) (dru_namelen def)" "dru_name def \<noteq> Some []"
    and "mem_at m p (fields_bytes (radius_fields def))"
  shows "decode_default_radius_announcement m p (length (fields_bytes (radius_fields def))) def0 =
    (0, def \<lparr> dru_awaitingconfirm := 0 \<rparr>)"
proof -
  have "decode_fields default_radius_handler m p (p + length (fields_bytes (radius_fields def)))
      (def0 \<lparr> dru_name := None, dru_namelen := 0, dru_awaitingconfirm := 0 \<rparr>) =
    (0, def \<lparr> dru_awaitingconfirm := 0 \<rparr>)"
    by (rule radius_dec.decode_on_fields [OF assms(3)];
        use assms(1,2) in \<open>cases def; cases def0; auto simp: radius_fields_def
          default_radius_handler_def field_evals\<close>)
  then show ?thesis
    using assms(1) by (auto simp: decode_default_radius_announcement_def)
qed

lemma decode_default_compression:
  assumes "mem_at m p (fields_bytes (compression_fields x))"
  shows "decode_default_email_compression_announcement m p
    (length (fields_bytes (compression_fields x))) x0 = (0, x)"
  unfolding decode_default_email_compression_announcement_def
  by (rule compression_dec.decode_on_fields [OF assms];
      auto simp: compression_fields_def default_compression_handler_def field_evals)

end
