(* ===== verification/Net_Stream.thy ===== *)
theory Net_Stream
  imports Net_Buffer
begin

text \<open>
  The two ends of a connection. The sender queues messages on a network buffer and transmits
  them in pieces; the receiver reads the stream in arbitrary chunks and splits it into
  messages again (\<^verbatim>\<open>transmit_net_buffer\<close> and \<^verbatim>\<open>receive_net_buffer\<close> in
  \<^verbatim>\<open>src/src/netcomms.c\<close>). The sender's buffer provides the byte-stream interface; the
  receiver delivers exactly the messages of the stream within a bounded allocation.
\<close>

subsection \<open>The sender\<close>

definition push_bytes :: "allocator \<Rightarrow> bytes \<Rightarrow> net_buffer \<Rightarrow> net_buffer option" where
  "push_bytes ok bs nb =
     (case push_generic_onto_net_buffer ok bs nb of
        None \<Rightarrow> None
      | Some (r, nb') \<Rightarrow> if r = -1 then None else Some nb')"

text \<open>A transmission in which the socket accepts \<^term>\<open>n :: nat\<close> bytes.\<close>

definition transmit_bytes :: "nat \<Rightarrow> net_buffer \<Rightarrow> net_buffer" where
  "transmit_bytes n nb =
     (case transmit_net_buffer (\<lambda>_. Sent n) (\<lambda>_. Sent n) (Some nb) of
        (_, _, Some nb') \<Rightarrow> nb'
      | (_, _, None) \<Rightarrow> nb)"

definition send_inv :: "net_buffer \<Rightarrow> bool" where
  "send_inv nb \<longleftrightarrow> nb_inv nb \<and> nb_buftype nb = NETBUF_SEND"

lemma push_bytes_props:
  assumes "send_inv nb" "push_bytes ok bs nb = Some nb'"
  shows "send_inv nb'" "nb_content nb' = nb_content nb @ bs"
  using assms push_generic_props [of ok bs nb]
  by (auto simp: push_bytes_def send_inv_def nb_same_def split: option.splits if_splits)

lemma transmit_bytes_props:
  assumes "send_inv nb" "n \<le> length (nb_content nb)"
  shows "send_inv (transmit_bytes n nb)" "nb_content (transmit_bytes n nb) = drop n (nb_content nb)"
  using assms after_send_props [of nb n]
  by (auto simp: transmit_bytes_def transmit_net_buffer_def send_inv_def nb_same_def Let_def
      simp flip: length_nb_content)

interpretation net_fifo: byte_fifo nb_content send_inv "push_bytes ok" transmit_bytes for ok
  by unfold_locales (auto simp: push_bytes_props transmit_bytes_props)

subsection \<open>The receiver\<close>

type_synonym message = "nat \<times> u64 \<times> bytes"

definition message_bytes :: "message \<Rightarrow> bytes" where
  "message_bytes m = (case m of (ty, i, body) \<Rightarrow> msg_bytes ty i body)"

text \<open>Messages the header can describe. The type \<^term>\<open>OPENLI_PROTO_NO_MESSAGE\<close> is what the
  receiver returns when there is no complete message.\<close>

definition message_ok :: "message \<Rightarrow> bool" where
  "message_ok m \<longleftrightarrow>
     (case m of (ty, i, body) \<Rightarrow>
        ty < 65536 \<and> ty \<noteq> msgtype_code OPENLI_PROTO_NO_MESSAGE \<and> length body < 65536)"

text \<open>Successive calls of \<^verbatim>\<open>receive_net_buffer\<close> on a socket that delivers the given chunks, one
  per read, and then has nothing to read. The messages are collected with their bodies as
  they are in the buffer when the call returns.\<close>

definition chunk_recv :: "bytes list \<Rightarrow> recv_call" where
  "chunk_recv cs n = (case cs of [] \<Rightarrow> Recv_error True | c # _ \<Rightarrow> Received c)"

fun receive_calls ::
  "allocator \<Rightarrow> nat \<Rightarrow> bytes list \<Rightarrow> net_buffer \<Rightarrow> (message list \<times> bytes list \<times> net_buffer) option"
where
  "receive_calls ok 0 cs nb = Some ([], cs, nb)"
| "receive_calls ok (Suc n) cs nb =
     (case receive_net_buffer ok (chunk_recv cs) (chunk_recv cs) (Some nb) of
        Some (ty, out, Some nb') \<Rightarrow>
          (let cs' = (if fst (parse_received_message nb) = int (msgtype_code OPENLI_PROTO_NO_MESSAGE)
                      then tl cs else cs);
               ms = (case out of None \<Rightarrow> []
                     | Some (p, len, i) \<Rightarrow> [(nat ty, i, mem_read (nb_buf nb') p len)])
           in map_option (\<lambda>(ms', rest). (ms @ ms', rest)) (receive_calls ok n cs' nb'))
      | _ \<Rightarrow> None)"

definition recv_inv :: "net_buffer \<Rightarrow> bool" where
  "recv_inv nb \<longleftrightarrow>
     nb_inv nb \<and> nb_buftype nb = NETBUF_RECV \<and>
     (\<exists>k\<in>{1..5}. nb_alloced nb = k * NETBUF_ALLOC_SIZE)"

definition recv_alloc_ok :: "allocator \<Rightarrow> bool" where
  "recv_alloc_ok ok \<longleftrightarrow> (\<forall>k\<in>{1..5}. ok (k * NETBUF_ALLOC_SIZE))"

lemma create_recv_inv: "recv_inv (create_net_buffer m NETBUF_RECV fd ssl)"
  unfolding recv_inv_def
  by (auto simp: create_net_buffer_inv intro!: bexI [of _ 1]) (simp_all add: create_net_buffer_def)

text \<open>Before a read the content is less than one message, so the allocation stays within five
  units: a fifth unit leaves at least three quarters of the buffer free at the front whenever
  less than one unit is left at the end.\<close>

lemma recv_grow:
  assumes "recv_inv nb" "recv_alloc_ok ok" "nb_alloced nb < 5 * NETBUF_ALLOC_SIZE"
  obtains nb' where "grow_net_buffer ok nb = Some (0, nb')" "recv_inv nb'"
    "nb_content nb' = nb_content nb" "int NETBUF_ALLOC_SIZE \<le> NETBUF_SPACE_REM nb'"
    "nb_same nb nb'"
proof -
  obtain k where k: "k \<in> {1..5}" "nb_alloced nb = k * NETBUF_ALLOC_SIZE"
    using assms(1) by (auto simp: recv_inv_def)
  then have k4: "Suc k \<in> {1..5}" "nb_alloced nb + NETBUF_ALLOC_SIZE = Suc k * NETBUF_ALLOC_SIZE"
    using assms(3) by (auto simp: NETBUF_ALLOC_SIZE_def)
  have max: "Suc k * NETBUF_ALLOC_SIZE \<le> INT_MAX"
    using mult_le_mono1 [of "Suc k" 5 NETBUF_ALLOC_SIZE] k4(1)
    by (simp add: NETBUF_ALLOC_SIZE_def INT_MAX_def)
  have okk: "ok (Suc k * NETBUF_ALLOC_SIZE)"
    using assms(2) k4(1) unfolding recv_alloc_ok_def by blast
  let ?nb' = "nb \<lparr> nb_alloced := nb_alloced nb + NETBUF_ALLOC_SIZE \<rparr>"
  have g: "grow_net_buffer ok nb = Some (0, ?nb')"
    using max okk unfolding grow_net_buffer_def k4(2) by (simp del: mult_Suc)
  have props: "nb_inv ?nb'" "nb_content ?nb' = nb_content nb" "nb_same nb ?nb'"
    using grow_net_buffer_props [OF g] assms(1) by (auto simp: recv_inv_def)
  moreover have "recv_inv ?nb'"
    unfolding recv_inv_def using props assms(1) k4 
    by (auto simp: recv_inv_def ac_simps intro!: bexI [of _ "Suc k"])
  moreover have "int NETBUF_ALLOC_SIZE \<le> NETBUF_SPACE_REM ?nb'"
    using assms(1) by (simp add: NETBUF_SPACE_REM_def recv_inv_def nb_inv_def)
  ultimately show ?thesis using that g by blast
qed

lemma recv_extend:
  assumes "recv_inv nb" "recv_alloc_ok ok" "NETBUF_CONTENT_SIZE nb < 65552"
    and "NETBUF_SPACE_REM nb < int NETBUF_ALLOC_SIZE"
  obtains nb' where "extend_net_buffer ok (int NETBUF_ALLOC_SIZE) nb = Some (0, nb')"
    "recv_inv nb'" "nb_content nb' = nb_content nb" "nb_same nb nb'"
    "int NETBUF_ALLOC_SIZE \<le> NETBUF_SPACE_REM nb'"
proof -
  have inv: "nb_inv nb" using assms(1) by (simp add: recv_inv_def)
  note sl = slide_net_buffer_props [OF inv]
  have slinv: "recv_inv (slide_net_buffer nb)"
    using assms(1) sl by (simp add: recv_inv_def nb_same_def)
  show ?thesis
  proof (cases "4 * NETBUF_FRONT_FREE nb \<ge> 3 * nb_alloced nb")
    case True
    show ?thesis
    proof (cases "NETBUF_SPACE_REM (slide_net_buffer nb) \<ge> int NETBUF_ALLOC_SIZE")
      case enough: True
      with True sl slinv that show ?thesis by (simp add: extend_net_buffer_def)
    next
      case False
      have "nb_alloced (slide_net_buffer nb) < 5 * NETBUF_ALLOC_SIZE"
        using False sl(4,5) assms(3) inv
        by (auto simp: NETBUF_SPACE_REM_def NETBUF_ALLOC_SIZE_def NETBUF_CONTENT_SIZE_def
            nb_inv_def)
      then obtain nb' where "grow_net_buffer ok (slide_net_buffer nb) = Some (0, nb')"
        "recv_inv nb'" "nb_content nb' = nb_content (slide_net_buffer nb)"
        "int NETBUF_ALLOC_SIZE \<le> NETBUF_SPACE_REM nb'" "nb_same (slide_net_buffer nb) nb'"
        using recv_grow [OF slinv assms(2)] by blast
      with True False sl that show ?thesis
        by (simp add: extend_net_buffer_def nb_same_def)
    qed
  next
    case False
    have "nb_alloced nb < 5 * NETBUF_ALLOC_SIZE"
      using False assms(1,3,4)
      by (auto simp: NETBUF_FRONT_FREE_def NETBUF_SPACE_REM_def NETBUF_ALLOC_SIZE_def
          NETBUF_CONTENT_SIZE_def recv_inv_def)
    then obtain nb' where "grow_net_buffer ok nb = Some (0, nb')"
      "recv_inv nb'" "nb_content nb' = nb_content nb"
      "int NETBUF_ALLOC_SIZE \<le> NETBUF_SPACE_REM nb'" "nb_same nb nb'"
      using recv_grow [OF assms(1,2)] by blast
    with False that show ?thesis by (simp add: extend_net_buffer_def)
  qed
qed

lemma parse_received_message_alloced:
  "parse_received_message nb = (r, out, nb') \<Longrightarrow> nb_alloced nb' = nb_alloced nb"
  by (auto simp: parse_received_message_def Let_def split: if_splits)

text \<open>Parsing at the head of a stream of messages of which \<^term>\<open>rest\<close> is still to come:
  either the first message is complete and is delivered, or there is none yet.\<close>

lemma parse_stream:
  assumes inv: "recv_inv nb" and ok: "list_all message_ok ms"
    and stream: "nb_content nb @ rest = concat (map message_bytes ms)"
  obtains (msg) ty i body ms' p nb' where "ms = (ty, i, body) # ms'"
      "parse_received_message nb = (int ty, Some (p, length body, i), nb')"
      "recv_inv nb'" "nb_content nb' @ rest = concat (map message_bytes ms')"
      "mem_read (nb_buf nb') p (length body) = body"
      "ty \<noteq> msgtype_code OPENLI_PROTO_NO_MESSAGE"
  | (no_msg) "parse_received_message nb = (int (msgtype_code OPENLI_PROTO_NO_MESSAGE), None, nb)"
      "NETBUF_CONTENT_SIZE nb < 65552" "rest = [] \<longrightarrow> ms = []"
proof (cases ms)
  case Nil
  then have "NETBUF_CONTENT_SIZE nb = 0"
    using stream length_nb_content [of nb] by simp
  then show ?thesis using no_msg Nil by (simp add: parse_received_message_def ii_header_size_def)
next
  case (Cons m ms')
  obtain ty i body where m: "m = (ty, i, body)" by (cases m)
  have wf: "ty < 65536" "length body < 65536" "ty \<noteq> msgtype_code OPENLI_PROTO_NO_MESSAGE"
    using ok Cons m by (auto simp: message_ok_def)
  have str: "nb_content nb @ rest = msg_bytes ty i body @ concat (map message_bytes ms')"
    using stream Cons m by (simp add: message_bytes_def)
  then consider (pre) suffix where "nb_content nb @ suffix = msg_bytes ty i body" "suffix \<noteq> []"
      "rest = suffix @ concat (map message_bytes ms')"
    | (full) rest' where "nb_content nb = msg_bytes ty i body @ rest'"
      "rest' @ rest = concat (map message_bytes ms')"
    by (auto simp: append_eq_append_conv2) (metis append_Nil append_Nil2)
  then show ?thesis
  proof cases
    case pre
    have "length (nb_content nb) < length (msg_bytes ty i body)"
      using arg_cong [OF pre(1), of length] pre(2) by (cases suffix) auto
    then show ?thesis
      using no_msg parse_incomplete [OF pre(1,2) wf(1,2)] pre(2,3) wf(2)
      by (simp add: ii_header_size_def)
  next
    case full
    obtain nb' where "parse_received_message nb =
        (int ty, Some (nb_actptr nb + ii_header_size, length body, i), nb')"
      "nb_inv nb'" "nb_same nb nb'" "nb_content nb' = rest'" "nb_buf nb' = nb_buf nb"
      "mem_at (nb_buf nb) (nb_actptr nb + ii_header_size) body"
      using parse_complete [OF _ full(1) wf(1,2)] inv by (auto simp: recv_inv_def)
    with msg Cons m inv wf(3) full(2) parse_received_message_alloced [of nb] show ?thesis
      by (auto simp: recv_inv_def nb_same_def mem_at_def)
  qed
qed

text \<open>One call that reads a chunk.\<close>

lemma receive_reads:
  assumes "recv_inv nb" "recv_alloc_ok ok" "NETBUF_CONTENT_SIZE nb < 65552"
    and parse: "parse_received_message nb = (int (msgtype_code OPENLI_PROTO_NO_MESSAGE), None, nb)"
    and c: "c \<noteq> []" "length c \<le> NETBUF_ALLOC_SIZE"
  obtains nb1 where "recv_inv nb1" "nb_content nb1 = nb_content nb @ c"
    "receive_net_buffer ok (\<lambda>_. Received c) (\<lambda>_. Received c) (Some nb) =
       (case parse_received_message nb1 of (ty, out, nb2) \<Rightarrow> Some (ty, out, Some nb2))"
proof -
  obtain nb1 where nb1: "(if NETBUF_SPACE_REM nb < int NETBUF_ALLOC_SIZE
      then extend_net_buffer ok (int NETBUF_ALLOC_SIZE) nb else Some (0, nb)) = Some (0, nb1)"
    "recv_inv nb1" "nb_content nb1 = nb_content nb" "int NETBUF_ALLOC_SIZE \<le> NETBUF_SPACE_REM nb1"
  proof (cases "NETBUF_SPACE_REM nb < int NETBUF_ALLOC_SIZE")
    case True
    then show ?thesis using recv_extend [OF assms(1-3) True] that by auto
  next
    case False
    then show ?thesis using that [of nb] assms(1) by simp
  qed
  let ?nb2 = "nb1 \<lparr> nb_buf := mem_write (nb_buf nb1) (nb_appendptr nb1) c,
                    nb_appendptr := nb_appendptr nb1 + length c \<rparr>"
  have space: "int (length c) \<le> NETBUF_SPACE_REM nb1" using c nb1(4) by linarith
  have app: "append_received c nb1 = Some ?nb2"
    using space by (simp add: append_received_def NETBUF_SPACE_REM_def)
  have nb2: "recv_inv ?nb2" "nb_content ?nb2 = nb_content nb @ c"
    using write_at_append [OF _ space refl] nb1(2,3) by (auto simp: recv_inv_def)
  show ?thesis
    using assms(1) nb1(1) app c(1) parse
    by (intro that [OF nb2])
      (auto simp: receive_net_buffer_def recv_inv_def split: prod.splits)
qed

lemma receive_idle:
  assumes "recv_inv nb" "recv_alloc_ok ok" "NETBUF_CONTENT_SIZE nb < 65552"
    and parse: "parse_received_message nb = (int (msgtype_code OPENLI_PROTO_NO_MESSAGE), None, nb)"
  obtains nb1 where "recv_inv nb1" "nb_content nb1 = nb_content nb"
    "receive_net_buffer ok (\<lambda>_. Recv_error True) (\<lambda>_. Recv_error True) (Some nb) =
       Some (int (msgtype_code OPENLI_PROTO_NO_MESSAGE), None, Some nb1)"
proof (cases "NETBUF_SPACE_REM nb < int NETBUF_ALLOC_SIZE")
  case True
  obtain nb1 where "extend_net_buffer ok (int NETBUF_ALLOC_SIZE) nb = Some (0, nb1)"
    "recv_inv nb1" "nb_content nb1 = nb_content nb"
    by (rule recv_extend [OF assms(1-3) True])
  then show ?thesis
    using True assms(1) parse that [of nb1] by (simp add: receive_net_buffer_def recv_inv_def)
next
  case False
  then show ?thesis
    using assms(1) parse that [of nb] by (simp add: receive_net_buffer_def recv_inv_def)
qed

text \<open>Enough calls deliver exactly the messages of the stream, however it is cut into
  chunks.\<close>

lemma receive_calls_stream:
  assumes "recv_inv nb" "recv_alloc_ok ok" "list_all message_ok ms"
    and "nb_content nb @ concat cs = concat (map message_bytes ms)"
    and "\<forall>c\<in>set cs. c \<noteq> [] \<and> length c \<le> NETBUF_ALLOC_SIZE"
    and "length ms + length cs \<le> n"
  shows "\<exists>nb'. receive_calls ok n cs nb = Some (ms, [], nb') \<and> recv_inv nb' \<and> nb_content nb' = []"
  using assms
proof (induction n arbitrary: ms cs nb)
  case 0
  then show ?case by simp
next
  case (Suc n)
  note inv = Suc.prems(1) and alloc = Suc.prems(2) and ok = Suc.prems(3) and str = Suc.prems(4)
  show ?case
  proof (rule parse_stream [OF inv ok str], goal_cases)
    case (1 ty i body ms' p nb')
    have "\<exists>nb''. receive_calls ok n cs nb' = Some (ms', [], nb'') \<and> recv_inv nb'' \<and> nb_content nb'' = []"
      using 1 Suc.prems by (intro Suc.IH) auto
    then show ?thesis
      using 1 inv by (auto simp: receive_net_buffer_def recv_inv_def)
  next
    case no_msg: 2
    show ?thesis
    proof (cases cs)
      case Nil
      with no_msg str have ms: "ms = []" "nb_content nb = []" by auto
      obtain nb1 where nb1: "recv_inv nb1" "nb_content nb1 = nb_content nb"
        "receive_net_buffer ok (chunk_recv []) (chunk_recv []) (Some nb) =
          Some (int (msgtype_code OPENLI_PROTO_NO_MESSAGE), None, Some nb1)"
        using receive_idle [OF inv alloc no_msg(2,1)] by (auto simp: chunk_recv_def [abs_def])
      have "\<exists>nb''. receive_calls ok n [] nb1 = Some ([], [], nb'') \<and> recv_inv nb'' \<and> nb_content nb'' = []"
        using nb1 ms alloc by (intro Suc.IH) auto
      then show ?thesis using nb1(3) no_msg(1) ms Nil by auto
    next
      case (Cons c cs')
      obtain nb1 where nb1: "recv_inv nb1" "nb_content nb1 = nb_content nb @ c"
        "receive_net_buffer ok (chunk_recv cs) (chunk_recv cs) (Some nb) =
          (case parse_received_message nb1 of (ty, out, nb2) \<Rightarrow> Some (ty, out, Some nb2))"
        using receive_reads [OF inv alloc no_msg(2,1), of c] Suc.prems(5) Cons
        by (auto simp: chunk_recv_def [abs_def])
      have str1: "nb_content nb1 @ concat cs' = concat (map message_bytes ms)"
        using str nb1(2) Cons by simp
      show ?thesis
      proof (rule parse_stream [OF nb1(1) ok str1], goal_cases)
        case (1 ty i body ms' p nb')
        have "\<exists>nb''. receive_calls ok n cs' nb' = Some (ms', [], nb'') \<and> recv_inv nb'' \<and> nb_content nb'' = []"
          using 1 Suc.prems Cons by (intro Suc.IH) auto
        then show ?thesis using 1 nb1(3) no_msg(1) Cons by auto
      next
        case 2
        have "\<exists>nb''. receive_calls ok n cs' nb1 = Some (ms, [], nb'') \<and> recv_inv nb'' \<and> nb_content nb'' = []"
          using nb1 str1 Suc.prems Cons by (intro Suc.IH) auto
        then show ?thesis using 2 nb1(3) no_msg(1) Cons by auto
      qed
    qed
  qed
qed

subsection \<open>Properties\<close>



text \<open>C5. The receiver splits a stream correctly and in bounded memory: however the concatenation of
  well-formed messages is cut into chunks, as many calls as there are messages and chunks deliver
  exactly those messages in order and leave the buffer empty, with an allocation of at most five
  units, given that allocations up to that size succeed.\<close>

theorem receive_stream:
  assumes "recv_alloc_ok ok" "list_all message_ok ms" "concat cs = concat (map message_bytes ms)"
    and "\<forall>c\<in>set cs. c \<noteq> [] \<and> length c \<le> NETBUF_ALLOC_SIZE" "length ms + length cs \<le> n"
  shows "\<exists>nb. receive_calls ok n cs (create_net_buffer m NETBUF_RECV fd ssl) = Some (ms, [], nb) \<and>
           nb_content nb = [] \<and> nb_alloced nb \<le> 5 * NETBUF_ALLOC_SIZE"
proof -
  have "nb_alloced nb \<le> 5 * NETBUF_ALLOC_SIZE" if "recv_inv nb" for nb
    using that by (auto simp: recv_inv_def)
  then show ?thesis
    using receive_calls_stream [OF create_recv_inv assms(1,2) _ assms(4,5), of m fd ssl] assms(3)
    by auto
qed

theorem receive_stream_witness:
  "\<exists>nb. receive_calls (\<lambda>_. True) 4 [take 5 (msg_bytes 15 0 []), drop 5 (msg_bytes 15 0 [])]
     (create_net_buffer (\<lambda>_. 0) NETBUF_RECV 3 None) = Some ([(15, 0, [])], [], nb) \<and>
     nb_content nb = [] \<and> nb_alloced nb \<le> 5 * NETBUF_ALLOC_SIZE"
proof (rule receive_stream)
  have "length (msg_bytes 15 0 []) = 16" by (simp add: ii_header_size_def)
  then show "\<forall>c\<in>set [take 5 (msg_bytes 15 0 []), drop 5 (msg_bytes 15 0 [])].
      c \<noteq> [] \<and> length c \<le> NETBUF_ALLOC_SIZE"
    by (auto simp: NETBUF_ALLOC_SIZE_def simp del: length_msg_bytes)
qed (simp_all add: recv_alloc_ok_def message_ok_def message_bytes_def)

text \<open>C19. A buffer that starts with anything but the protocol's magic number is reported as invalid
  and left alone.\<close>

theorem receive_bad_magic:
  assumes "nb_buftype nb = NETBUF_RECV" "ii_header_size \<le> NETBUF_CONTENT_SIZE nb"
    and "take 4 (nb_content nb) \<noteq> be_bytes 4 (unat OPENLI_PROTO_MAGIC)"
  shows "receive_net_buffer ok rd rd' (Some nb) = Some (OPENLI_PROTO_INVALID_MESSAGE, None, Some nb) \<and>
         receive_RMQ_buffer ok reply body (Some nb) = Some (OPENLI_PROTO_INVALID_MESSAGE, None, Some nb)"
  using parse_bad_magic [OF assms(2,3)] assms(1)
  by (simp add: receive_net_buffer_def receive_RMQ_buffer_def proto_errors)

theorem receive_bad_magic_witness:
  "receive_net_buffer (\<lambda>_. True) (\<lambda>_. Recv_error True) (\<lambda>_. Recv_error True)
     (Some ((create_net_buffer (\<lambda>_. 0) NETBUF_RECV 3 None) \<lparr> nb_appendptr := 20 \<rparr>)) =
   Some (OPENLI_PROTO_INVALID_MESSAGE, None,
     Some ((create_net_buffer (\<lambda>_. 0) NETBUF_RECV 3 None) \<lparr> nb_appendptr := 20 \<rparr>))"
proof (rule receive_bad_magic [where reply = AMQP_RESPONSE_NORMAL and body = "[]", THEN conjunct1])
  let ?nb = "(create_net_buffer (\<lambda>_. 0) NETBUF_RECV 3 None) \<lparr> nb_appendptr := 20 \<rparr>"
  have four: "(4 :: nat) = Suc (Suc (Suc (Suc 0)))" by simp
  have last_byte: "hd (be_bytes 4 x) = word_of_nat (x div 256 div 256 div 256)" for x
    unfolding be_bytes_def four by simp
  have first: "hd (mem_read m p 4) = m p" for m p
    unfolding four by simp
  have "hd (take 4 (nb_content ?nb)) = 0"
    by (simp add: nb_content_def create_net_buffer_def NETBUF_CONTENT_SIZE_def mem_read_take first)
  moreover have "hd (be_bytes 4 (unat OPENLI_PROTO_MAGIC)) = 92"
    by (simp add: last_byte OPENLI_PROTO_MAGIC_def)
  moreover have "(0 :: u8) \<noteq> 92" by simp
  ultimately show "take 4 (nb_content ?nb) \<noteq> be_bytes 4 (unat OPENLI_PROTO_MAGIC)" by metis
qed (simp_all add: create_net_buffer_def NETBUF_CONTENT_SIZE_def ii_header_size_def)



end
