(* ===== verification/Net_Protocol.thy ===== *)
theory Net_Protocol
  imports Net_Roundtrip Net_Stream
begin

text \<open>
  The control protocol from end to end: what is pushed on a fresh send buffer and carried over
  a stream connection in arbitrary chunks arrives as the same messages, and the matching
  decoder recovers the struct that was sent.
\<close>

definition chunks_ok :: "bytes list \<Rightarrow> bool" where
  "chunks_ok cs \<longleftrightarrow> (\<forall>c\<in>set cs. c \<noteq> [] \<and> length c \<le> NETBUF_ALLOC_SIZE)"

text \<open>\<^term>\<open>transfers ok p ms\<close>: the push \<^term>\<open>p\<close> succeeds on a fresh send buffer, and a receiver
  that reads the resulting bytes in any chunks gets exactly the messages \<^term>\<open>ms\<close>.\<close>

definition transfers :: "allocator \<Rightarrow> push \<Rightarrow> message list \<Rightarrow> bool" where
  "transfers ok p ms \<longleftrightarrow>
     (\<forall>m fd ssl. \<exists>r nb. r \<noteq> -1 \<and> p (create_net_buffer m NETBUF_SEND fd ssl) = Some (r, nb) \<and>
        (\<forall>cs n m' fd' ssl'. concat cs = nb_content nb \<and> chunks_ok cs \<and> length ms + length cs \<le> n \<longrightarrow>
           (\<exists>rb. receive_calls ok n cs (create_net_buffer m' NETBUF_RECV fd' ssl') =
                   Some (ms, [], rb))))"

text \<open>\<^term>\<open>carries ok p ty body\<close>: the push carries the single message of type \<^term>\<open>ty\<close> with the
  given body.\<close>

definition carries :: "allocator \<Rightarrow> push \<Rightarrow> openli_proto_msgtype \<Rightarrow> bytes \<Rightarrow> bool" where
  "carries ok p ty body \<longleftrightarrow> transfers ok p [(msgtype_code ty, 0, body)]"

text \<open>\<^term>\<open>decodes d body x\<close>: the decoder \<^term>\<open>d\<close>, run on the body wherever it lies in memory,
  yields \<^term>\<open>x\<close>.\<close>

definition decodes :: "(mem \<Rightarrow> nat \<Rightarrow> nat \<Rightarrow> 'a) \<Rightarrow> bytes \<Rightarrow> 'a \<Rightarrow> bool" where
  "decodes d body x \<longleftrightarrow> (\<forall>m p. mem_at m p body \<longrightarrow> d m p (length body) = x)"

text \<open>Concrete structs.\<close>

definition ex_common :: intercept_common where
  "ex_common = \<lparr> ic_liid = Some [76, 49], ic_authcc = Some [78, 90], ic_delivcc = Some [78, 90],
     ic_liid_len = 2, ic_authcc_len = 2, ic_delivcc_len = 2, ic_destid = 6001,
     ic_targetagency = Some [65], ic_seqtrackerid = 0, ic_hi1_seqno = 0, ic_tostart_time = 0,
     ic_toend_time = 0, ic_tomediate = 0, ic_encrypt = 1, ic_encryptkey = None, ic_local = None \<rparr>"

definition ex_static :: static_ipranges where
  "ex_static = \<lparr> ipr_rangestr = Some [49, 46, 50, 47, 56], ipr_liid = None, ipr_cin = 7,
     ipr_awaitingconfirm = 0 \<rparr>"

definition ex_ip :: ipintercept where
  "ex_ip = \<lparr> ipi_common = ex_common, ipi_username = Some [117], ipi_username_len = 1,
     ipi_accesstype = 2, ipi_vendmirrorid = OPENLI_VENDOR_MIRROR_NONE, ipi_statics = [ex_static],
     ipi_awaitingconfirm = 1, ipi_options = 0 \<rparr>"

definition ex_voip :: voipintercept where
  "ex_voip = \<lparr> vint_internalid = 0, vint_common = ex_common, vint_targets = [], vint_options = 1,
     vint_awaitingconfirm = 1, vint_active = 1, vint_cin_callid_map = [], vint_cin_sdp_map = [],
     vint_active_cins = [], vint_active_registrations = [] \<rparr>"

definition ex_email :: emailintercept where
  "ex_email = \<lparr> em_common = ex_common, em_targets = [], em_awaitingconfirm = 1,
     em_delivercompressed = 1 \<rparr>"

definition ex_sip :: sip_identity where
  "ex_sip = \<lparr> sip_username = Some [97, 98], sip_username_len = 2, sip_realm = Some [99],
     sip_realm_len = 1, sip_awaitingconfirm = 1, sip_active = 1 \<rparr>"

definition ex_lea :: liagency where
  "ex_lea = \<lparr> lea_hi2_ipstr = Some [49], lea_hi2_portstr = Some [50], lea_hi3_ipstr = Some [51],
     lea_hi3_portstr = Some [52], lea_agencyid = Some [65], lea_keepalivefreq = 300,
     lea_keepalivewait = 30 \<rparr>"

definition ex_mediator :: openli_mediator where
  "ex_mediator = \<lparr> med_mediatorid = 6001, med_ipstr = Some [49, 46, 50], med_portstr = Some [56] \<rparr>"

definition ex_hi1 :: hi1_notify_data where
  "ex_hi1 = \<lparr> hi1_notify_type = HI1_LI_ACTIVATED, hi1_liid = Some [76], hi1_authcc = Some [78],
     hi1_delivcc = Some [78], hi1_agencyid = Some [65], hi1_seqno = 1, hi1_ts_sec = 1700000000,
     hi1_ts_usec = 5, hi1_target_info = Some [117] \<rparr>"

definition ex_coreserver :: coreserver where
  "ex_coreserver = \<lparr> cs_serverkey = None, cs_servertype = OPENLI_CORE_SERVER_SIP,
     cs_ipstr = Some [49, 46, 50], cs_portstr = Some [53], cs_info = None, cs_portswapped = 0,
     cs_awaitingconfirm = 0 \<rparr>"

lemmas ex_defs =
  ex_common_def ex_static_def ex_ip_def ex_voip_def ex_email_def ex_sip_def ex_lea_def
  ex_mediator_def ex_hi1_def ex_coreserver_def

lemma transfersI:
  assumes "emits ok p r (concat (map message_bytes ms))" "r \<noteq> -1" "recv_alloc_ok ok"
    and "list_all message_ok ms" "length (concat (map message_bytes ms)) \<le> NETBUF_ALLOC_SIZE"
  shows "transfers ok p ms"
  unfolding transfers_def
proof (intro allI)
  fix m fd ssl
  obtain nb where push: "p (create_net_buffer m NETBUF_SEND fd ssl) = Some (r, nb)"
    and cont: "nb_content nb = concat (map message_bytes ms)"
    using emitsD [OF assms(1) can_push_fresh [OF assms(5), of ok m NETBUF_SEND fd ssl] order_refl]
    by (metis append_Nil create_net_buffer_content)
  have "\<exists>rb. receive_calls ok n cs (create_net_buffer m' NETBUF_RECV fd' ssl') = Some (ms, [], rb)"
    if "concat cs = nb_content nb" "chunks_ok cs" "length ms + length cs \<le> n" for cs n m' fd' ssl'
  proof -
    have "nb_content (create_net_buffer m' NETBUF_RECV fd' ssl') @ concat cs =
        concat (map message_bytes ms)"
      using that(1) cont by simp
    from receive_calls_stream [OF create_recv_inv assms(3,4) this _ that(3)] that(2)
    show ?thesis unfolding chunks_ok_def by blast
  qed
  with push assms(2) show "\<exists>r nb. r \<noteq> -1 \<and>
      p (create_net_buffer m NETBUF_SEND fd ssl) = Some (r, nb) \<and>
      (\<forall>cs n m' fd' ssl'. concat cs = nb_content nb \<and> chunks_ok cs \<and> length ms + length cs \<le> n \<longrightarrow>
         (\<exists>rb. receive_calls ok n cs (create_net_buffer m' NETBUF_RECV fd' ssl') = Some (ms, [], rb)))"
    by blast
qed

lemma carriesI:
  assumes "emits ok p r (msg_bytes (msgtype_code ty) 0 body)" "0 \<le> r" "recv_alloc_ok ok"
    and "ty \<noteq> OPENLI_PROTO_NO_MESSAGE" "length body < 65536"
  shows "carries ok p ty body"
  unfolding carries_def
proof (rule transfersI)
  show "list_all message_ok [(msgtype_code ty, 0, body)]"
    using assms(4,5) msgtype_code_less [of ty] msgtype_code_inj [of ty OPENLI_PROTO_NO_MESSAGE]
    by (auto simp: message_ok_def)
qed (use assms in \<open>auto simp: message_bytes_def NETBUF_ALLOC_SIZE_def ii_header_size_def\<close>)

lemma recv_alloc_always [simp]: "recv_alloc_ok (\<lambda>_. True)"
  by (simp add: recv_alloc_ok_def)

text \<open>An agency announcement arrives: the decoder recovers the agency that was pushed, with
  all its strings and keepalive settings.\<close>

theorem lea_roundtrip:
  assumes "recv_alloc_ok ok" "lea_ok lea"
  shows "carries ok (push_lea_onto_net_buffer ok lea) OPENLI_PROTO_ANNOUNCE_LEA
           (fields_bytes (lea_fields lea)) \<and>
         decodes (\<lambda>m p l. decode_lea_announcement m p l lea0) (fields_bytes (lea_fields lea)) (0, lea)"
  using assms decode_lea [OF assms(2)]
  by (auto simp: decodes_def intro!: carriesI [OF emits_lea]) (auto simp: lea_ok_def lea_fields_def)

theorem lea_roundtrip_witness:
  "carries (\<lambda>_. True) (push_lea_onto_net_buffer (\<lambda>_. True) ex_lea) OPENLI_PROTO_ANNOUNCE_LEA
     (fields_bytes (lea_fields ex_lea)) \<and>
   decodes (\<lambda>m p l. decode_lea_announcement m p l ex_lea) (fields_bytes (lea_fields ex_lea)) (0, ex_lea)"
  by (rule lea_roundtrip) (simp_all add: lea_ok_def ex_defs no_nul_def)

text \<open>A mediator announcement or withdrawal arrives: the decoder recovers the mediator's id,
  address and port.\<close>

theorem mediator_roundtrip:
  assumes "recv_alloc_ok ok" "mediator_ok med" "med_portstr med \<noteq> Some []"
  shows "carries ok (push_mediator_onto_net_buffer ok med) OPENLI_PROTO_ANNOUNCE_MEDIATOR
           (fields_bytes (mediator_fields med)) \<and>
         carries ok (push_mediator_withdraw_onto_net_buffer ok med) OPENLI_PROTO_WITHDRAW_MEDIATOR
           (fields_bytes (mediator_fields med)) \<and>
         decodes (\<lambda>m p l. decode_mediator_announcement m p l med0)
           (fields_bytes (mediator_fields med)) (0, med)"
proof -
  have "length (fields_bytes (mediator_fields med)) < 65536"
    using assms(2) by (auto simp: mediator_ok_def mediator_fields_def)
  with assms decode_mediator [OF assms(2,3)] show ?thesis
    unfolding push_mediator_onto_net_buffer_def push_mediator_withdraw_onto_net_buffer_def
    by (auto simp: decodes_def intro!: carriesI [OF emits_mediator])
qed

theorem mediator_roundtrip_witness:
  "decodes (\<lambda>m p l. decode_mediator_announcement m p l ex_mediator)
     (fields_bytes (mediator_fields ex_mediator)) (0, ex_mediator)"
  by (rule mediator_roundtrip [of "\<lambda>_. True", THEN conjunct2, THEN conjunct2])
    (simp_all add: mediator_ok_def ex_defs no_nul_def)

lemma email_fields_short:
  "common_ok (em_common em) \<Longrightarrow> length (fields_bytes (emailintercept_fields em)) < 65536"
  using common_len(2) [of "em_common em"] by (simp add: emailintercept_fields_def)

lemma voip_fields_short:
  "common_ok (vint_common v) \<Longrightarrow> length (fields_bytes (voipintercept_fields v)) < 65536"
  using common_len(2) [of "vint_common v"] by (simp add: voipintercept_fields_def)





definition staticip_message :: "ipintercept \<Rightarrow> static_ipranges \<Rightarrow> message" where
  "staticip_message ip ipr =
     (msgtype_code OPENLI_PROTO_ADD_STATICIPS, 0, fields_bytes (staticip_fields ipr (ipi_common ip)))"

lemma staticip_message_ok:
  "staticip_ok ip ipr \<Longrightarrow> message_ok (staticip_message ip ipr)"
  by (auto simp: staticip_ok_def staticip_message_def message_ok_def staticip_fields_def)

lemma staticip_msgs:
  "concat (map (staticip_msg OPENLI_PROTO_ADD_STATICIPS ip) iprs) =
   concat (map message_bytes (map (staticip_message ip) iprs))"
  by (simp add: staticip_msg_def [abs_def] staticip_message_def message_bytes_def comp_def)


lemma ex_ip_ok: "ipintercept_ok ex_ip" "list_all (staticip_ok ex_ip) (ipi_statics ex_ip)"
  by (simp_all add: ipintercept_ok_def common_ok_def len_agrees_def opt_sendable_def
      staticip_ok_def ex_defs no_nul_def)

lemma ex_ip_short:
  "length (concat (map message_bytes
     ((msgtype_code OPENLI_PROTO_START_IPINTERCEPT, 0, fields_bytes (ipintercept_fields ex_ip)) #
      map (staticip_message ex_ip) (ipi_statics ex_ip)))) \<le> NETBUF_ALLOC_SIZE"
  by (simp add: staticip_message_def message_bytes_def NETBUF_ALLOC_SIZE_def ii_header_size_def
      ex_defs staticip_fields_def ipintercept_fields_def ip_fields_def common_fields_def)




text \<open>C16. A SIP or email target announcement or withdrawal arrives: the decoder recovers the target
  and copies the LIID of its intercept to the caller's buffer, when the buffer has room for it
  and its terminator.\<close>

theorem target_roundtrip:
  assumes "recv_alloc_ok ok"
    and "len_agrees (ic_liid (vint_common v)) (ic_liid_len (vint_common v))"
    and "len_agrees (ic_liid (em_common em)) (ic_liid_len (em_common em))"
    and "ic_liid (vint_common v) = Some liid" "ic_liid (em_common em) = Some liid"
    and "int (length liid) < spacelen"
    and "sip_identity_ok sipid" "sip_username sipid \<noteq> Some []" "sip_realm sipid \<noteq> Some []"
    and "sip_realm sipid = None \<longrightarrow> sip_realm_len sipid = 0"
    and "sendable (et_address tgt)" "et_address tgt \<noteq> Some []"
  shows "carries ok (push_sip_target_onto_net_buffer ok sipid v) OPENLI_PROTO_ANNOUNCE_SIP_TARGET
           (fields_bytes (sip_target_fields sipid (vint_common v))) \<and>
         carries ok (push_sip_target_withdrawal_onto_net_buffer ok sipid v)
           OPENLI_PROTO_WITHDRAW_SIP_TARGET (fields_bytes (sip_target_fields sipid (vint_common v))) \<and>
         decodes (\<lambda>m p l. decode_sip_target_announcement m p l sipid0 space spacelen)
           (fields_bytes (sip_target_fields sipid (vint_common v)))
           (0, sipid \<lparr> sip_awaitingconfirm := 0, sip_active := sip_active sipid0 \<rparr>, liid) \<and>
         carries ok (push_email_target_onto_net_buffer ok tgt em) OPENLI_PROTO_ANNOUNCE_EMAIL_TARGET
           (fields_bytes (email_target_fields tgt (em_common em))) \<and>
         carries ok (push_email_target_withdrawal_onto_net_buffer ok tgt em)
           OPENLI_PROTO_WITHDRAW_EMAIL_TARGET (fields_bytes (email_target_fields tgt (em_common em))) \<and>
         decodes (\<lambda>m p l. decode_email_target_announcement m p l tgt0 space spacelen)
           (fields_bytes (email_target_fields tgt (em_common em)))
           (0, tgt \<lparr> et_awaitingconfirm := 0 \<rparr>, liid)"
proof -
  have liid: "no_nul liid" "length liid \<le> 4092"
    using assms(2,4) by (auto simp: len_agrees_def)
  have short: "length (fields_bytes (sip_target_fields sipid (vint_common v))) < 65536"
    "length (fields_bytes (email_target_fields tgt (em_common em))) < 65536"
    using assms(4,5,7,11) liid
    by (auto simp: sip_identity_ok_def sip_target_fields_def email_target_fields_def)
  show ?thesis
    unfolding push_sip_target_onto_net_buffer_def push_sip_target_withdrawal_onto_net_buffer_def
      push_email_target_onto_net_buffer_def push_email_target_withdrawal_onto_net_buffer_def
    using carriesI [OF emits_sip_target [OF _ assms(2,7)] _ assms(1)] short
      carriesI [OF emits_email_target [OF _ assms(3,11)] _ assms(1)]
      decode_sip_target [OF assms(7-10,4) liid assms(6)]
      decode_email_target [OF assms(11,12,5) liid assms(6)]
    by (simp add: decodes_def)
qed

definition ex_target :: email_target where
  "ex_target = \<lparr> et_address = Some [97, 64, 98], et_awaitingconfirm = 1 \<rparr>"

theorem target_roundtrip_witness:
  "decodes (\<lambda>m p l. decode_sip_target_announcement m p l ex_sip [] 512)
     (fields_bytes (sip_target_fields ex_sip (vint_common ex_voip)))
     (0, ex_sip \<lparr> sip_awaitingconfirm := 0 \<rparr>, [76, 49])"
  using target_roundtrip [of "\<lambda>_. True" ex_voip ex_email "[76, 49]" 512 ex_sip ex_target ex_sip "[]"
      ex_target]
  by (simp add: ex_defs ex_target_def len_agrees_def sip_identity_ok_def no_nul_def)

text \<open>The common members after decoding a withdrawal: only the LIID and the country code are
  set.\<close>

definition withdrawn_common :: "intercept_common \<Rightarrow> intercept_common \<Rightarrow> intercept_common" where
  "withdrawn_common c0 c =
     (reset_common c0) \<lparr> ic_liid := ic_liid c, ic_liid_len := ic_liid_len c,
                          ic_authcc := ic_authcc c, ic_authcc_len := ic_authcc_len c \<rparr>"

lemma decode_withdrawal:
  assumes "len_agrees (ic_liid c) (ic_liid_len c)" "len_agrees (ic_authcc c) (ic_authcc_len c)"
    and "ic_authcc c \<noteq> Some []" "mem_at m p (fields_bytes (withdrawal_fields c))"
  shows "map_prod id em_common (decode_emailintercept_halt m p
      (length (fields_bytes (withdrawal_fields c))) em0) = (0, withdrawn_common (em_common em0) c)"
    "map_prod id vint_common (decode_voipintercept_halt m p
      (length (fields_bytes (withdrawal_fields c))) v0) = (0, withdrawn_common (vint_common v0) c)"
    "map_prod id ipi_common (decode_ipintercept_halt m p
      (length (fields_bytes (withdrawal_fields c))) ip0) =
      (0, (withdrawn_common (ipi_common ip0) c) \<lparr> ic_seqtrackerid := 0 \<rparr>)"
proof -
  have ok: "list_all field_ok (withdrawal_fields c)"
    "withdrawal_fields c = [] \<or> snd (last (withdrawal_fields c)) \<noteq> []"
    using assms(1-3) by (auto simp: withdrawal_fields_def field_need_def)
  have common: "on_fields emailintercept_handler (withdrawal_fields c) em =
      Some (em \<lparr> em_common := (em_common em) \<lparr> ic_liid := ic_liid c, ic_liid_len := ic_liid_len c,
                 ic_authcc := ic_authcc c, ic_authcc_len := ic_authcc_len c \<rparr> \<rparr>)"
    "on_fields voipintercept_handler (withdrawal_fields c) v =
      Some (v \<lparr> vint_common := (vint_common v) \<lparr> ic_liid := ic_liid c, ic_liid_len := ic_liid_len c,
                 ic_authcc := ic_authcc c, ic_authcc_len := ic_authcc_len c \<rparr> \<rparr>)"
    "on_fields ipintercept_handler (withdrawal_fields c) ip =
      Some (ip \<lparr> ipi_common := (ipi_common ip) \<lparr> ic_liid := ic_liid c, ic_liid_len := ic_liid_len c,
                 ic_seqtrackerid := 0, ic_authcc := ic_authcc c, ic_authcc_len := ic_authcc_len c \<rparr> \<rparr>)"
    for em v ip
    using assms(1,2)
    by (auto simp: withdrawal_fields_def handler_defs decode_string_def)
  show "map_prod id em_common (decode_emailintercept_halt m p
      (length (fields_bytes (withdrawal_fields c))) em0) = (0, withdrawn_common (em_common em0) c)"
    unfolding decode_emailintercept_halt_def decode_emailintercept_start_def
    by (subst email_dec.decode_on_fields [OF assms(4) ok common(1)])
      (simp add: withdrawn_common_def)
  show "map_prod id vint_common (decode_voipintercept_halt m p
      (length (fields_bytes (withdrawal_fields c))) v0) = (0, withdrawn_common (vint_common v0) c)"
    unfolding decode_voipintercept_halt_def decode_voipintercept_start_def
    by (subst voip_dec.decode_on_fields [OF assms(4) ok common(2)])
      (simp add: withdrawn_common_def)
  show "map_prod id ipi_common (decode_ipintercept_halt m p
      (length (fields_bytes (withdrawal_fields c))) ip0) =
      (0, (withdrawn_common (ipi_common ip0) c) \<lparr> ic_seqtrackerid := 0 \<rparr>)"
    unfolding decode_ipintercept_halt_def decode_ipintercept_start_def
    by (subst ip_dec.decode_on_fields [OF assms(4) ok common(3)])
      (simp add: withdrawn_common_def)
qed

text \<open>C15. The withdrawal of an intercept of any kind arrives with the LIID and the authorisation
  country code of that intercept, and every other common member at its default.\<close>

theorem withdrawal_roundtrip:
  assumes "recv_alloc_ok ok" "withdrawal_common data ty = Some c"
    and "len_agrees (ic_liid c) (ic_liid_len c)" "len_agrees (ic_authcc c) (ic_authcc_len c)"
    and "ic_authcc c \<noteq> Some []"
  shows "carries ok (push_intercept_withdrawal_onto_net_buffer ok data ty) ty
           (fields_bytes (withdrawal_fields c)) \<and>
         decodes (\<lambda>m p l. map_prod id em_common (decode_emailintercept_halt m p l em0))
           (fields_bytes (withdrawal_fields c)) (0, withdrawn_common (em_common em0) c) \<and>
         decodes (\<lambda>m p l. map_prod id vint_common (decode_voipintercept_halt m p l v0))
           (fields_bytes (withdrawal_fields c)) (0, withdrawn_common (vint_common v0) c) \<and>
         decodes (\<lambda>m p l. map_prod id ipi_common (decode_ipintercept_halt m p l ip0))
           (fields_bytes (withdrawal_fields c))
           (0, (withdrawn_common (ipi_common ip0) c) \<lparr> ic_seqtrackerid := 0 \<rparr>)"
proof -
  have "ty \<noteq> OPENLI_PROTO_NO_MESSAGE"
    using assms(2) by (auto simp: withdrawal_common_def split: intercept_data.splits if_splits)
  moreover have "length (fields_bytes (withdrawal_fields c)) < 65536"
    using assms(3,4) by (auto simp: withdrawal_fields_def)
  moreover have "sendable (ic_liid c)" "sendable (ic_authcc c)"
    using assms(3,4) by (auto simp: len_agrees_def)
  ultimately show ?thesis
    using carriesI [OF emits_withdrawal [OF assms(2)] _ assms(1)] decode_withdrawal [OF assms(3-5)]
    unfolding decodes_def by simp
qed

theorem withdrawal_roundtrip_witness:
  "carries (\<lambda>_. True)
     (push_intercept_withdrawal_onto_net_buffer (\<lambda>_. True) (Email_data ex_email)
       OPENLI_PROTO_HALT_EMAILINTERCEPT)
     OPENLI_PROTO_HALT_EMAILINTERCEPT (fields_bytes (withdrawal_fields ex_common))"
  by (rule withdrawal_roundtrip [THEN conjunct1])
    (simp_all add: withdrawal_common_def len_agrees_def ex_defs no_nul_def)

text \<open>An HI1 notification arrives with every member, the optional target information
  included.\<close>

theorem hi1_roundtrip:
  assumes "recv_alloc_ok ok" "hi1_ok nd" "hi1_target_info nd \<noteq> Some []"
  shows "carries ok (push_hi1_notification_onto_net_buffer ok nd) OPENLI_PROTO_HI1_NOTIFICATION
           (fields_bytes (hi1_fields nd)) \<and>
         decodes decode_hi1_notification (fields_bytes (hi1_fields nd)) (0, nd)"
proof -
  have "length (fields_bytes (hi1_fields nd)) < 65536"
    using assms(2) by (auto simp: hi1_ok_def hi1_fields_def)
  then show ?thesis
    using carriesI [OF emits_hi1_notification [OF assms(2)] _ assms(1)] decode_hi1 [OF assms(2,3)]
    by (simp add: decodes_def)
qed

theorem hi1_roundtrip_witness:
  "decodes decode_hi1_notification (fields_bytes (hi1_fields ex_hi1)) (0, ex_hi1)"
  by (rule hi1_roundtrip [of "\<lambda>_. True", THEN conjunct2])
    (simp_all add: hi1_ok_def opt_sendable_def ex_defs no_nul_def)



text \<open>A core server announcement or withdrawal arrives: the decoder recovers the type, the
  address and the port, and computes the same table key as the sender would from them.\<close>

theorem coreserver_roundtrip:
  assumes "recv_alloc_ok ok" "coreserver_ok cs" "cs_ipstr cs \<noteq> Some []" "cs_portstr cs \<noteq> Some []"
  shows "carries ok (push_coreserver_onto_net_buffer ok cs (cs_servertype cs))
           OPENLI_PROTO_ANNOUNCE_CORESERVER (fields_bytes (coreserver_fields cs (cs_servertype cs))) \<and>
         carries ok (push_coreserver_withdraw_onto_net_buffer ok cs (cs_servertype cs))
           OPENLI_PROTO_WITHDRAW_CORESERVER (fields_bytes (coreserver_fields cs (cs_servertype cs))) \<and>
         decodes (\<lambda>m p l. decode_coreserver_announcement m p l cs0)
           (fields_bytes (coreserver_fields cs (cs_servertype cs)))
           (0, cs0 \<lparr> cs_serverkey := fst (construct_coreserver_key cs),
                     cs_servertype := cs_servertype cs, cs_ipstr := cs_ipstr cs,
                     cs_portstr := cs_portstr cs, cs_info := None, cs_awaitingconfirm := 0 \<rparr>)"
proof -
  have "length (fields_bytes (coreserver_fields cs (cs_servertype cs))) < 65536"
    using assms(2) by (auto simp: coreserver_ok_def coreserver_fields_def)
  moreover have "snd (construct_coreserver_key
      (cs0 \<lparr> cs_serverkey := None, cs_servertype := cs_servertype cs, cs_ipstr := cs_ipstr cs,
             cs_portstr := cs_portstr cs, cs_info := None, cs_awaitingconfirm := 0 \<rparr>)) =
    cs0 \<lparr> cs_serverkey := fst (construct_coreserver_key cs), cs_servertype := cs_servertype cs,
          cs_ipstr := cs_ipstr cs, cs_portstr := cs_portstr cs, cs_info := None,
          cs_awaitingconfirm := 0 \<rparr>"
    using assms(2) by (auto simp: construct_coreserver_key_def coreserver_ok_def Let_def)
  ultimately show ?thesis
    unfolding push_coreserver_onto_net_buffer_def push_coreserver_withdraw_onto_net_buffer_def
    using carriesI [OF emits_coreserver [OF assms(2)] _ assms(1)]
      decode_coreserver [OF assms(2-4)]
    by (simp add: decodes_def)
qed

theorem coreserver_roundtrip_witness:
  "carries (\<lambda>_. True)
     (push_coreserver_onto_net_buffer (\<lambda>_. True) ex_coreserver (cs_servertype ex_coreserver))
     OPENLI_PROTO_ANNOUNCE_CORESERVER
     (fields_bytes (coreserver_fields ex_coreserver (cs_servertype ex_coreserver)))"
  by (rule coreserver_roundtrip [THEN conjunct1])
    (simp_all add: coreserver_ok_def opt_sendable_def ex_defs no_nul_def)

text \<open>The messages that direct mediation arrive: a LIID mapping with its agency and LIID, and
  the end of mediation for a LIID.\<close>

theorem mediation_roundtrip:
  assumes "recv_alloc_ok ok" "sendable agency" "len_agrees liid n" "liid \<noteq> Some []"
  shows "carries ok (push_liid_mapping_onto_net_buffer ok agency liid)
           OPENLI_PROTO_MEDIATE_INTERCEPT (fields_bytes (liid_mapping_fields agency liid)) \<and>
         decodes (\<lambda>m p l. decode_liid_mapping m p l a0 l0)
           (fields_bytes (liid_mapping_fields agency liid)) (0, agency, liid) \<and>
         carries ok (push_cease_mediation_onto_net_buffer ok liid n)
           OPENLI_PROTO_CEASE_MEDIATION (fields_bytes (cease_fields liid)) \<and>
         decodes (\<lambda>m p l. decode_cease_mediation m p l l0) (fields_bytes (cease_fields liid)) (0, liid)"
proof -
  have liid: "sendable liid" using assms(3) by (auto simp: len_agrees_def)
  have "length (fields_bytes (liid_mapping_fields agency liid)) < 65536"
    "length (fields_bytes (cease_fields liid)) < 65536"
    using assms(2) liid by (auto simp: liid_mapping_fields_def cease_fields_def)
  then show ?thesis
    using carriesI [OF emits_liid_mapping [OF assms(2) liid] _ assms(1)]
      carriesI [OF emits_cease_mediation [OF assms(3)] _ assms(1)]
      decode_liid_map [OF assms(2) liid assms(4)] decode_cease [OF liid assms(4)]
    by (simp add: decodes_def)
qed

theorem mediation_roundtrip_witness:
  "decodes (\<lambda>m p l. decode_liid_mapping m p l None None)
     (fields_bytes (liid_mapping_fields (Some [65]) (Some [76, 49]))) (0, Some [65], Some [76, 49])"
  by (rule mediation_roundtrip [of "\<lambda>_. True" _ _ 2, THEN conjunct2, THEN conjunct1])
    (simp_all add: len_agrees_def no_nul_def)

text \<open>The messages about defaults arrive: a default RADIUS username, announced or withdrawn, and
  the default for compressed email.\<close>

theorem defaults_roundtrip:
  assumes "recv_alloc_ok ok" "len_agrees (dru_name def) (dru_namelen def)" "dru_name def \<noteq> Some []"
  shows "carries ok (push_default_radius_onto_net_buffer ok def)
           OPENLI_PROTO_ANNOUNCE_DEFAULT_RADIUS (fields_bytes (radius_fields def)) \<and>
         carries ok (push_default_radius_withdraw_onto_net_buffer ok def)
           OPENLI_PROTO_WITHDRAW_DEFAULT_RADIUS (fields_bytes (radius_fields def)) \<and>
         decodes (\<lambda>m p l. decode_default_radius_announcement m p l def0)
           (fields_bytes (radius_fields def)) (0, def \<lparr> dru_awaitingconfirm := 0 \<rparr>) \<and>
         carries ok (push_default_email_compression_onto_net_buffer ok x)
           OPENLI_PROTO_ANNOUNCE_DEFAULT_EMAIL_COMPRESSION (fields_bytes (compression_fields x)) \<and>
         decodes (\<lambda>m p l. decode_default_email_compression_announcement m p l x0)
           (fields_bytes (compression_fields x)) (0, x)"
proof -
  have "length (fields_bytes (radius_fields def)) < 65536"
    "length (fields_bytes (compression_fields x)) < 65536"
    using assms(2) by (auto simp: radius_fields_def compression_fields_def)
  then show ?thesis
    unfolding push_default_radius_onto_net_buffer_def push_default_radius_withdraw_onto_net_buffer_def
    using carriesI [OF emits_default_radius [OF assms(2)] _ assms(1)]
      carriesI [OF emits_default_email_compression _ assms(1)]
      decode_default_radius [OF assms(2,3)] decode_default_compression
    by (simp add: decodes_def)
qed

theorem defaults_roundtrip_witness:
  "decodes (\<lambda>m p l. decode_default_email_compression_announcement m p l 0)
     (fields_bytes (compression_fields 1)) (0, 1)"
  by (rule defaults_roundtrip [of "\<lambda>_. True" "\<lparr> dru_name = Some [97], dru_namelen = 1,
        dru_awaitingconfirm = 0 \<rparr>", THEN conjunct2, THEN conjunct2, THEN conjunct2, THEN conjunct2])
    (simp_all add: len_agrees_def no_nul_def)

subsection \<open>Failing pushes\<close>

lemma keeps_fields [keeps_intros]:
  "keeps (push_strn ok t s n)" "keeps (push_u8 ok t x)" "keeps (push_u32 ok t y)"
  "keeps (push_u64 ok t z)" "keeps push_fail"
  by (auto simp: push_strn_def push_u8_def push_u32_def push_u64_def keeps_tlv)
    (auto simp: keeps_def push_fail_def)

lemma keeps_with_len [keeps_intros]: "(\<And>l. keeps (f l)) \<Longrightarrow> keeps (with_len lo f)"
  by (auto simp: keeps_def with_len_def split: option.splits)

lemma keeps_if [keeps_intros]: "keeps p \<Longrightarrow> keeps q \<Longrightarrow> keeps (if c then p else q)"
  by simp

lemma keeps_str [keeps_intros]: "keeps (push_str ok t s)"
  using keeps_tlv [of ok t "str_obj s"]
  by (auto simp: keeps_def push_str_def split: option.splits)

lemma keeps_common [keeps_intros]: "keeps (push_intercept_common_fields ok junk c)"
  unfolding push_intercept_common_fields_def
  by (rule keeps_run) (auto intro: keeps_intros)

lemma keeps_static [keeps_intros]: "keeps (push_static_ipranges_generic ok ip ipro ty)"
proof (cases ipro)
  case None
  then show ?thesis by (auto simp: keeps_def push_static_ipranges_generic_def)
next
  case (Some ipr)
  then show ?thesis
    unfolding push_static_ipranges_generic_def [abs_def] Let_def
    by (auto intro!: keeps_intros)
qed

text \<open>C17. An encoder that fails half way (out of memory, or a value too long for a field) never
  disturbs what was queued before, and keeps the buffer invariant; what it pushed itself stays
  behind the queued bytes.\<close>

theorem encoders_keep:
  "keeps (push_ipintercept_onto_net_buffer ok junk ip) \<and>
   keeps (push_voipintercept_onto_net_buffer ok junk v) \<and>
   keeps (push_emailintercept_onto_net_buffer ok junk em) \<and>
   keeps (push_lea_onto_net_buffer ok lea) \<and>
   keeps (push_mediator_msg_onto_net_buffer ok med ty) \<and>
   keeps (push_coreserver_msg_onto_net_buffer ok cs cstype ty) \<and>
   keeps (push_sip_target_onto_net_buffer_generic ok sipid v ty) \<and>
   keeps (push_email_target_onto_net_buffer_generic ok tgt em ty) \<and>
   keeps (push_hi1_notification_onto_net_buffer ok nd) \<and>
   keeps (push_default_radius_msg_onto_net_buffer ok def ty)"
  unfolding push_ipintercept_onto_net_buffer_def push_voipintercept_onto_net_buffer_def
    push_emailintercept_onto_net_buffer_def push_lea_onto_net_buffer_def
    push_mediator_msg_onto_net_buffer_def push_coreserver_msg_onto_net_buffer_def
    push_sip_target_onto_net_buffer_generic_def push_email_target_onto_net_buffer_generic_def
    push_hi1_notification_onto_net_buffer_def push_default_radius_msg_onto_net_buffer_def
    push_ipintercept_fields_def push_static_ipranges_onto_net_buffer_def Let_def split_def
  by (intro conjI) (auto simp: list_all_iff intro!: keeps_intros)

end
