(* ===== verification/Export_Buffer.thy ===== *)
theory Export_Buffer
  imports Net_Buffer
begin

text \<open>
  The export buffer of \<^verbatim>\<open>src/src/export_buffer.c\<close>: the records that a collector or a mediator
  holds for a peer. The bytes before \<^verbatim>\<open>deadfront\<close> have been sent; \<^verbatim>\<open>partialfront\<close> bytes after it
  have been sent as part of a batch of which \<^verbatim>\<open>partialrem\<close> bytes are left; a Judy array keeps
  the offsets of some record starts, so that a batch ends at a record boundary.

  \<^verbatim>\<open>bufhead\<close> is the start of the memory and \<^verbatim>\<open>buftail\<close> an offset. The 32-bit counters are
  naturals with the wrap-around written out. \<^term>\<open>None\<close> stands for a failed assertion or for
  undefined behaviour after a failed shrinking \<^verbatim>\<open>realloc\<close>.
\<close>

subsection \<open>Judy1 arrays\<close>

text \<open>A Judy1 array is the sorted list of its indices: the macros to set and unset an index, and to
  find the first index from a position on, the next one after it and the last one before it.\<close>

type_synonym judy1 = "nat list"

definition J1S :: "nat \<Rightarrow> judy1 \<Rightarrow> judy1" where
  "J1S i js = (if i \<in> set js then js else insort i js)"

definition J1U :: "nat \<Rightarrow> judy1 \<Rightarrow> judy1" where
  "J1U i js = filter (\<lambda>j. j \<noteq> i) js"

definition J1F :: "nat \<Rightarrow> judy1 \<Rightarrow> nat option" where
  "J1F i js = List.find (\<lambda>j. i \<le> j) js"

definition J1N :: "nat \<Rightarrow> judy1 \<Rightarrow> nat option" where
  "J1N i js = List.find (\<lambda>j. i < j) js"

definition J1P :: "nat \<Rightarrow> judy1 \<Rightarrow> nat option" where
  "J1P i js = List.find (\<lambda>j. j < i) (rev js)"

subsection \<open>The buffer\<close>

definition BUFFER_ALLOC_SIZE :: nat where
  "BUFFER_ALLOC_SIZE = 1024 * 1024 * 50"

definition BUFFER_WARNING_THRESH :: nat where
  "BUFFER_WARNING_THRESH = 1024 * 1024 * 1024"

definition BUF_OFFSET_FREQUENCY :: nat where
  "BUF_OFFSET_FREQUENCY = 1024 * 256"

record export_buffer =
  eb_buf :: mem
  eb_tail :: nat
  eb_alloced :: nat
  eb_deadfront :: nat
  eb_partialfront :: nat
  eb_partialrem :: nat
  eb_nextwarn :: nat
  eb_offsets :: judy1
  eb_since :: nat

definition u32_wrap :: "nat \<Rightarrow> nat" where
  "u32_wrap n = n mod 2 ^ 32"

definition init_export_buffer :: "mem \<Rightarrow> export_buffer" where
  "init_export_buffer m =
     \<lparr> eb_buf = m, eb_tail = 0, eb_alloced = 0, eb_deadfront = 0, eb_partialfront = 0,
       eb_partialrem = 0, eb_nextwarn = BUFFER_WARNING_THRESH, eb_offsets = [], eb_since = 0 \<rparr>"

definition get_buffered_amount :: "export_buffer \<Rightarrow> nat" where
  "get_buffered_amount buf = eb_tail buf - eb_deadfront buf"

text \<open>The offset of the buffered data, if there is any, and the amount.\<close>

definition get_buffered_head :: "export_buffer \<Rightarrow> nat option \<times> nat" where
  "get_buffered_head buf =
     (let rem = get_buffered_amount buf in
      (if rem = 0 then None else Some (eb_deadfront buf), rem))"

definition reset_export_buffer :: "export_buffer \<Rightarrow> export_buffer" where
  "reset_export_buffer buf = buf \<lparr> eb_partialfront := 0, eb_partialrem := 0 \<rparr>"

text \<open>The loop of \<^verbatim>\<open>slide_buffer\<close> over the recorded offsets: its body, and the loop itself with the
  index that the last search returned.\<close>

definition slide_step :: "nat \<Rightarrow> nat \<Rightarrow> judy1 \<Rightarrow> judy1" where
  "slide_step slide i js = (if slide \<le> i then J1S (i - slide) (J1U i js) else J1U i js)"

lemma set_J1S [simp]: "set (J1S i js) = insert i (set js)"
  by (auto simp: J1S_def set_insort_key)

lemma set_J1U [simp]: "set (J1U i js) = set js - {i}"
  by (auto simp: J1U_def)

lemma J1N_SomeD: "J1N i js = Some k \<Longrightarrow> k \<in> set js \<and> i < k"
  by (auto simp: J1N_def find_Some_iff)

lemma slide_step_measure:
  assumes "J1N i (slide_step slide i js) = Some k"
  shows "card {j \<in> set (slide_step slide i js). k < j} < card {j \<in> set js. i < j}"
proof (rule psubset_card_mono)
  have "k \<in> set js" "i < k"
    using J1N_SomeD [OF assms] by (auto simp: slide_step_def split: if_splits)
  then show "{j \<in> set (slide_step slide i js). k < j} \<subset> {j \<in> set js. i < j}"
    by (auto simp: slide_step_def split: if_splits)
qed simp

function slide_loop :: "nat \<Rightarrow> nat option \<Rightarrow> judy1 \<Rightarrow> judy1" where
  "slide_loop slide None js = js"
| "slide_loop slide (Some i) js =
     slide_loop slide (J1N i (slide_step slide i js)) (slide_step slide i js)"
  by pat_completeness auto

termination
proof (relation "measure (\<lambda>(slide, io, js). case io of None \<Rightarrow> 0
    | Some i \<Rightarrow> Suc (card {j \<in> set js. i < j}))", goal_cases)
  case (2 slide i js)
  then show ?case
    using slide_step_measure [of i slide js] by (auto split: option.splits)
qed simp

text \<open>\<^term>\<open>start\<close> is an offset.\<close>

definition slide_buffer :: "export_buffer \<Rightarrow> nat \<Rightarrow> nat \<Rightarrow> export_buffer" where
  "slide_buffer buf start amount =
     (if amount = 0 then buf \<lparr> eb_offsets := [] \<rparr>
      else buf \<lparr> eb_buf := memmove (eb_buf buf) 0 start amount,
                 eb_offsets := slide_loop start (J1F 0 (eb_offsets buf)) (eb_offsets buf) \<rparr>)"

text \<open>The result is the space now left, 0 when there is no memory.\<close>

definition extend_buffer :: "allocator \<Rightarrow> export_buffer \<Rightarrow> nat \<times> export_buffer" where
  "extend_buffer ok buf =
     (let bufused = eb_tail buf - eb_deadfront buf;
          buf1 = (if eb_deadfront buf > 0 then slide_buffer buf (eb_deadfront buf) bufused else buf)
      in if \<not> ok (eb_alloced buf + BUFFER_ALLOC_SIZE) then (0, buf1)
         else let alloced = eb_alloced buf + BUFFER_ALLOC_SIZE;
                  buf2 = buf1 \<lparr> eb_deadfront := 0, eb_tail := bufused, eb_alloced := alloced,
                    eb_nextwarn :=
                      (if eb_alloced buf < eb_nextwarn buf \<and> alloced \<ge> eb_nextwarn buf
                       then eb_nextwarn buf + BUFFER_WARNING_THRESH else eb_nextwarn buf) \<rparr>
              in (alloced - bufused, buf2))"

lemma extend_buffer_space:
  assumes "extend_buffer ok buf = (sp, buf')" "sp \<noteq> 0"
  shows "eb_alloced buf' = eb_alloced buf + BUFFER_ALLOC_SIZE"
    "eb_tail buf' = eb_tail buf - eb_deadfront buf" "eb_deadfront buf' = 0"
    "sp = eb_alloced buf' - eb_tail buf'"
  using assms by (auto simp: extend_buffer_def Let_def split: if_splits)

lemma reserve_arith:
  "\<lbrakk>a + BUFFER_ALLOC_SIZE - u \<noteq> 0; a + BUFFER_ALLOC_SIZE - u < need\<rbrakk> \<Longrightarrow>
   need + u - (a + BUFFER_ALLOC_SIZE) < need + u - a"
  by (simp add: BUFFER_ALLOC_SIZE_def)

text \<open>The loop of the append functions; the flag is \<^term>\<open>False\<close> for the return of 0 when memory
  runs out.\<close>

function reserve :: "allocator \<Rightarrow> nat \<Rightarrow> nat \<Rightarrow> export_buffer \<Rightarrow> bool \<times> export_buffer" where
  "reserve ok need spaceleft buf =
     (if spaceleft < need
      then (case extend_buffer ok buf of
              (sp, buf') \<Rightarrow> if sp = 0 then (False, buf') else reserve ok need sp buf')
      else (True, buf))"
  by pat_completeness auto

termination
proof (relation "measure (\<lambda>(ok, need, sp, buf). if need \<le> sp then 0
    else Suc (need + (eb_tail buf - eb_deadfront buf) - eb_alloced buf))", goal_cases)
  case (2 ok need spaceleft buf sp buf')
  then have ext: "extend_buffer ok buf = (sp, buf')" and nz: "sp \<noteq> 0" by simp_all
  show ?case
    using 2(1) nz extend_buffer_space [OF ext nz]
      reserve_arith [of "eb_alloced buf" "eb_tail buf - eb_deadfront buf" need]
    by auto
qed simp

declare reserve.simps [simp del]

text \<open>The offset recorded is the end of the buffer as it was on entry.\<close>

definition save_offset :: "nat \<Rightarrow> nat \<Rightarrow> export_buffer \<Rightarrow> export_buffer" where
  "save_offset bufused added buf =
     (let buf' = (if u32_wrap (eb_since buf + added) \<ge> BUF_OFFSET_FREQUENCY
                  then buf \<lparr> eb_offsets := J1S bufused (eb_offsets buf), eb_since := 0 \<rparr>
                  else buf)
      in buf' \<lparr> eb_since := u32_wrap (eb_since buf' + added) \<rparr>)"

text \<open>The return value is the offset of the new end, or 0.\<close>

definition append_etsipdu_to_buffer ::
  "allocator \<Rightarrow> export_buffer \<Rightarrow> bytes \<Rightarrow> nat \<Rightarrow> nat \<times> export_buffer" where
  "append_etsipdu_to_buffer ok buf pdu beensent =
     (let bufused = eb_tail buf;
          spaceleft = eb_alloced buf - bufused;
          buf0 = (if bufused = 0 then buf \<lparr> eb_partialfront := beensent \<rparr> else buf)
      in case reserve ok (length pdu) spaceleft buf0 of
           (False, buf1) \<Rightarrow> (0, buf1)
         | (True, buf1) \<Rightarrow>
             let buf2 = save_offset bufused (length pdu)
                   (buf1 \<lparr> eb_buf := mem_write (eb_buf buf1) (eb_tail buf1) pdu \<rparr>);
                 buf3 = buf2 \<lparr> eb_tail := eb_tail buf2 + length pdu \<rparr>
             in (eb_tail buf3, buf3))"

text \<open>The encoded result that \<^verbatim>\<open>append_message_to_buffer\<close> copies: the header, the encoded part
  without the IP contents, and the IP contents. \<^verbatim>\<open>msgbody->len\<close> counts the last two.\<close>

record encoded_result =
  er_header :: ii_header
  er_encoded :: bytes
  er_msglen :: nat
  er_ipcontents :: bytes
  er_ipclen :: nat

definition put_tail :: "bytes \<Rightarrow> export_buffer \<Rightarrow> export_buffer" where
  "put_tail bs buf = buf \<lparr> eb_buf := mem_write (eb_buf buf) (eb_tail buf) bs,
                           eb_tail := eb_tail buf + length bs \<rparr>"

definition append_message_to_buffer ::
  "allocator \<Rightarrow> export_buffer \<Rightarrow> encoded_result \<Rightarrow> nat \<Rightarrow> nat \<times> export_buffer" where
  "append_message_to_buffer ok buf res beensent =
     (let enclen = u32_wrap (2 ^ 32 + er_msglen res - er_ipclen res);
          bufused = eb_tail buf;
          spaceleft = eb_alloced buf - bufused;
          buf0 = (if bufused = 0 then buf \<lparr> eb_partialfront := beensent \<rparr> else buf)
      in case reserve ok (er_msglen res + ii_header_size) spaceleft buf0 of
           (False, buf1) \<Rightarrow> (0, buf1)
         | (True, buf1) \<Rightarrow>
             let buf2 = put_tail (ii_header_bytes (er_header res)) buf1;
                 buf3 = (if enclen > 0 then put_tail (take enclen (er_encoded res)) buf2 else buf2);
                 buf4 = (if er_ipclen res > 0
                         then put_tail (take (er_ipclen res) (er_ipcontents res)) buf3 else buf3);
                 buf5 = save_offset bufused (u32_wrap (ii_header_size + er_msglen res)) buf4
             in (eb_tail buf5, buf5))"

text \<open>A 16-byte heartbeat. \<^verbatim>\<open>transmit_heartbeat\<close> retries until it is sent whole; the outcomes of the
  successive writes are the argument, with \<^term>\<open>Send_error True\<close> for a write to retry. A list
  that runs out before the message is sent stands for a loop that is still retrying.\<close>

definition heartbeat_bytes :: bytes where
  "heartbeat_bytes =
     ii_header_bytes \<lparr> hdr_magic = htonl OPENLI_PROTO_MAGIC, hdr_bodylen = 0,
       hdr_intercepttype = htons (word_of_nat (msgtype_code OPENLI_PROTO_HEARTBEAT)),
       hdr_internalid = 0 \<rparr>"

fun transmit_heartbeat_loop :: "send_result list \<Rightarrow> bytes \<Rightarrow> (int \<times> bytes) option" where
  "transmit_heartbeat_loop rs [] = Some (int ii_header_size, [])"
| "transmit_heartbeat_loop [] (b # bs) = None"
| "transmit_heartbeat_loop (Send_error again # rs) (b # bs) =
     (if again then transmit_heartbeat_loop rs (b # bs) else Some (-1, b # bs))"
| "transmit_heartbeat_loop (Sent n # rs) (b # bs) = transmit_heartbeat_loop rs (drop n (b # bs))"

definition transmit_heartbeat :: "send_result list \<Rightarrow> (int \<times> bytes) option" where
  "transmit_heartbeat rs = transmit_heartbeat_loop rs heartbeat_bytes"

text \<open>The comparisons with \<^verbatim>\<open>0.25 * alloced\<close> are multiplied out. \<^term>\<open>None\<close>: an assertion fails, or
  the shrinking \<^verbatim>\<open>realloc\<close> returns NULL.\<close>

definition post_transmit :: "allocator \<Rightarrow> export_buffer \<Rightarrow> export_buffer option" where
  "post_transmit ok buf =
     (if eb_tail buf < eb_deadfront buf then None
      else let rem = eb_tail buf - eb_deadfront buf in
        map_option reset_export_buffer
          (if rem < eb_alloced buf div 2 \<and> eb_alloced buf > 10 * BUFFER_ALLOC_SIZE
           then let resize = (rem div BUFFER_ALLOC_SIZE + 1) * BUFFER_ALLOC_SIZE;
                    buf1 = slide_buffer buf (eb_deadfront buf) rem
                in if ok resize
                   then Some (buf1 \<lparr> eb_tail := rem, eb_alloced := resize, eb_deadfront := 0 \<rparr>)
                   else None
           else if 4 * (eb_alloced buf - eb_tail buf) < eb_alloced buf \<and>
                   4 * eb_deadfront buf \<ge> eb_alloced buf
           then let buf1 = (slide_buffer buf (eb_deadfront buf) rem) \<lparr> eb_tail := rem \<rparr>
                in if eb_tail buf1 < eb_alloced buf1
                   then Some (buf1 \<lparr> eb_deadfront := 0 \<rparr>) else None
           else Some buf))"

text \<open>One write of a batch: over TLS the call is repeated until it has another outcome than
  \<^verbatim>\<open>SSL_ERROR_WANT_WRITE\<close>, and a return value of 0 is an error. The list holds the successive
  calls; \<^term>\<open>None\<close> means that it ended while the loop was still repeating.\<close>

fun batch_write :: "bool \<Rightarrow> send_call list \<Rightarrow> bytes \<Rightarrow> send_result option" where
  "batch_write ssl [] bs = None"
| "batch_write ssl (f # fs) bs =
     (case f bs of
        Send_error True \<Rightarrow> if ssl then batch_write ssl fs bs else Some (Send_error True)
      | Sent 0 \<Rightarrow> Some (if ssl then Send_error False else Sent 0)
      | r \<Rightarrow> Some r)"

text \<open>The amount of the next batch; \<^term>\<open>None\<close> when the assertion fails or the recorded offset lies
  before the unsent data.\<close>

definition batch_amount :: "nat \<Rightarrow> export_buffer \<Rightarrow> nat option" where
  "batch_amount bytelimit buf =
     (let sent = eb_tail buf - (eb_deadfront buf + eb_partialfront buf) in
      if eb_partialrem buf > 0 then Some (eb_partialrem buf)
      else if sent > bytelimit
      then (case J1P (bytelimit + 1 + eb_deadfront buf) (eb_offsets buf) of
              None \<Rightarrow> None
            | Some index \<Rightarrow> if index < eb_deadfront buf then None
                            else Some (index - eb_deadfront buf))
      else Some sent)"

text \<open>The result is the return value, the bytes that the connection accepted, and the buffer.\<close>

definition transmit_buffered_records ::
  "allocator \<Rightarrow> bool \<Rightarrow> send_call list \<Rightarrow> nat \<Rightarrow> export_buffer \<Rightarrow> (int \<times> bytes \<times> export_buffer) option"
where
  "transmit_buffered_records ok ssl calls bytelimit buf =
     (case batch_amount bytelimit buf of
        None \<Rightarrow> None
      | Some sent \<Rightarrow>
          let buf1 = buf \<lparr> eb_partialrem := u32_wrap sent \<rparr>;
              req = mem_read (eb_buf buf) (eb_deadfront buf + eb_partialfront buf) sent
          in if sent = 0 then map_option (\<lambda>b. (0, [], b)) (post_transmit ok buf1)
             else (case batch_write ssl calls req of
                     None \<Rightarrow> None
                   | Some (Send_error again) \<Rightarrow> Some (if again \<and> \<not> ssl then 0 else -1, [], buf1)
                   | Some (Sent ret) \<Rightarrow>
                       if ret < sent
                       then Some (int ret, take ret req,
                              buf1 \<lparr> eb_partialfront := u32_wrap (eb_partialfront buf1 + ret),
                                     eb_partialrem := eb_partialrem buf1 - ret \<rparr>)
                       else map_option (\<lambda>b. (int sent, take ret req, b))
                              (post_transmit ok
                                (buf1 \<lparr> eb_deadfront :=
                                   u32_wrap (eb_deadfront buf + (ret + eb_partialfront buf)) \<rparr>))))"

text \<open>\<^term>\<open>published\<close>: whether \<^verbatim>\<open>amqp_basic_publish\<close> succeeds. The return value does not tell.\<close>

definition transmit_buffered_records_RMQ ::
  "allocator \<Rightarrow> bool \<Rightarrow> nat \<Rightarrow> export_buffer \<Rightarrow> (nat \<times> bytes \<times> export_buffer) option" where
  "transmit_buffered_records_RMQ ok published bytelimit buf =
     (let sent = min (eb_tail buf - eb_deadfront buf) bytelimit;
          ret = (if published then sent else 0);
          buf1 = (if sent \<noteq> 0 then buf \<lparr> eb_deadfront := u32_wrap (eb_deadfront buf + ret) \<rparr>
                  else buf)
      in map_option (\<lambda>b. (sent, mem_read (eb_buf buf) (eb_deadfront buf) ret, b))
           (post_transmit ok buf1))"

definition advance_export_buffer_head :: "allocator \<Rightarrow> nat \<Rightarrow> export_buffer \<Rightarrow> export_buffer option" where
  "advance_export_buffer_head ok amount buf =
     post_transmit ok
       (buf \<lparr> eb_deadfront := u32_wrap (eb_deadfront buf + min amount (get_buffered_amount buf)) \<rparr>)"

subsection \<open>The invariant\<close>

text \<open>The data held, and the part of it that has not been handed to the connection.\<close>

definition eb_content :: "export_buffer \<Rightarrow> bytes" where
  "eb_content buf = mem_read (eb_buf buf) (eb_deadfront buf) (get_buffered_amount buf)"

definition eb_unsent :: "export_buffer \<Rightarrow> bytes" where
  "eb_unsent buf = drop (eb_partialfront buf) (eb_content buf)"

definition eb_wf :: "export_buffer \<Rightarrow> bool" where
  "eb_wf buf \<longleftrightarrow>
     eb_deadfront buf + eb_partialfront buf + eb_partialrem buf \<le> eb_tail buf \<and>
     (eb_partialrem buf = 0 \<longrightarrow> eb_partialfront buf = 0) \<and> eb_tail buf \<le> eb_alloced buf"

text \<open>The 32-bit counters describe offsets below 4 GiB only.\<close>

definition eb_inv :: "export_buffer \<Rightarrow> bool" where
  "eb_inv buf \<longleftrightarrow> eb_wf buf \<and> eb_tail buf < 2 ^ 32"

lemma eb_inv_wf: "eb_inv b \<Longrightarrow> eb_wf b"
  by (simp add: eb_inv_def)

lemma u32_wrap_id [simp]: "n < 2 ^ 32 \<Longrightarrow> u32_wrap n = n"
  by (simp add: u32_wrap_def)

lemma length_eb_content [simp]: "length (eb_content buf) = get_buffered_amount buf"
  by (simp add: eb_content_def)

lemma mem_read_memmove: "mem_read (memmove m 0 start n) 0 n = mem_read m start n"
  using mem_read_write [of m 0 "mem_read m start n"] by (simp add: memmove_def)

text \<open>What moving the data to the front leaves of the rest.\<close>

lemma slide_buffer_simps [simp]:
  "eb_tail (slide_buffer b st n) = eb_tail b"
  "eb_alloced (slide_buffer b st n) = eb_alloced b"
  "eb_deadfront (slide_buffer b st n) = eb_deadfront b"
  "eb_partialfront (slide_buffer b st n) = eb_partialfront b"
  "eb_partialrem (slide_buffer b st n) = eb_partialrem b"
  by (simp_all add: slide_buffer_def)

lemma slide_buffer_read: "mem_read (eb_buf (slide_buffer b st n)) 0 n = mem_read (eb_buf b) st n"
  by (simp add: slide_buffer_def mem_read_memmove)

lemma extend_buffer_props:
  assumes "extend_buffer ok b = (sp, b')" "sp \<noteq> 0" "eb_wf b"
  shows "eb_wf b'" "eb_content b' = eb_content b"
    "eb_partialfront b' = eb_partialfront b" "eb_partialrem b' = eb_partialrem b"
  using assms slide_buffer_read [of b "eb_deadfront b" "eb_tail b - eb_deadfront b"]
  by (auto simp: extend_buffer_def eb_wf_def eb_content_def get_buffered_amount_def Let_def
      split: if_splits)

lemma reserve_props:
  assumes "reserve ok need sp b = (True, b')" "eb_wf b" "sp = eb_alloced b - eb_tail b"
  shows "eb_wf b' \<and> eb_content b' = eb_content b \<and> eb_partialfront b' = eb_partialfront b \<and>
    eb_partialrem b' = eb_partialrem b \<and> eb_tail b' + need \<le> eb_alloced b'"
  using assms
proof (induction ok need sp b rule: reserve.induct)
  case (1 ok need sp b)
  show ?case
  proof (cases "sp < need")
    case False
    with 1 show ?thesis by (auto simp: reserve.simps eb_wf_def)
  next
    case True
    obtain sp1 b1 where ext: "extend_buffer ok b = (sp1, b1)" by force
    with True 1(2) have nz: "sp1 \<noteq> 0" and rest: "reserve ok need sp1 b1 = (True, b')"
      by (auto simp: reserve.simps [of ok need sp b] split: if_splits)
    show ?thesis
      using 1(1) [OF True ext [symmetric] nz rest]
        extend_buffer_props [OF ext nz 1(3)] extend_buffer_space [OF ext nz]
      by simp
  qed
qed

lemma reserve_ok:
  assumes "\<And>n. ok n" "eb_deadfront b \<le> eb_tail b" "eb_tail b \<le> eb_alloced b"
    "sp = eb_alloced b - eb_tail b"
  shows "\<exists>b'. reserve ok need sp b = (True, b') \<and> eb_deadfront b' \<le> eb_tail b' \<and>
    eb_tail b' + need \<le> eb_alloced b' \<and> eb_tail b' - eb_deadfront b' = eb_tail b - eb_deadfront b"
  using assms
proof (induction ok need sp b rule: reserve.induct)
  case (1 ok need sp b)
  show ?case
  proof (cases "sp < need")
    case False
    with 1 show ?thesis by (auto simp: reserve.simps)
  next
    case True
    obtain sp1 b1 where ext: "extend_buffer ok b = (sp1, b1)" by force
    then have nz: "sp1 \<noteq> 0"
      using 1(2-4) by (auto simp: extend_buffer_def Let_def BUFFER_ALLOC_SIZE_def)
    note sp1 = extend_buffer_space [OF ext nz]
    show ?thesis
      using 1(1) [OF True ext [symmetric] nz 1(2)] sp1 nz 1(3,4)
      by (simp add: reserve.simps [of ok need sp b] True ext)
  qed
qed

lemma save_offset_simps [simp]:
  "eb_buf (save_offset u n b) = eb_buf b"
  "eb_tail (save_offset u n b) = eb_tail b"
  "eb_alloced (save_offset u n b) = eb_alloced b"
  "eb_deadfront (save_offset u n b) = eb_deadfront b"
  "eb_partialfront (save_offset u n b) = eb_partialfront b"
  "eb_partialrem (save_offset u n b) = eb_partialrem b"
  by (simp_all add: save_offset_def Let_def)

text \<open>Writing at the tail extends the content, whatever happens to the saved offsets.\<close>

lemma eb_content_write:
  assumes "eb_deadfront b \<le> eb_tail b" "eb_buf b' = mem_write (eb_buf b) (eb_tail b) bs"
    "eb_deadfront b' = eb_deadfront b" "eb_tail b' = eb_tail b + length bs"
  shows "eb_content b' = eb_content b @ bs"
proof -
  obtain k where k: "eb_tail b = eb_deadfront b + k"
    using assms(1) le_Suc_ex by blast
  show ?thesis
    using assms(2-) by (simp add: eb_content_def get_buffered_amount_def k mem_read_append
        mem_read_write mem_read_write_before)
qed

lemma reserve_fresh:
  assumes "reserve ok need (eb_alloced b - eb_tail b)
       (if eb_tail b = 0 then b \<lparr> eb_partialfront := 0 \<rparr> else b) = (True, b1)" "eb_wf b"
  shows "eb_wf b1 \<and> eb_content b1 = eb_content b \<and> eb_partialfront b1 = eb_partialfront b \<and>
    eb_partialrem b1 = eb_partialrem b \<and> eb_tail b1 + need \<le> eb_alloced b1"
  using reserve_props [OF assms(1)] assms(2)
  by (auto simp: eb_wf_def eb_content_def get_buffered_amount_def split: if_splits)

lemma append_etsipdu_props:
  assumes "append_etsipdu_to_buffer ok b pdu 0 = (r, b')" "r \<noteq> 0" "eb_wf b"
  shows "eb_wf b'" "eb_content b' = eb_content b @ pdu" "eb_partialfront b' = eb_partialfront b"
    "r = eb_tail b'"
proof -
  obtain b1 where res: "reserve ok (length pdu) (eb_alloced b - eb_tail b)
      (if eb_tail b = 0 then b \<lparr> eb_partialfront := 0 \<rparr> else b) = (True, b1)"
    using assms(1,2) by (auto simp: append_etsipdu_to_buffer_def Let_def split: prod.splits bool.splits)
  note r1 = reserve_fresh [OF res assms(3)]
  let ?b2 = "save_offset (eb_tail b) (length pdu)
    (b1 \<lparr> eb_buf := mem_write (eb_buf b1) (eb_tail b1) pdu \<rparr>)"
  have b': "b' = ?b2 \<lparr> eb_tail := eb_tail b1 + length pdu \<rparr>" and r: "r = eb_tail b1 + length pdu"
    using assms(1) res by (auto simp: append_etsipdu_to_buffer_def Let_def)
  show "eb_content b' = eb_content b @ pdu"
    using eb_content_write [of b1 b' pdu] r1 by (simp add: b' eb_wf_def)
  show "eb_wf b'" "eb_partialfront b' = eb_partialfront b" "r = eb_tail b'"
    using r1 r by (auto simp: b' eb_wf_def)
qed

lemma post_transmit_props:
  assumes "post_transmit ok b = Some b'" "eb_deadfront b \<le> eb_tail b" "eb_tail b \<le> eb_alloced b"
    "eb_tail b < 2 ^ 32"
  shows "eb_inv b'" "eb_content b' = eb_content b" "eb_partialfront b' = 0"
proof -
  let ?n = "eb_tail b - eb_deadfront b"
  have div: "?n \<le> (?n div BUFFER_ALLOC_SIZE + 1) * BUFFER_ALLOC_SIZE"
    using div_mult_mod_eq [of ?n BUFFER_ALLOC_SIZE] mod_less_divisor [of BUFFER_ALLOC_SIZE ?n]
    by (simp add: BUFFER_ALLOC_SIZE_def)
  show "eb_inv b'" "eb_content b' = eb_content b" "eb_partialfront b' = 0"
    using assms div slide_buffer_read [of b "eb_deadfront b" ?n]
    by (auto simp: post_transmit_def reset_export_buffer_def eb_inv_def eb_wf_def eb_content_def
        get_buffered_amount_def Let_def split: if_splits)
qed

lemma post_transmit_total:
  assumes "eb_deadfront b \<le> eb_tail b" "eb_tail b \<le> eb_alloced b"
    "\<And>n. n < eb_alloced b \<Longrightarrow> ok n"
  shows "\<exists>b'. post_transmit ok b = Some b'"
proof -
  let ?n = "eb_tail b - eb_deadfront b"
  have "(?n div BUFFER_ALLOC_SIZE + 1) * BUFFER_ALLOC_SIZE \<le> ?n + BUFFER_ALLOC_SIZE"
    by simp
  then have "(?n div BUFFER_ALLOC_SIZE + 1) * BUFFER_ALLOC_SIZE < eb_alloced b"
    if "?n < eb_alloced b div 2" "eb_alloced b > 10 * BUFFER_ALLOC_SIZE"
    using that by linarith
  then show ?thesis
    using assms by (auto simp: post_transmit_def Let_def)
qed

subsection \<open>The recorded offsets\<close>

lemma sorted_slide_step: "sorted js \<Longrightarrow> sorted (slide_step slide i js)"
  by (simp add: slide_step_def J1S_def J1U_def sorted_insort sorted_wrt_filter)

lemma find_sorted_Some:
  assumes "List.find P js = Some k" "sorted js" "\<And>x y. x \<le> y \<Longrightarrow> P x \<Longrightarrow> P y"
  shows "{j \<in> set js. P j} = {j \<in> set js. k \<le> j}"
proof -
  have "P k" using assms(1) by (auto simp: find_Some_iff)
  moreover have "\<forall>j \<in> set js. P j \<longrightarrow> k \<le> j"
    using assms(1,2) by (induction js) (auto split: if_splits)
  ultimately show ?thesis using assms(3) by blast
qed

lemma slide_loop_set_aux:
  assumes "sorted js" "\<forall>i. io = Some i \<longrightarrow> i \<in> set js"
  shows "set (slide_loop slide io js) =
    (case io of None \<Rightarrow> set js
     | Some i \<Rightarrow> {j \<in> set js. j < i} \<union> {j - slide | j. j \<in> set js \<and> i \<le> j \<and> slide \<le> j})"
  using assms
proof (induction slide io js rule: slide_loop.induct)
  case (2 slide i js)
  let ?js = "slide_step slide i js"
  have i: "i \<in> set js" using 2(3) by simp
  note IH = 2(1) [OF sorted_slide_step [OF 2(2)]]
  have new: "{j \<in> set ?js. i < j} = {j \<in> set js. i < j}"
    by (auto simp: slide_step_def)
  show ?case
  proof (cases "J1N i ?js")
    case None
    then have "{j \<in> set js. i < j} = {}"
      using new by (auto simp: J1N_def find_None_iff)
    then show ?thesis
      using IH None i by (auto simp: slide_step_def not_less)
  next
    case (Some k)
    have k: "k \<in> set ?js" "i < k" using J1N_SomeD [OF Some] by simp_all
    have above: "{j \<in> set js. i < j} = {j \<in> set ?js. k \<le> j}"
      using find_sorted_Some [of "(<) i" ?js k] Some sorted_slide_step [OF 2(2)] new
      by (auto simp: J1N_def)
    have mem: "j \<in> set ?js \<longleftrightarrow> j \<in> set js \<and> j \<noteq> i \<or> j = i - slide \<and> slide \<le> i" for j
      by (auto simp: slide_step_def)
    have gt: "j \<in> set js \<and> i < j \<longleftrightarrow> j \<in> set ?js \<and> k \<le> j" for j
      using above by blast
    have below: "j \<in> set ?js \<and> j < k \<longleftrightarrow> j \<in> set js \<and> j < i \<or> j = i - slide \<and> slide \<le> i" for j
      using gt [of j] k(2) by (auto simp: mem)
    have "set (slide_loop slide (Some i) js) =
      {j. j \<in> set ?js \<and> j < k} \<union> {j - slide | j. (j \<in> set ?js \<and> k \<le> j) \<and> slide \<le> j}"
      using IH k by (simp add: Some)
    then show ?thesis
      unfolding gt [symmetric] below using i by (auto simp: le_less)
  qed
qed simp

lemma sorted_slide_loop: "sorted js \<Longrightarrow> sorted (slide_loop slide io js)"
  by (induction slide io js rule: slide_loop.induct) (simp_all add: sorted_slide_step)

lemma slide_loop_set:
  assumes "sorted js"
  shows "set (slide_loop slide (J1F 0 js) js) = {j - slide | j. j \<in> set js \<and> slide \<le> j}"
proof (cases js)
  case Nil
  then show ?thesis by (simp add: J1F_def)
next
  case (Cons i js')
  have "\<not> j < i" if "j \<in> set js" for j using assms that Cons by auto
  then show ?thesis
    using slide_loop_set_aux [OF assms, of "Some i" slide] Cons by (force simp: J1F_def)
qed

subsection \<open>Appending and transmitting\<close>

text \<open>A write call accepts at most what it was given.\<close>

definition honest :: "send_call \<Rightarrow> bool" where
  "honest f \<longleftrightarrow> (\<forall>bs n. f bs = Sent n \<longrightarrow> n \<le> length bs)"

lemma batch_write_Sent:
  "batch_write ssl calls bs = Some (Sent n) \<Longrightarrow> \<forall>f \<in> set calls. honest f \<Longrightarrow> n \<le> length bs"
  by (induction ssl calls bs rule: batch_write.induct)
     (auto simp: honest_def split: send_result.splits bool.splits nat.splits if_splits)

lemma J1P_SomeD: "J1P i js = Some k \<Longrightarrow> k \<in> set js \<and> k < i"
  by (auto simp: J1P_def find_Some_iff rev_nth)

lemma batch_amount_bound:
  assumes "eb_inv b" "batch_amount limit b = Some n"
  shows "eb_deadfront b + eb_partialfront b + n \<le> eb_tail b"
  using assms
  by (auto simp: batch_amount_def eb_inv_def eb_wf_def Let_def dest!: J1P_SomeD split: if_splits option.splits)

lemma batch_amount_zero:
  "eb_inv b \<Longrightarrow> batch_amount limit b = Some 0 \<Longrightarrow> eb_partialfront b = 0"
  by (auto simp: batch_amount_def eb_inv_def eb_wf_def Let_def split: if_splits option.splits)

lemma eb_unsent_read:
  "eb_inv b \<Longrightarrow> eb_unsent b =
     mem_read (eb_buf b) (eb_deadfront b + eb_partialfront b)
       (eb_tail b - (eb_deadfront b + eb_partialfront b))"
  by (subst eb_unsent_def)
     (simp add: eb_content_def get_buffered_amount_def eb_inv_def eb_wf_def mem_read_drop le_diff_conv2)

lemma eb_unsent_split:
  assumes "eb_inv b" "eb_deadfront b + eb_partialfront b + n \<le> eb_tail b"
  shows "mem_read (eb_buf b) (eb_deadfront b + eb_partialfront b) n @ drop n (eb_unsent b) = eb_unsent b"
  using assms mem_read_take [of n "eb_tail b - (eb_deadfront b + eb_partialfront b)" "eb_buf b"]
    append_take_drop_id [of n "eb_unsent b"]
  by (simp add: eb_unsent_read)

lemma transmit_buffered_records_props:
  assumes "transmit_buffered_records ok ssl calls limit b = Some (r, out, b')"
    "eb_inv b" "\<forall>f \<in> set calls. honest f"
  shows "eb_inv b' \<and> out @ eb_unsent b' = eb_unsent b"
proof -
  obtain n where n: "batch_amount limit b = Some n"
    using assms(1) by (auto simp: transmit_buffered_records_def split: option.splits)
  note bound = batch_amount_bound [OF assms(2) n]
  let ?p = "eb_deadfront b + eb_partialfront b"
  let ?b1 = "b \<lparr> eb_partialrem := u32_wrap n \<rparr>"
  let ?req = "mem_read (eb_buf b) ?p n"
  have w: "u32_wrap n = n" using bound assms(2) by (simp add: eb_inv_def eb_wf_def)
  have inv1: "eb_inv ?b1" and un1: "eb_unsent ?b1 = eb_unsent b"
    using bound assms(2) batch_amount_zero [OF assms(2)] n
    by (auto simp: eb_inv_def eb_wf_def eb_unsent_def eb_content_def get_buffered_amount_def w)
  consider (zero) b2 where "n = 0" "post_transmit ok ?b1 = Some b2" "out = []" "b' = b2"
    | (err) again where "batch_write ssl calls ?req = Some (Send_error again)" "out = []" "b' = ?b1"
    | (part) ret where "batch_write ssl calls ?req = Some (Sent ret)" "ret < n" "out = take ret ?req"
        "b' = ?b1 \<lparr> eb_partialfront := u32_wrap (eb_partialfront b + ret), eb_partialrem := n - ret \<rparr>"
    | (full) ret where "batch_write ssl calls ?req = Some (Sent ret)" "\<not> ret < n" "out = take ret ?req"
        "post_transmit ok (?b1 \<lparr> eb_deadfront := u32_wrap (eb_deadfront b + (ret + eb_partialfront b)) \<rparr>)
          = Some b'"
    using assms(1)
    by (auto simp: transmit_buffered_records_def n w Let_def split: option.splits send_result.splits if_splits)
  then show ?thesis
  proof cases
    case zero
    then show ?thesis
      using batch_amount_zero [OF assms(2)] n zero post_transmit_props [OF zero(2)] inv1 un1
      by (simp add: eb_unsent_def eb_inv_def eb_wf_def)
  next
    case err
    then show ?thesis using inv1 un1 by simp
  next
    case part
    have wf: "u32_wrap (eb_partialfront b + ret) = ret + eb_partialfront b"
      using part(2) bound assms(2) by (simp add: eb_inv_def eb_wf_def)
    have "eb_unsent b' = drop ret (eb_unsent b)"
      by (simp add: part(4) wf eb_unsent_def eb_content_def get_buffered_amount_def)
    moreover have "out = mem_read (eb_buf b) ?p ret"
      using part(2,3) by (simp add: mem_read_take)
    moreover have "eb_inv b'"
      using part(2) bound assms(2) by (simp add: part(4) wf eb_inv_def eb_wf_def)
    ultimately show ?thesis
      using eb_unsent_split [OF assms(2), of ret] part(2) bound by simp
  next
    case full
    let ?b2 = "?b1 \<lparr> eb_deadfront := u32_wrap (eb_deadfront b + (ret + eb_partialfront b)) \<rparr>"
    have ret: "ret = n"
      using batch_write_Sent [OF full(1) assms(3)] full(2) by simp
    have wd: "u32_wrap (eb_deadfront b + (ret + eb_partialfront b)) = ?p + n"
      using bound assms(2) by (simp add: eb_inv_def eb_wf_def ret)
    have c: "eb_content ?b2 = drop n (eb_unsent b)"
      using bound by (simp add: wd eb_unsent_read [OF assms(2)] mem_read_drop eb_content_def
          get_buffered_amount_def)
    have b': "eb_inv b'" "eb_content b' = eb_content ?b2" "eb_partialfront b' = 0"
      using post_transmit_props [OF full(4)] bound assms(2) by (simp_all add: wd eb_inv_def eb_wf_def)
    then have "eb_unsent b' = drop n (eb_unsent b)"
      by (simp only: c eb_unsent_def [of b'] drop_0)
    with b'(1) show ?thesis
      using eb_unsent_split [OF assms(2) bound] full(3) by (simp add: ret)
  qed
qed

text \<open>The lengths of an encoded result agree with its parts, and the sum fits the 32-bit counter.\<close>

definition er_ok :: "encoded_result \<Rightarrow> bool" where
  "er_ok res \<longleftrightarrow>
     er_msglen res = length (er_encoded res) + length (er_ipcontents res) \<and>
     er_ipclen res = length (er_ipcontents res) \<and> er_msglen res < 2 ^ 32"

definition er_bytes :: "encoded_result \<Rightarrow> bytes" where
  "er_bytes res = ii_header_bytes (er_header res) @ er_encoded res @ er_ipcontents res"

lemma put_tail_Nil [simp]: "put_tail [] b = b"
proof -
  have "mem_write m p [] = m" for m p by (rule ext) (auto simp: mem_write_def)
  then show ?thesis by (simp add: put_tail_def)
qed

lemma put_tail_simps [simp]:
  "eb_tail (put_tail bs b) = eb_tail b + length bs"
  "eb_alloced (put_tail bs b) = eb_alloced b"
  "eb_deadfront (put_tail bs b) = eb_deadfront b"
  "eb_partialfront (put_tail bs b) = eb_partialfront b"
  "eb_partialrem (put_tail bs b) = eb_partialrem b"
  by (simp_all add: put_tail_def)

lemma eb_content_put_tail:
  "eb_deadfront b \<le> eb_tail b \<Longrightarrow> eb_content (put_tail bs b) = eb_content b @ bs"
  by (rule eb_content_write) (simp_all add: put_tail_def)

lemma eb_content_save_offset [simp]: "eb_content (save_offset u n b) = eb_content b"
  by (simp add: eb_content_def get_buffered_amount_def)

lemma append_message_eq:
  assumes "append_message_to_buffer ok b res 0 = (r, b')" "r \<noteq> 0" "er_ok res"
  obtains b1 where
    "reserve ok (er_msglen res + ii_header_size) (eb_alloced b - eb_tail b)
       (if eb_tail b = 0 then b \<lparr> eb_partialfront := 0 \<rparr> else b) = (True, b1)"
    "b' = save_offset (eb_tail b) (u32_wrap (ii_header_size + er_msglen res))
       (put_tail (er_ipcontents res) (put_tail (er_encoded res)
         (put_tail (ii_header_bytes (er_header res)) b1)))"
    "r = eb_tail b'"
proof -
  have enc: "u32_wrap (2 ^ 32 + er_msglen res - er_ipclen res) = length (er_encoded res)"
    and ipc: "er_ipclen res = length (er_ipcontents res)"
    using assms(3) by (simp_all add: er_ok_def u32_wrap_def)
  have put: "(if length bs > 0 then put_tail bs x else x) = put_tail bs x" for bs x
    by simp
  show ?thesis
    using that assms(1,2) unfolding append_message_to_buffer_def Let_def enc unfolding ipc
    by (auto simp: put simp del: length_greater_0_conv split: prod.splits bool.splits)
qed

lemma append_message_props:
  assumes "append_message_to_buffer ok b res 0 = (r, b')" "r \<noteq> 0" "eb_wf b" "er_ok res"
  shows "eb_wf b'" "eb_content b' = eb_content b @ er_bytes res"
    "eb_partialfront b' = eb_partialfront b" "r = eb_tail b'"
proof -
  obtain b1 where res: "reserve ok (er_msglen res + ii_header_size) (eb_alloced b - eb_tail b)
       (if eb_tail b = 0 then b \<lparr> eb_partialfront := 0 \<rparr> else b) = (True, b1)"
    and b': "b' = save_offset (eb_tail b) (u32_wrap (ii_header_size + er_msglen res))
       (put_tail (er_ipcontents res) (put_tail (er_encoded res)
         (put_tail (ii_header_bytes (er_header res)) b1)))" and r: "r = eb_tail b'"
    using append_message_eq [OF assms(1,2,4)] .
  note r1 = reserve_fresh [OF res assms(3)]
  then show "eb_content b' = eb_content b @ er_bytes res"
    by (simp add: b' eb_wf_def eb_content_put_tail er_bytes_def)
  show "eb_wf b'" "eb_partialfront b' = eb_partialfront b" "r = eb_tail b'"
    using r1 assms(4) r by (auto simp: b' eb_wf_def er_ok_def)
qed

subsection \<open>The buffer as a byte stream\<close>

text \<open>A successful append, below the 4 GiB that the 32-bit \<^verbatim>\<open>deadfront\<close> can describe, and the
  advance of the head by a reader that consumed part of the content.\<close>

definition append_pdu :: "allocator \<Rightarrow> bytes \<Rightarrow> export_buffer \<Rightarrow> export_buffer option" where
  "append_pdu ok bs buf =
     (case append_etsipdu_to_buffer ok buf bs 0 of
        (r, buf') \<Rightarrow> if r = 0 \<or> 2 ^ 32 \<le> r then None else Some buf')"

definition advance_by :: "allocator \<Rightarrow> nat \<Rightarrow> export_buffer \<Rightarrow> export_buffer" where
  "advance_by ok n buf = the (advance_export_buffer_head ok n buf)"

lemma append_pdu_props:
  assumes "eb_inv b" "append_pdu ok bs b = Some b'"
  shows "eb_inv b'" "eb_content b' = eb_content b @ bs"
proof -
  obtain r where r: "append_etsipdu_to_buffer ok b bs 0 = (r, b')" "r \<noteq> 0" "r < 2 ^ 32"
    using assms(2) by (auto simp: append_pdu_def split: prod.splits if_splits)
  show "eb_inv b'" "eb_content b' = eb_content b @ bs"
    using append_etsipdu_props [OF r(1,2)] assms(1) r(3) by (simp_all add: eb_inv_def eb_wf_def)
qed

lemma advance_head_props:
  assumes "advance_export_buffer_head ok n b = Some b'" "eb_inv b" "n \<le> get_buffered_amount b"
  shows "eb_inv b'" "eb_content b' = drop n (eb_content b)"
proof -
  let ?b = "b \<lparr> eb_deadfront := eb_deadfront b + n \<rparr>"
  have le: "eb_deadfront b + n \<le> eb_tail b" and lt: "eb_tail b < 2 ^ 32"
    using assms(2,3) by (auto simp: eb_inv_def eb_wf_def get_buffered_amount_def)
  then have eq: "post_transmit ok ?b = Some b'"
    using assms(1,3) by (simp add: advance_export_buffer_head_def min_absorb1)
  have "eb_content ?b = drop n (eb_content b)"
    using assms(3) by (simp add: eb_content_def get_buffered_amount_def mem_read_drop)
  then show "eb_inv b'" "eb_content b' = drop n (eb_content b)"
    using post_transmit_props [OF eq] le assms(2) by (simp_all add: eb_inv_def eb_wf_def)
qed

lemma advance_head_total:
  assumes "eb_inv b" "n \<le> get_buffered_amount b" "\<And>k. ok k"
  shows "\<exists>b'. advance_export_buffer_head ok n b = Some b'"
  unfolding advance_export_buffer_head_def
  using assms by (intro post_transmit_total) (auto simp: eb_inv_def eb_wf_def get_buffered_amount_def min_absorb1)

interpretation export_fifo: byte_fifo eb_content eb_inv "append_pdu ok" "advance_by (\<lambda>_. True)" for ok
proof
  fix b n assume "eb_inv b" "n \<le> length (eb_content b)"
  then show "eb_inv (advance_by (\<lambda>_. True) n b)"
    "eb_content (advance_by (\<lambda>_. True) n b) = drop n (eb_content b)"
    using advance_head_total [of b n "\<lambda>_. True"] advance_head_props [of "\<lambda>_. True" n b]
    by (auto simp: advance_by_def)
qed (simp_all add: append_pdu_props)

text \<open>A run of a forwarding thread on a socket: records queued in either form, and calls of
  \<^verbatim>\<open>transmit_buffered_records\<close>. The output is what the connection accepted; the run has no
  result when an append fails or the process stops.\<close>

datatype export_op =
  Queue_pdu bytes
| Queue_msg encoded_result
| Transmit bool "send_call list" nat

definition append_msg :: "allocator \<Rightarrow> encoded_result \<Rightarrow> export_buffer \<Rightarrow> export_buffer option" where
  "append_msg ok res buf =
     (case append_message_to_buffer ok buf res 0 of
        (r, buf') \<Rightarrow> if r = 0 \<or> 2 ^ 32 \<le> r then None else Some buf')"

fun export_run :: "allocator \<Rightarrow> export_op list \<Rightarrow> export_buffer \<Rightarrow> (bytes \<times> export_buffer) option" where
  "export_run ok [] b = Some ([], b)"
| "export_run ok (Queue_pdu bs # ops) b =
     (case append_pdu ok bs b of None \<Rightarrow> None | Some b' \<Rightarrow> export_run ok ops b')"
| "export_run ok (Queue_msg res # ops) b =
     (case append_msg ok res b of None \<Rightarrow> None | Some b' \<Rightarrow> export_run ok ops b')"
| "export_run ok (Transmit ssl calls limit # ops) b =
     (case transmit_buffered_records ok ssl calls limit b of
        None \<Rightarrow> None
      | Some (r, out, b') \<Rightarrow> map_option (\<lambda>(out', b''). (out @ out', b'')) (export_run ok ops b'))"

fun export_input :: "export_op list \<Rightarrow> bytes" where
  "export_input [] = []"
| "export_input (Queue_pdu bs # ops) = bs @ export_input ops"
| "export_input (Queue_msg res # ops) = er_bytes res @ export_input ops"
| "export_input (Transmit ssl calls limit # ops) = export_input ops"

fun export_op_ok :: "export_op \<Rightarrow> bool" where
  "export_op_ok (Queue_pdu bs) \<longleftrightarrow> True"
| "export_op_ok (Queue_msg res) \<longleftrightarrow> er_ok res"
| "export_op_ok (Transmit ssl calls limit) \<longleftrightarrow> (\<forall>f \<in> set calls. honest f)"

lemma eb_unsent_append:
  assumes "eb_wf b" "eb_content b' = eb_content b @ bs" "eb_partialfront b' = eb_partialfront b"
  shows "eb_unsent b' = eb_unsent b @ bs"
  using assms by (simp add: eb_unsent_def eb_wf_def get_buffered_amount_def)

lemma append_pdu_unsent:
  assumes "eb_inv b" "append_pdu ok bs b = Some b'"
  shows "eb_inv b' \<and> eb_unsent b' = eb_unsent b @ bs"
proof -
  obtain r where r: "append_etsipdu_to_buffer ok b bs 0 = (r, b')" "r \<noteq> 0" "r < 2 ^ 32"
    using assms(2) by (auto simp: append_pdu_def split: prod.splits if_splits)
  note props = append_etsipdu_props [OF r(1,2) eb_inv_wf [OF assms(1)]]
  have "eb_inv b'" using props(1,4) r(3) by (simp add: eb_inv_def eb_wf_def)
  with eb_unsent_append [OF eb_inv_wf [OF assms(1)] props(2,3)] show ?thesis by simp
qed

lemma append_msg_unsent:
  assumes "eb_inv b" "append_msg ok res b = Some b'" "er_ok res"
  shows "eb_inv b' \<and> eb_unsent b' = eb_unsent b @ er_bytes res"
proof -
  obtain r where r: "append_message_to_buffer ok b res 0 = (r, b')" "r \<noteq> 0" "r < 2 ^ 32"
    using assms(2) by (auto simp: append_msg_def split: prod.splits if_splits)
  note props = append_message_props [OF r(1,2) eb_inv_wf [OF assms(1)] assms(3)]
  have "eb_inv b'" using props(1,4) r(3) by (simp add: eb_inv_def eb_wf_def)
  with eb_unsent_append [OF eb_inv_wf [OF assms(1)] props(2,3)] show ?thesis by simp
qed

lemma export_run_stream:
  assumes "eb_inv b" "\<forall>op \<in> set ops. export_op_ok op" "export_run ok ops b = Some (out, b')"
  shows "eb_inv b' \<and> out @ eb_unsent b' = eb_unsent b @ export_input ops"
  using assms
proof (induction ok ops b arbitrary: out rule: export_run.induct)
  case (2 ok bs ops b)
  then show ?case by (auto dest: append_pdu_unsent split: option.splits)
next
  case (3 ok res ops b)
  then show ?case by (auto dest: append_msg_unsent split: option.splits)
next
  case (4 ok ssl calls limit ops b)
  then obtain r o1 b1 o2 where tr: "transmit_buffered_records ok ssl calls limit b = Some (r, o1, b1)"
    and rest: "export_run ok ops b1 = Some (o2, b')" and out: "out = o1 @ o2"
    by (auto split: option.splits)
  have inv: "eb_inv b1 \<and> o1 @ eb_unsent b1 = eb_unsent b"
    using transmit_buffered_records_props [OF tr 4(2)] 4(3) by simp
  moreover have "eb_inv b' \<and> o2 @ eb_unsent b' = eb_unsent b1 @ export_input ops"
    using 4(1) [OF tr _ _ _ _ rest] inv 4(3) by simp
  ultimately show ?case by (metis append_assoc export_input.simps(4) out)
qed simp

subsection \<open>Properties\<close>

lemmas export_eval =
  append_pdu_def append_etsipdu_to_buffer_def reserve.simps extend_buffer_def slide_buffer_def
  save_offset_def init_export_buffer_def transmit_buffered_records_def batch_amount_def
  post_transmit_def reset_export_buffer_def get_buffered_amount_def u32_wrap_def
  BUFFER_ALLOC_SIZE_def BUFFER_WARNING_THRESH_def BUF_OFFSET_FREQUENCY_def

text \<open>C6. Whatever the interleaving of queued records and calls of \<^verbatim>\<open>transmit_buffered_records\<close>, with
  or without TLS, with partial writes, retries and errors, the bytes the connection accepted
  followed by the bytes still unsent are the bytes unsent at first followed by the records
  queued, in order: nothing is lost, repeated or reordered by extending, sliding and shrinking
  the buffer.\<close>

theorem export_stream:
  assumes "eb_inv b" "\<forall>op \<in> set ops. export_op_ok op" "export_run ok ops b = Some (out, b')"
  shows "out @ eb_unsent b' = eb_unsent b @ export_input ops"
  using export_run_stream [OF assms] by simp

definition sample_ops :: "export_op list" where
  "sample_ops = [Queue_pdu [1, 2, 3], Transmit False [\<lambda>bs. Sent (min 1 (length bs))] 10]"

lemma sample_ops_run:
  "map_option fst (export_run (\<lambda>_. True) sample_ops (init_export_buffer (\<lambda>_. 0))) = Some [1]"
  by (simp add: sample_ops_def export_eval Let_def mem_write_def)

lemma eb_inv_init [simp]: "eb_inv (init_export_buffer m)"
  by (simp add: eb_inv_def eb_wf_def init_export_buffer_def)

theorem export_stream_witness:
  "\<exists>b'. export_run (\<lambda>_. True) sample_ops (init_export_buffer (\<lambda>_. 0)) = Some ([1], b') \<and>
     eb_unsent b' = [2, 3]"
proof -
  let ?b = "init_export_buffer (\<lambda>_. 0)"
  obtain b' where run: "export_run (\<lambda>_. True) sample_ops ?b = Some ([1], b')"
    using sample_ops_run by auto
  have "\<forall>op \<in> set sample_ops. export_op_ok op"
    by (simp add: sample_ops_def honest_def)
  then have "[1] @ eb_unsent b' = eb_unsent ?b @ export_input sample_ops"
    by (rule export_stream [OF eb_inv_init _ run])
  then show ?thesis
    using run by (simp add: sample_ops_def eb_unsent_def eb_content_def get_buffered_amount_def
        init_export_buffer_def)
qed

text \<open>C29. The reader that takes data from \<^verbatim>\<open>get_buffered_head\<close> and then calls
  \<^verbatim>\<open>advance_export_buffer_head\<close>, such as the pcap writer, sees the queued records in order, each
  byte once, for every interleaving with appends.\<close>

theorem export_head_stream:
  assumes "eb_inv b"
    "fifo_run eb_content (append_pdu ok) (advance_by (\<lambda>_. True)) ops b = Some (out, b')"
  shows "out @ eb_content b' = eb_content b @ fifo_input ops"
  using assms by (rule export_fifo.run_stream)

theorem export_head_stream_witness:
  "fifo_input [Append [1, 2], Consume 1] = [1, 2] \<and>
   (\<exists>b'. fifo_run eb_content (append_pdu (\<lambda>_. True)) (advance_by (\<lambda>_. True))
      [Append [1, 2], Consume 1] (init_export_buffer (\<lambda>_. 0)) = Some ([1], b') \<and> eb_content b' = [2])"
proof -
  obtain b' where run: "fifo_run eb_content (append_pdu (\<lambda>_. True)) (advance_by (\<lambda>_. True))
      [Append [1, 2], Consume 1] (init_export_buffer (\<lambda>_. 0)) = Some ([1], b')"
    by (simp add: export_eval eb_content_def Let_def mem_write_def)
  show ?thesis
    using run export_head_stream [OF eb_inv_init run]
    by (simp add: eb_content_def get_buffered_amount_def init_export_buffer_def)
qed

text \<open>C30. Moving the data to the front keeps the recorded offsets in step: they are exactly the
  former offsets within the data moved, less the distance, and each is the place of the same
  bytes as before.\<close>

theorem slide_buffer_offsets:
  assumes "sorted (eb_offsets b)" "start + amount = eb_tail b" "0 < amount"
  shows "set (eb_offsets (slide_buffer b start amount)) =
       {j - start | j. j \<in> set (eb_offsets b) \<and> start \<le> j} \<and>
     (\<forall>j. start \<le> j \<and> j \<le> eb_tail b \<longrightarrow>
        mem_read (eb_buf (slide_buffer b start amount)) (j - start) (eb_tail b - j) =
        mem_read (eb_buf b) j (eb_tail b - j))"
proof (intro conjI allI impI)
  show "set (eb_offsets (slide_buffer b start amount)) =
      {j - start | j. j \<in> set (eb_offsets b) \<and> start \<le> j}"
    using slide_loop_set [OF assms(1)] assms(3) by (simp add: slide_buffer_def)
next
  fix j assume j: "start \<le> j \<and> j \<le> eb_tail b"
  then obtain k where k: "j = start + k" "k \<le> amount"
    using assms(2) by (auto simp: le_iff_add)
  then show "mem_read (eb_buf (slide_buffer b start amount)) (j - start) (eb_tail b - j) =
      mem_read (eb_buf b) j (eb_tail b - j)"
    using arg_cong [OF slide_buffer_read [of b start amount], of "drop k"] assms(2)
    by (simp add: mem_read_drop flip: assms(2))
qed

theorem slide_buffer_offsets_witness:
  "set (eb_offsets (slide_buffer (init_export_buffer (\<lambda>_. 0) \<lparr> eb_tail := 9, eb_offsets := [2, 5, 7] \<rparr>) 4 5)) = {1, 3}"
proof -
  let ?b = "init_export_buffer (\<lambda>_. 0) \<lparr> eb_tail := 9, eb_offsets := [2, 5, 7] \<rparr>"
  have "{j - 4 | j. j \<in> set [2, 5, 7 :: nat] \<and> 4 \<le> j} = {1, 3}" by force
  then show ?thesis
    using slide_buffer_offsets [of ?b 4 5] by simp
qed



text \<open>C32. A new batch is no longer than the limit, and when the data exceed the limit it ends at a
  recorded offset.\<close>

theorem batch_amount_limit:
  assumes "batch_amount limit b = Some n" "eb_partialrem b = 0"
  shows "n \<le> limit \<and>
    (limit < eb_tail b - (eb_deadfront b + eb_partialfront b) \<longrightarrow>
       eb_deadfront b + n \<in> set (eb_offsets b))"
  using assms
  by (auto simp: batch_amount_def Let_def dest!: J1P_SomeD split: if_splits option.splits)

theorem batch_amount_limit_witness:
  "batch_amount 6 (init_export_buffer (\<lambda>_. 0) \<lparr> eb_tail := 9, eb_offsets := [2, 5, 7] \<rparr>) = Some 5 \<and>
   5 \<le> (6 :: nat)"
  using batch_amount_limit [of 6 "init_export_buffer (\<lambda>_. 0) \<lparr> eb_tail := 9, eb_offsets := [2, 5, 7] \<rparr>" 5]
  by (simp add: batch_amount_def init_export_buffer_def J1P_def)



end
