(* ===== verification/Publish.thy ===== *)
theory Publish
  imports Export_Buffer Util
begin

text \<open>
  The messages between the threads of a collector (\<^verbatim>\<open>src/src/collector/collector_publish.h\<close> and
  \<^verbatim>\<open>collector_publish.c\<close>): announcements of intercepts and mediators, and the jobs that become
  exported records.

  The union in \<^verbatim>\<open>openli_export_recv\<close> is a datatype with one constructor for each member. A
  message whose \<^verbatim>\<open>type\<close> does not agree with the member written last is one that the code would
  misread. Pointers to data that these threads only pass on are opaque.
\<close>

subsection \<open>Message types\<close>

definition OPENLI_EXPORT_MEDIATOR :: u8 where "OPENLI_EXPORT_MEDIATOR = 3"
definition OPENLI_EXPORT_FLAG_MEDIATORS :: u8 where "OPENLI_EXPORT_FLAG_MEDIATORS = 4"
definition OPENLI_EXPORT_RECONNECT_ALL_MEDIATORS :: u8 where
  "OPENLI_EXPORT_RECONNECT_ALL_MEDIATORS = 5"
definition OPENLI_EXPORT_DROP_ALL_MEDIATORS :: u8 where "OPENLI_EXPORT_DROP_ALL_MEDIATORS = 6"
definition OPENLI_EXPORT_DROP_SINGLE_MEDIATOR :: u8 where "OPENLI_EXPORT_DROP_SINGLE_MEDIATOR = 7"
definition OPENLI_EXPORT_IPCC :: u8 where "OPENLI_EXPORT_IPCC = 8"
definition OPENLI_EXPORT_IPMMCC :: u8 where "OPENLI_EXPORT_IPMMCC = 9"
definition OPENLI_EXPORT_IPIRI :: u8 where "OPENLI_EXPORT_IPIRI = 10"
definition OPENLI_EXPORT_IPMMIRI :: u8 where "OPENLI_EXPORT_IPMMIRI = 11"
definition OPENLI_EXPORT_INTERCEPT_DETAILS :: u8 where "OPENLI_EXPORT_INTERCEPT_DETAILS = 12"
definition OPENLI_EXPORT_INTERCEPT_OVER :: u8 where "OPENLI_EXPORT_INTERCEPT_OVER = 13"
definition OPENLI_EXPORT_HALT :: u8 where "OPENLI_EXPORT_HALT = 14"
definition OPENLI_EXPORT_RECONFIGURE_INTERCEPTS :: u8 where
  "OPENLI_EXPORT_RECONFIGURE_INTERCEPTS = 15"
definition OPENLI_EXPORT_UMTSCC :: u8 where "OPENLI_EXPORT_UMTSCC = 16"
definition OPENLI_EXPORT_UMTSIRI :: u8 where "OPENLI_EXPORT_UMTSIRI = 17"
definition OPENLI_EXPORT_RAW_SYNC :: u8 where "OPENLI_EXPORT_RAW_SYNC = 18"
definition OPENLI_EXPORT_INTERCEPT_CHANGED :: u8 where "OPENLI_EXPORT_INTERCEPT_CHANGED = 19"
definition OPENLI_EXPORT_EMAILCC :: u8 where "OPENLI_EXPORT_EMAILCC = 21"
definition OPENLI_EXPORT_EMAILIRI :: u8 where "OPENLI_EXPORT_EMAILIRI = 22"

lemmas export_type_defs =
  OPENLI_EXPORT_MEDIATOR_def OPENLI_EXPORT_FLAG_MEDIATORS_def
  OPENLI_EXPORT_RECONNECT_ALL_MEDIATORS_def OPENLI_EXPORT_DROP_ALL_MEDIATORS_def
  OPENLI_EXPORT_DROP_SINGLE_MEDIATOR_def OPENLI_EXPORT_IPCC_def OPENLI_EXPORT_IPMMCC_def
  OPENLI_EXPORT_IPIRI_def OPENLI_EXPORT_IPMMIRI_def OPENLI_EXPORT_INTERCEPT_DETAILS_def
  OPENLI_EXPORT_INTERCEPT_OVER_def OPENLI_EXPORT_HALT_def OPENLI_EXPORT_RECONFIGURE_INTERCEPTS_def
  OPENLI_EXPORT_UMTSCC_def OPENLI_EXPORT_UMTSIRI_def OPENLI_EXPORT_RAW_SYNC_def
  OPENLI_EXPORT_INTERCEPT_CHANGED_def OPENLI_EXPORT_EMAILCC_def OPENLI_EXPORT_EMAILIRI_def

subsection \<open>Jobs\<close>

record ipcc_job =
  ipcc_liid :: "cstr option"
  ipcc_ipcontent :: "bytes option"
  ipcc_ipclen :: u32
  ipcc_ipcalloc :: u32
  ipcc_liidalloc :: u16
  ipcc_cin :: u32
  ipcc_dir :: u8

record emailiri_job =
  emailiri_liid :: "cstr option"
  emailiri_cin :: u32
  emailiri_iritype :: u32
  emailiri_content :: ptr
  emailiri_customparams :: ptr

record emailcc_job =
  emailcc_liid :: "cstr option"
  emailcc_cin :: u32
  emailcc_format :: u8
  emailcc_dir :: u8
  emailcc_content :: "bytes option"
  emailcc_content_len :: int

record ipmmiri_job =
  ipmmiri_liid :: "cstr option"
  ipmmiri_cin :: u32
  ipmmiri_iritype :: u32
  ipmmiri_style :: u8
  ipmmiri_content :: "bytes option"
  ipmmiri_contentlen :: u16
  ipmmiri_ipsrc :: bytes
  ipmmiri_ipdest :: bytes
  ipmmiri_ipfamily :: int

record mobiri_job =
  mobiri_liid :: "cstr option"
  mobiri_cin :: u32
  mobiri_iritype :: u32
  mobiri_customparams :: ptr

record ipiri_job =
  ipiri_liid :: "cstr option"
  ipiri_cin :: u32
  ipiri_username :: "cstr option"
  ipiri_assignedips :: ptr
  ipiri_ipcount :: u8
  ipiri_ipversioning :: u8
  ipiri_sessionstartts :: "int \<times> int"
  ipiri_access_tech :: u32
  ipiri_special :: u8
  ipiri_ipassignmentmethod :: u8
  ipiri_iritype :: u32
  ipiri_customparams :: ptr

record rawip_job =
  rawip_liid :: "cstr option"
  rawip_ipcontent :: "bytes option"
  rawip_ipclen :: u32
  rawip_seqno :: u32
  rawip_cin :: u32

record published_intercept_msg =
  pim_liid :: "cstr option"
  pim_authcc :: "cstr option"
  pim_delivcc :: "cstr option"
  pim_seqtrackerid :: int
  pim_encryptmethod :: u32
  pim_encryptkey :: "cstr option"

datatype export_data =
  Data_none
| Data_med openli_mediator
| Data_cept published_intercept_msg
| Data_ipcc ipcc_job
| Data_ipmmiri ipmmiri_job
| Data_ipiri ipiri_job
| Data_mobiri mobiri_job
| Data_rawip rawip_job
| Data_emailiri emailiri_job
| Data_emailcc emailcc_job

record openli_export_recv =
  xr_type :: u8
  xr_destid :: u32
  xr_ts :: "int \<times> int"
  xr_data :: export_data

definition is_cc_type :: "u8 \<Rightarrow> bool" where
  "is_cc_type ty \<longleftrightarrow>
     ty = OPENLI_EXPORT_IPMMCC \<or> ty = OPENLI_EXPORT_IPCC \<or> ty = OPENLI_EXPORT_UMTSCC \<or>
     ty = OPENLI_EXPORT_EMAILCC"

text \<open>\<^term>\<open>None\<close> for NULL, or for a union member that was not written.\<close>

definition extract_liid_from_job :: "openli_export_recv \<Rightarrow> cstr option" where
  "extract_liid_from_job recvd =
     (let ty = xr_type recvd in
      if ty = OPENLI_EXPORT_IPMMCC \<or> ty = OPENLI_EXPORT_IPCC \<or> ty = OPENLI_EXPORT_UMTSCC
      then (case xr_data recvd of Data_ipcc j \<Rightarrow> ipcc_liid j | _ \<Rightarrow> None)
      else if ty = OPENLI_EXPORT_IPIRI
      then (case xr_data recvd of Data_ipiri j \<Rightarrow> ipiri_liid j | _ \<Rightarrow> None)
      else if ty = OPENLI_EXPORT_IPMMIRI
      then (case xr_data recvd of Data_ipmmiri j \<Rightarrow> ipmmiri_liid j | _ \<Rightarrow> None)
      else if ty = OPENLI_EXPORT_UMTSIRI
      then (case xr_data recvd of Data_mobiri j \<Rightarrow> mobiri_liid j | _ \<Rightarrow> None)
      else if ty = OPENLI_EXPORT_RAW_SYNC
      then (case xr_data recvd of Data_rawip j \<Rightarrow> rawip_liid j | _ \<Rightarrow> None)
      else if ty = OPENLI_EXPORT_EMAILIRI
      then (case xr_data recvd of Data_emailiri j \<Rightarrow> emailiri_liid j | _ \<Rightarrow> None)
      else if ty = OPENLI_EXPORT_EMAILCC
      then (case xr_data recvd of Data_emailcc j \<Rightarrow> emailcc_liid j | _ \<Rightarrow> None)
      else None)"

definition extract_cin_from_job :: "openli_export_recv \<Rightarrow> u32" where
  "extract_cin_from_job recvd =
     (let ty = xr_type recvd in
      if ty = OPENLI_EXPORT_IPMMCC \<or> ty = OPENLI_EXPORT_IPCC \<or> ty = OPENLI_EXPORT_UMTSCC
      then (case xr_data recvd of Data_ipcc j \<Rightarrow> ipcc_cin j | _ \<Rightarrow> 0)
      else if ty = OPENLI_EXPORT_IPIRI
      then (case xr_data recvd of Data_ipiri j \<Rightarrow> ipiri_cin j | _ \<Rightarrow> 0)
      else if ty = OPENLI_EXPORT_IPMMIRI
      then (case xr_data recvd of Data_ipmmiri j \<Rightarrow> ipmmiri_cin j | _ \<Rightarrow> 0)
      else if ty = OPENLI_EXPORT_UMTSIRI
      then (case xr_data recvd of Data_mobiri j \<Rightarrow> mobiri_cin j | _ \<Rightarrow> 0)
      else if ty = OPENLI_EXPORT_RAW_SYNC
      then (case xr_data recvd of Data_rawip j \<Rightarrow> rawip_cin j | _ \<Rightarrow> 0)
      else if ty = OPENLI_EXPORT_EMAILIRI
      then (case xr_data recvd of Data_emailiri j \<Rightarrow> emailiri_cin j | _ \<Rightarrow> 0)
      else if ty = OPENLI_EXPORT_EMAILCC
      then (case xr_data recvd of Data_emailcc j \<Rightarrow> emailcc_cin j | _ \<Rightarrow> 0)
      else 0)"

text \<open>An IP CC job for a packet: \<^term>\<open>l3\<close> is what \<^verbatim>\<open>trace_get_layer3\<close> found, \<^term>\<open>ts\<close> the time of
  capture. The message itself, the LIID and the contents are allocated in this order. The fresh
  message is zeroed, so its \<^verbatim>\<open>liidalloc\<close> and \<^verbatim>\<open>ipcalloc\<close> are 0.\<close>

definition create_ipcc_job ::
  "(nat \<Rightarrow> bool) \<Rightarrow> u32 \<Rightarrow> cstr \<Rightarrow> u32 \<Rightarrow> bytes \<Rightarrow> int \<times> int \<Rightarrow> u8 \<Rightarrow> openli_export_recv option" where
  "create_ipcc_job alloc_ok cin liid destid l3 ts dir =
     (let liidlen = strlen liid;
          x = (if liidlen + 1 < 32 then 32 else liidlen + 1);
          rem = length l3;
          y = (if rem < 512 then 512 else rem)
      in if \<not> alloc_ok 0 then None
         else if \<not> alloc_ok 1 then None
         else if rem = 0 \<or> \<not> alloc_ok 2 then None
         else Some \<lparr> xr_type = OPENLI_EXPORT_IPCC, xr_destid = destid, xr_ts = ts,
                xr_data = Data_ipcc \<lparr> ipcc_liid = Some (take liidlen liid),
                  ipcc_ipcontent = Some l3, ipcc_ipclen = word_of_nat rem,
                  ipcc_ipcalloc = word_of_nat y, ipcc_liidalloc = word_of_nat x,
                  ipcc_cin = cin, ipcc_dir = dir \<rparr> \<rparr>)"

end
