(* ===== verification/Uthash.thy ===== *)
theory Uthash
  imports Main "HOL-Library.Multiset"
begin

text \<open>
  Tables of the \<^verbatim>\<open>uthash\<close> macros, which the threads of all three programs use: a table is the list
  of its entries in the order of insertion, and every entry contains its key.
\<close>

definition hash_find :: "('e \<Rightarrow> 'k) \<Rightarrow> 'k \<Rightarrow> 'e list \<Rightarrow> 'e option" where
  "hash_find key k t = List.find (\<lambda>e. key e = k) t"

text \<open>\<^verbatim>\<open>HASH_ADD\<close> appends an entry, \<^verbatim>\<open>HASH_DELETE\<close> unlinks one, and an entry that was found is
  changed in place.\<close>

definition hash_add :: "'e \<Rightarrow> 'e list \<Rightarrow> 'e list" where
  "hash_add e t = t @ [e]"

definition hash_delete :: "('e \<Rightarrow> 'k) \<Rightarrow> 'k \<Rightarrow> 'e list \<Rightarrow> 'e list" where
  "hash_delete key k t = filter (\<lambda>e. key e \<noteq> k) t"

definition hash_update :: "('e \<Rightarrow> 'k) \<Rightarrow> 'k \<Rightarrow> ('e \<Rightarrow> 'e) \<Rightarrow> 'e list \<Rightarrow> 'e list" where
  "hash_update key k g t = map (\<lambda>e. if key e = k then g e else e) t"

text \<open>No key occurs twice.\<close>

definition hash_ok :: "('e \<Rightarrow> 'k) \<Rightarrow> 'e list \<Rightarrow> bool" where
  "hash_ok key t \<longleftrightarrow> distinct (map key t)"

named_theorems hash_simps \<open>looking up and changing tables\<close>

lemma hash_find_Nil [simp]: "hash_find key k [] = None"
  by (simp add: hash_find_def)

lemma hash_find_SomeD: "hash_find key k t = Some e \<Longrightarrow> e \<in> set t \<and> key e = k"
  by (auto simp: hash_find_def find_Some_iff)

lemma hash_find_None: "hash_find key k t = None \<longleftrightarrow> (\<forall>e \<in> set t. key e \<noteq> k)"
  by (auto simp: hash_find_def find_None_iff)

lemma hash_find_Some:
  "hash_ok key t \<Longrightarrow> hash_find key k t = Some e \<longleftrightarrow> e \<in> set t \<and> key e = k"
  by (induction t) (auto simp: hash_find_def hash_ok_def find_Some_iff)

lemma hash_find_add [hash_simps]:
  "hash_find key k (hash_add e t) =
     (case hash_find key k t of Some x \<Rightarrow> Some x | None \<Rightarrow> if key e = k then Some e else None)"
  by (induction t) (auto simp: hash_find_def hash_add_def)

lemma hash_find_delete [hash_simps]:
  "hash_find key k' (hash_delete key k t) = (if k' = k then None else hash_find key k' t)"
  by (induction t) (auto simp: hash_find_def hash_delete_def)

lemma hash_find_update:
  assumes "\<And>e. e \<in> set t \<Longrightarrow> key e = k \<Longrightarrow> key (g e) = k"
  shows "hash_find key k' (hash_update key k g t) =
    (if k' = k then map_option g (hash_find key k t) else hash_find key k' t)"
  using assms by (induction t) (auto simp: hash_find_def hash_update_def)

lemma hash_find_map:
  "(\<And>e. key (g e) = key e) \<Longrightarrow> hash_find key k (map g t) = map_option g (hash_find key k t)"
  by (induction t) (auto simp: hash_find_def)

lemma hash_ok_Nil [simp]: "hash_ok key []"
  by (simp add: hash_ok_def)

lemma hash_ok_add [hash_simps]:
  "hash_ok key (hash_add e t) \<longleftrightarrow> hash_ok key t \<and> hash_find key (key e) t = None"
  by (simp add: hash_ok_def hash_add_def hash_find_None image_iff) metis

lemma hash_ok_delete [hash_simps]: "hash_ok key t \<Longrightarrow> hash_ok key (hash_delete key k t)"
  by (simp add: hash_ok_def hash_delete_def distinct_map inj_on_def)

lemma hash_ok_update:
  assumes "hash_ok key t" "\<And>e. e \<in> set t \<Longrightarrow> key e = k \<Longrightarrow> key (g e) = k"
  shows "hash_ok key (hash_update key k g t)"
proof -
  have "map key (hash_update key k g t) = map key t"
    using assms(2) by (auto simp: hash_update_def)
  with assms(1) show ?thesis by (simp add: hash_ok_def)
qed

lemma hash_ok_map: "(\<And>e. key (g e) = key e) \<Longrightarrow> hash_ok key (map g t) \<longleftrightarrow> hash_ok key t"
  by (simp add: hash_ok_def comp_def)

lemma set_hash_add [simp]: "set (hash_add e t) = insert e (set t)"
  by (simp add: hash_add_def)

lemma set_hash_update_subset:
  "set (hash_update key k g t) \<subseteq> set t \<union> g ` {e \<in> set t. key e = k}"
  by (auto simp: hash_update_def)

lemma set_hash_delete [simp]: "set (hash_delete key k t) = {e \<in> set t. key e \<noteq> k}"
  by (auto simp: hash_delete_def)

subsection \<open>Sorting\<close>

text \<open>\<^verbatim>\<open>HASH_SORT\<close> is an argument of the operations that call it. What they rely on: for a comparison
  that orders the entries of the table, the sorted table has the same entries in ascending
  order.\<close>

definition cmp_order :: "('e \<Rightarrow> 'e \<Rightarrow> int) \<Rightarrow> 'e set \<Rightarrow> bool" where
  "cmp_order cmp S \<longleftrightarrow>
     (\<forall>a \<in> S. \<forall>b \<in> S. cmp a b \<le> 0 \<or> cmp b a \<le> 0) \<and>
     (\<forall>a \<in> S. \<forall>b \<in> S. \<forall>c \<in> S. cmp a b \<le> 0 \<and> cmp b c \<le> 0 \<longrightarrow> cmp a c \<le> 0)"

definition hash_sorts :: "('e \<Rightarrow> 'e \<Rightarrow> int) \<Rightarrow> ('e list \<Rightarrow> 'e list) \<Rightarrow> bool" where
  "hash_sorts cmp srt \<longleftrightarrow>
     (\<forall>t. cmp_order cmp (set t) \<longrightarrow> mset (srt t) = mset t \<and> sorted_wrt (\<lambda>a b. cmp a b \<le> 0) (srt t))"

text \<open>An instance.\<close>

fun hash_insort :: "('e \<Rightarrow> 'e \<Rightarrow> int) \<Rightarrow> 'e \<Rightarrow> 'e list \<Rightarrow> 'e list" where
  "hash_insort cmp e [] = [e]"
| "hash_insort cmp e (x # t) = (if cmp e x \<le> 0 then e # x # t else x # hash_insort cmp e t)"

definition hash_isort :: "('e \<Rightarrow> 'e \<Rightarrow> int) \<Rightarrow> 'e list \<Rightarrow> 'e list" where
  "hash_isort cmp t = foldr (hash_insort cmp) t []"

lemma mset_hash_insort [simp]: "mset (hash_insort cmp e t) = add_mset e (mset t)"
  by (induction t) auto

lemma set_hash_insort [simp]: "set (hash_insort cmp e t) = insert e (set t)"
  by (induction t) auto

lemma cmp_orderD:
  assumes "cmp_order cmp S"
  shows "a \<in> S \<Longrightarrow> b \<in> S \<Longrightarrow> cmp a b \<le> 0 \<or> cmp b a \<le> 0"
    "a \<in> S \<Longrightarrow> b \<in> S \<Longrightarrow> c \<in> S \<Longrightarrow> cmp a b \<le> 0 \<Longrightarrow> cmp b c \<le> 0 \<Longrightarrow> cmp a c \<le> 0"
  using assms unfolding cmp_order_def by blast+

lemma cmp_order_mono: "cmp_order cmp S \<Longrightarrow> T \<subseteq> S \<Longrightarrow> cmp_order cmp T"
  unfolding cmp_order_def by (meson subsetD)

lemma sorted_hash_insort:
  assumes "cmp_order cmp (insert e (set t))" "sorted_wrt (\<lambda>a b. cmp a b \<le> 0) t"
  shows "sorted_wrt (\<lambda>a b. cmp a b \<le> 0) (hash_insort cmp e t)"
  using assms
proof (induction t)
  case (Cons x t)
  then have "cmp_order cmp (insert e (set t))" by (elim cmp_order_mono) auto
  with Cons.IH Cons.prems(2) have IH: "sorted_wrt (\<lambda>a b. cmp a b \<le> 0) (hash_insort cmp e t)" by simp
  show ?case
  proof (cases "cmp e x \<le> 0")
    case True
    have "cmp e y \<le> 0" if "y \<in> set t" for y
      using cmp_orderD(2) [OF Cons.prems(1), of e x y] True Cons.prems(2) that by simp
    with True Cons.prems(2) show ?thesis by simp
  next
    case False
    then have "cmp x e \<le> 0" using cmp_orderD(1) [OF Cons.prems(1), of e x] by simp
    with False IH Cons.prems(2) show ?thesis by simp
  qed
qed simp

lemma hash_isort_sorts: "hash_sorts cmp (hash_isort cmp)"
proof -
  have "mset (hash_isort cmp t) = mset t \<and>
      (cmp_order cmp (set t) \<longrightarrow> sorted_wrt (\<lambda>a b. cmp a b \<le> 0) (hash_isort cmp t))" for t
  proof (induction t)
    case (Cons e t)
    have "set (hash_isort cmp t) = set t" using Cons mset_eq_setD by blast
    moreover have "cmp_order cmp (set t)" if "cmp_order cmp (insert e (set t))"
      using that by (rule cmp_order_mono) auto
    ultimately show ?case
      using Cons sorted_hash_insort [of cmp e "hash_isort cmp t"] by (auto simp: hash_isort_def)
  qed (simp add: hash_isort_def)
  then show ?thesis by (simp add: hash_sorts_def)
qed

text \<open>A table sorted by an injective key is determined by its set of entries.\<close>

lemma hash_sorts_key:
  assumes "hash_sorts cmp srt" "hash_ok key t" "sorted_wrt (<) (map key u)" "set u = set t"
    and cmp: "\<And>a b. a \<in> set t \<Longrightarrow> b \<in> set t \<Longrightarrow> cmp a b \<le> 0 \<longleftrightarrow> key a \<le> (key b :: nat)"
  shows "srt t = u"
proof -
  have "cmp_order cmp (set t)"
    unfolding cmp_order_def using cmp by (meson le_cases le_trans)
  with assms(1) have srt: "mset (srt t) = mset t" "sorted_wrt (\<lambda>a b. cmp a b \<le> 0) (srt t)"
    by (auto simp: hash_sorts_def)
  have set: "set (srt t) = set t" using srt(1) mset_eq_setD by blast
  have "sorted_wrt (\<lambda>a b. key a \<le> key b) (srt t)"
    using srt(2) by (rule sorted_wrt_mono_rel [rotated]) (use cmp set in auto)
  then have sorted: "sorted (map key (srt t))" by (simp add: sorted_map)
  have dist: "distinct (map key (srt t))"
    using assms(2) srt(1) by (metis hash_ok_def mset_eq_imp_distinct_iff mset_map)
  have u: "sorted (map key u)" "distinct (map key u)"
    using assms(3) by (simp_all add: strict_sorted_iff)
  have "map key (srt t) = map key u"
    using sorted dist u set assms(4) by (intro sorted_distinct_set_unique) auto
  moreover have "inj_on key (set (srt t) \<union> set u)"
    using dist set assms(4) by (simp add: distinct_map)
  ultimately show ?thesis by (simp add: inj_on_map_eq_map)
qed

end
