(* ===== verification/Seq_Tracker.thy ===== *)
theory Seq_Tracker
  imports Publish Uthash
begin

text \<open>
  The sequence tracker threads of a collector (\<^verbatim>\<open>src/src/collector/collector_seqtracker.c\<close>): they
  keep the intercepts and, for each communication identity number (CIN) of an intercept, the next
  sequence numbers of its content (CC) and signalling (IRI) records, and turn the published
  records into numbered encoding jobs.

  The unchecked
  allocations of fixed-size structures succeed. The fields that \<^verbatim>\<open>etsili_preencode_static_fields\<close>
  encodes in advance are represented by the strings they are computed from. A result
  \<^term>\<open>None\<close> means that a NULL string is dereferenced.
\<close>

subsection \<open>State\<close>

record exporter_intercept_msg =
  em_liid :: cstr
  em_liid_len :: nat
  em_authcc :: "cstr option"
  em_authcc_len :: nat
  em_delivcc :: "cstr option"
  em_delivcc_len :: nat
  em_encryptmethod :: u32
  em_encryptkey :: "cstr option"

record cin_seqno =
  cq_cin :: u32
  cq_cc_seqno :: u32
  cq_iri_seqno :: u32
  cq_cin_string :: cstr

record etsili_intercept_details =
  eid_liid :: cstr
  eid_authcc :: "cstr option"
  eid_delivcc :: "cstr option"
  eid_operatorid :: "cstr option"
  eid_networkelemid :: "cstr option"
  eid_intpointid :: "cstr option"

record intercept_state =
  ins_details :: exporter_intercept_msg
  ins_cinsequencing :: "cin_seqno list"
  ins_preencoded :: etsili_intercept_details
  ins_version :: u8

record old_intercept =
  old_preencoded :: etsili_intercept_details
  old_haltedat :: u32

record collector_identity =
  ci_operatorid :: "cstr option"
  ci_networkelemid :: "cstr option"
  ci_intpointid :: "cstr option"

record seqtracker =
  sq_colident :: collector_identity
  sq_intercepts :: "intercept_state list"
  sq_removedints :: "old_intercept list"

record encoding_job =
  ej_preencoded :: etsili_intercept_details
  ej_seqno :: u32
  ej_cin :: int
  ej_cinstr :: cstr
  ej_liid :: cstr
  ej_origreq :: openli_export_recv
  ej_cept_version :: u8
  ej_encryptmethod :: u32
  ej_encryptkey :: "cstr option"

subsection \<open>Operations\<close>

text \<open>The key of the table.\<close>

definition ins_key :: "intercept_state \<Rightarrow> bytes" where
  "ins_key s = c_str (em_liid (ins_details s))"

definition purge_removedints :: "int \<Rightarrow> seqtracker \<Rightarrow> seqtracker" where
  "purge_removedints now st =
     st \<lparr> sq_removedints := filter (\<lambda>rem. now - uint (old_haltedat rem) < 15) (sq_removedints st) \<rparr>"

definition remove_preencoded :: "int \<Rightarrow> intercept_state \<Rightarrow> seqtracker \<Rightarrow> seqtracker" where
  "remove_preencoded now s st =
     st \<lparr> sq_removedints :=
            \<lparr> old_preencoded = ins_preencoded s, old_haltedat = word_of_int now \<rparr> # sq_removedints st \<rparr>"

definition preencode_etsi_fields :: "seqtracker \<Rightarrow> intercept_state \<Rightarrow> intercept_state" where
  "preencode_etsi_fields st s =
     s \<lparr> ins_preencoded :=
           \<lparr> eid_liid = em_liid (ins_details s), eid_authcc = em_authcc (ins_details s),
             eid_delivcc = em_delivcc (ins_details s),
             eid_operatorid = ci_operatorid (sq_colident st),
             eid_networkelemid = ci_networkelemid (sq_colident st),
             eid_intpointid = ci_intpointid (sq_colident st) \<rparr> \<rparr>"

text \<open>The members that a message replaces; \<^term>\<open>None\<close> when a country code is NULL.\<close>

definition replace_details ::
  "published_intercept_msg \<Rightarrow> exporter_intercept_msg \<Rightarrow> exporter_intercept_msg option" where
  "replace_details cept d =
     (case (pim_authcc cept, pim_delivcc cept) of
        (Some a, Some dl) \<Rightarrow>
          Some (d \<lparr> em_authcc := Some a, em_authcc_len := strlen a,
                    em_delivcc := Some dl, em_delivcc_len := strlen dl,
                    em_encryptkey := pim_encryptkey cept,
                    em_encryptmethod := pim_encryptmethod cept \<rparr>)
      | _ \<Rightarrow> None)"

text \<open>A new entry before its members are assigned.\<close>

definition fresh_details :: "cstr \<Rightarrow> exporter_intercept_msg" where
  "fresh_details liid =
     \<lparr> em_liid = liid, em_liid_len = strlen liid, em_authcc = None, em_authcc_len = 0,
       em_delivcc = None, em_delivcc_len = 0, em_encryptmethod = 0, em_encryptkey = None \<rparr>"

definition fresh_state :: "cstr \<Rightarrow> intercept_state" where
  "fresh_state liid =
     \<lparr> ins_details = fresh_details liid, ins_cinsequencing = [],
       ins_preencoded = \<lparr> eid_liid = liid, eid_authcc = None, eid_delivcc = None,
         eid_operatorid = None, eid_networkelemid = None, eid_intpointid = None \<rparr>,
       ins_version = 0 \<rparr>"

definition track_new_intercept ::
  "int \<Rightarrow> published_intercept_msg \<Rightarrow> seqtracker \<Rightarrow> seqtracker option" where
  "track_new_intercept now cept st =
     (case pim_liid cept of
        None \<Rightarrow> None
      | Some liid \<Rightarrow>
          (case hash_find ins_key (c_str liid) (sq_intercepts st) of
             Some s \<Rightarrow>
               (case replace_details cept (ins_details s) of
                  None \<Rightarrow> None
                | Some d \<Rightarrow>
                    let s' = preencode_etsi_fields st
                               (s \<lparr> ins_details := d, ins_version := ins_version s + 1 \<rparr>)
                    in Some ((remove_preencoded now s st)
                         \<lparr> sq_intercepts := hash_update ins_key (c_str liid) (\<lambda>_. s') (sq_intercepts st) \<rparr>))
           | None \<Rightarrow>
               (case replace_details cept (fresh_details liid) of
                  None \<Rightarrow> None
                | Some d \<Rightarrow>
                    let s' = preencode_etsi_fields st ((fresh_state liid) \<lparr> ins_details := d \<rparr>)
                    in Some (st \<lparr> sq_intercepts := hash_add s' (sq_intercepts st) \<rparr>))))"

text \<open>The loop over the table visits the entries in order and stores each old encoding.\<close>

definition reconfigure_intercepts :: "int \<Rightarrow> seqtracker \<Rightarrow> seqtracker" where
  "reconfigure_intercepts now st =
     (fold (remove_preencoded now) (sq_intercepts st) st)
       \<lparr> sq_intercepts :=
           map (\<lambda>s. (preencode_etsi_fields st s) \<lparr> ins_version := ins_version s + 1 \<rparr>)
             (sq_intercepts st) \<rparr>"

definition modify_tracked_intercept ::
  "int \<Rightarrow> published_intercept_msg \<Rightarrow> seqtracker \<Rightarrow> (int \<times> seqtracker) option" where
  "modify_tracked_intercept now msg st =
     (case pim_liid msg of
        None \<Rightarrow> None
      | Some liid \<Rightarrow>
          (case hash_find ins_key (c_str liid) (sq_intercepts st) of
             None \<Rightarrow> Some (-1, st)
           | Some s \<Rightarrow>
               (case replace_details msg (ins_details s) of
                  None \<Rightarrow> None
                | Some d \<Rightarrow>
                    let s' = preencode_etsi_fields st
                               (s \<lparr> ins_details := d, ins_version := ins_version s + 1 \<rparr>)
                    in Some (0, (remove_preencoded now s st)
                         \<lparr> sq_intercepts := hash_update ins_key (c_str liid) (\<lambda>_. s') (sq_intercepts st) \<rparr>))))"

definition remove_tracked_intercept ::
  "int \<Rightarrow> published_intercept_msg \<Rightarrow> seqtracker \<Rightarrow> (int \<times> seqtracker) option" where
  "remove_tracked_intercept now msg st =
     (case pim_liid msg of
        None \<Rightarrow> None
      | Some liid \<Rightarrow>
          (case hash_find ins_key (c_str liid) (sq_intercepts st) of
             None \<Rightarrow> Some (-1, st)
           | Some s \<Rightarrow>
               Some (1, remove_preencoded now s
                 (st \<lparr> sq_intercepts := hash_delete ins_key (c_str liid) (sq_intercepts st) \<rparr>))))"

text \<open>\<^verbatim>\<open>printf\<close> of an unsigned integer.\<close>

fun decimal :: "nat \<Rightarrow> cstr" where
  "decimal n = (if n < 10 then [word_of_nat (48 + n)]
                else decimal (n div 10) @ [word_of_nat (48 + n mod 10)])"

declare decimal.simps [simp del]

definition cin_string :: "cstr \<Rightarrow> u32 \<Rightarrow> cstr" where
  "cin_string liid cin = snprintf 1024 (c_str liid @ lit ''-'' @ decimal (unat cin))"

definition new_cin :: "cstr \<Rightarrow> u32 \<Rightarrow> cin_seqno" where
  "new_cin liid cin =
     \<lparr> cq_cin = cin, cq_cc_seqno = 0, cq_iri_seqno = 0, cq_cin_string = strdup (cin_string liid cin) \<rparr>"

text \<open>Take the next number of the record's kind.\<close>

definition next_seqno :: "u8 \<Rightarrow> cin_seqno \<Rightarrow> u32 \<times> cin_seqno" where
  "next_seqno ty c =
     (if is_cc_type ty then (cq_cc_seqno c, c \<lparr> cq_cc_seqno := cq_cc_seqno c + 1 \<rparr>)
      else (cq_iri_seqno c, c \<lparr> cq_iri_seqno := cq_iri_seqno c + 1 \<rparr>))"

text \<open>The entry of a CIN, which is added if there is none, with the table that contains it, and the
  members of the job.\<close>

definition cin_entry :: "cstr \<Rightarrow> u32 \<Rightarrow> cin_seqno list \<Rightarrow> cin_seqno \<times> cin_seqno list" where
  "cin_entry liid cin cs =
     (case hash_find cq_cin cin cs of
        None \<Rightarrow> (new_cin liid cin, hash_add (new_cin liid cin) cs)
      | Some c \<Rightarrow> (c, cs))"

definition fill_job :: "intercept_state \<Rightarrow> cstr \<Rightarrow> openli_export_recv \<Rightarrow> cin_seqno \<Rightarrow> encoding_job" where
  "fill_job s liid recvd c =
     \<lparr> ej_preencoded = ins_preencoded s, ej_seqno = fst (next_seqno (xr_type recvd) c),
       ej_cin = uint (extract_cin_from_job recvd),
       ej_cinstr = strdup (cq_cin_string c), ej_liid = strdup liid,
       ej_origreq = recvd, ej_cept_version = ins_version s,
       ej_encryptmethod = em_encryptmethod (ins_details s),
       ej_encryptkey = map_option strdup (em_encryptkey (ins_details s)) \<rparr>"

text \<open>\<^term>\<open>malloc_ok\<close>: whether the allocation of a sequence number entry succeeds; \<^term>\<open>zmq_send\<close>:
  the outcome of pushing the job once the queue is not full. The result is the return value, the
  job that was pushed, and the state.\<close>

definition run_encoding_job ::
  "bool \<Rightarrow> (encoding_job \<Rightarrow> int) \<Rightarrow> openli_export_recv \<Rightarrow> seqtracker \<Rightarrow>
   (int \<times> encoding_job list \<times> seqtracker) option" where
  "run_encoding_job malloc_ok zmq_send recvd st =
     (case extract_liid_from_job recvd of
        None \<Rightarrow> None
      | Some liid \<Rightarrow>
          (case hash_find ins_key (c_str liid) (sq_intercepts st) of
             None \<Rightarrow> Some (0, [], st)
           | Some s \<Rightarrow>
               let cin = extract_cin_from_job recvd
               in if hash_find cq_cin cin (ins_cinsequencing s) = None \<and> \<not> malloc_ok
                  then Some (-1, [], st)
                  else
                    let (c, cs) = cin_entry liid cin (ins_cinsequencing s);
                        cs' = hash_update cq_cin cin (\<lambda>_. snd (next_seqno (xr_type recvd) c)) cs;
                        st' = st \<lparr> sq_intercepts := hash_update ins_key (c_str liid)
                          (\<lambda>s. s \<lparr> ins_cinsequencing := cs' \<rparr>) (sq_intercepts st) \<rparr>;
                        job = fill_job s liid recvd c;
                        ret = zmq_send job
                    in if ret < 0 then Some (-1, [], st') else Some (ret, [job], st')))"

text \<open>The environment of one turn of the main loop: the clock, the allocator and the queue to the
  encoders.\<close>

record tracker_env =
  te_now :: int
  te_malloc :: bool
  te_send :: "encoding_job \<Rightarrow> int"

definition is_job_type :: "u8 \<Rightarrow> bool" where
  "is_job_type ty \<longleftrightarrow>
     ty \<in> {OPENLI_EXPORT_IPMMCC, OPENLI_EXPORT_IPMMIRI, OPENLI_EXPORT_IPIRI, OPENLI_EXPORT_UMTSCC,
           OPENLI_EXPORT_UMTSIRI, OPENLI_EXPORT_EMAILIRI, OPENLI_EXPORT_EMAILCC,
           OPENLI_EXPORT_RAW_SYNC, OPENLI_EXPORT_IPCC}"

text \<open>The body of the main loop for a message: whether the thread halts, the jobs pushed, the
  count since the last purge, and the state. The purge follows when the count is large enough.\<close>

definition with_cept ::
  "openli_export_recv \<Rightarrow> (published_intercept_msg \<Rightarrow> 'a option) \<Rightarrow> 'a option" where
  "with_cept job f = (case xr_data job of Data_cept c \<Rightarrow> f c | _ \<Rightarrow> None)"

definition seqtracker_handle ::
  "tracker_env \<Rightarrow> openli_export_recv \<Rightarrow> nat \<Rightarrow> seqtracker \<Rightarrow>
   (bool \<times> encoding_job list \<times> nat \<times> seqtracker) option" where
  "seqtracker_handle env job sincepurge st =
     (let ty = xr_type job; now = te_now env in
      if ty = OPENLI_EXPORT_HALT then Some (True, [], sincepurge, st)
      else if ty = OPENLI_EXPORT_RECONFIGURE_INTERCEPTS
      then Some (False, [], sincepurge, reconfigure_intercepts now st)
      else if ty = OPENLI_EXPORT_INTERCEPT_DETAILS
      then map_option (\<lambda>st'. (False, [], sincepurge, st'))
             (with_cept job (\<lambda>c. track_new_intercept now c st))
      else if ty = OPENLI_EXPORT_INTERCEPT_OVER
      then map_option (\<lambda>(_, st'). (False, [], sincepurge, st'))
             (with_cept job (\<lambda>c. remove_tracked_intercept now c st))
      else if ty = OPENLI_EXPORT_INTERCEPT_CHANGED
      then map_option (\<lambda>(_, st'). (False, [], sincepurge, st'))
             (with_cept job (\<lambda>c. modify_tracked_intercept now c st))
      else if is_job_type ty
      then map_option (\<lambda>(_, jobs, st'). (False, jobs, sincepurge + 1, st'))
             (run_encoding_job (te_malloc env) (te_send env) job st)
      else Some (False, [], sincepurge, st))"

definition seqtracker_step ::
  "tracker_env \<Rightarrow> openli_export_recv \<Rightarrow> nat \<Rightarrow> seqtracker \<Rightarrow>
   (bool \<times> encoding_job list \<times> nat \<times> seqtracker) option" where
  "seqtracker_step env job sincepurge st =
     map_option (\<lambda>(halt, jobs, n, st').
         if n \<ge> 10000 then (halt, jobs, 0, purge_removedints (te_now env) st')
         else (halt, jobs, n, st'))
       (seqtracker_handle env job sincepurge st)"

text \<open>The main loop on the messages received, until it halts.\<close>

fun seqtracker_main ::
  "(tracker_env \<times> openli_export_recv) list \<Rightarrow> nat \<Rightarrow> seqtracker \<Rightarrow>
   (encoding_job list \<times> nat \<times> seqtracker) option" where
  "seqtracker_main [] n st = Some ([], n, st)"
| "seqtracker_main ((env, job) # rest) n st =
     (case seqtracker_step env job n st of
        None \<Rightarrow> None
      | Some (halt, jobs, n', st') \<Rightarrow>
          if halt then Some (jobs, n', st')
          else map_option (\<lambda>(jobs', r). (jobs @ jobs', r)) (seqtracker_main rest n' st'))"

subsection \<open>The next number of a record\<close>

text \<open>The number that the next record of an intercept, CIN and kind gets: 0 when there is no entry.\<close>

definition counter :: "bytes \<Rightarrow> u32 \<Rightarrow> bool \<Rightarrow> seqtracker \<Rightarrow> u32" where
  "counter key cin cc st =
     (case hash_find ins_key key (sq_intercepts st) of
        None \<Rightarrow> 0
      | Some s \<Rightarrow>
          (case hash_find cq_cin cin (ins_cinsequencing s) of
             None \<Rightarrow> 0
           | Some c \<Rightarrow> if cc then cq_cc_seqno c else cq_iri_seqno c))"

text \<open>The table has one entry for each LIID and each entry one counter for each CIN, which carries
  the name of the LIID and CIN.\<close>

definition cin_ok :: "bytes \<Rightarrow> cin_seqno \<Rightarrow> bool" where
  "cin_ok key c \<longleftrightarrow> cq_cin_string c = strdup (cin_string key (cq_cin c))"

definition ins_ok :: "intercept_state \<Rightarrow> bool" where
  "ins_ok s \<longleftrightarrow> hash_ok cq_cin (ins_cinsequencing s) \<and>
     (\<forall>c \<in> set (ins_cinsequencing s). cin_ok (ins_key s) c)"

definition tracker_inv :: "seqtracker \<Rightarrow> bool" where
  "tracker_inv st \<longleftrightarrow>
     hash_ok ins_key (sq_intercepts st) \<and> (\<forall>s \<in> set (sq_intercepts st). ins_ok s)"

lemma replace_details_liid: "replace_details cept d = Some d' \<Longrightarrow> em_liid d' = em_liid d"
  by (auto simp: replace_details_def split: option.splits)

lemma ins_key_simps [simp]:
  "ins_key (preencode_etsi_fields st s) = ins_key s"
  "ins_key (s \<lparr> ins_version := v \<rparr>) = ins_key s"
  "ins_key (s \<lparr> ins_cinsequencing := cs \<rparr>) = ins_key s"
  "ins_key (s \<lparr> ins_details := d \<rparr>) = c_str (em_liid d)"
  by (simp_all add: ins_key_def preencode_etsi_fields_def)

lemma ins_cinsequencing_preencode [simp]:
  "ins_cinsequencing (preencode_etsi_fields st s) = ins_cinsequencing s"
  by (simp add: preencode_etsi_fields_def)

lemma sq_intercepts_remove [simp]:
  "sq_intercepts (remove_preencoded now s st) = sq_intercepts st"
  "sq_intercepts (purge_removedints now st) = sq_intercepts st"
  by (simp_all add: remove_preencoded_def purge_removedints_def)

text \<open>What the operations other than a job do to the table: an entry keeps its counters.\<close>

definition same_counters :: "seqtracker \<Rightarrow> seqtracker \<Rightarrow> bool" where
  "same_counters st st' \<longleftrightarrow> (\<forall>key cin cc. counter key cin cc st' = counter key cin cc st)"

lemma same_counters_update:
  assumes "hash_find ins_key (c_str liid) (sq_intercepts st) = Some s"
    "ins_key s' = c_str liid" "ins_cinsequencing s' = ins_cinsequencing s"
    "sq_intercepts st' = hash_update ins_key (c_str liid) (\<lambda>_. s') (sq_intercepts st)"
  shows "same_counters st st'"
  using assms hash_find_update [of "sq_intercepts st" ins_key "c_str liid" "\<lambda>_. s'"]
  by (auto simp: same_counters_def counter_def)

lemma same_counters_replace:
  assumes "hash_find ins_key (c_str liid) (sq_intercepts st) = Some s"
    "replace_details cept (ins_details s) = Some d"
    "sq_intercepts st' = hash_update ins_key (c_str liid)
       (\<lambda>_. preencode_etsi_fields st (s \<lparr> ins_details := d, ins_version := v \<rparr>)) (sq_intercepts st)"
  shows "same_counters st st'"
  using hash_find_SomeD [OF assms(1)] replace_details_liid [OF assms(2)]
  by (intro same_counters_update [OF assms(1) _ _ assms(3)]) (simp_all add: ins_key_def [of s])

lemma track_new_intercept_counters:
  assumes "track_new_intercept now cept st = Some st'"
  shows "same_counters st st'"
proof -
  obtain liid where liid: "pim_liid cept = Some liid"
    using assms by (auto simp: track_new_intercept_def split: option.splits)
  show ?thesis
  proof (cases "hash_find ins_key (c_str liid) (sq_intercepts st)")
    case (Some s)
    then show ?thesis
      using assms liid
      by (auto simp: track_new_intercept_def Let_def intro: same_counters_replace [OF Some]
          split: option.splits)
  next
    case None
    then obtain d where d: "replace_details cept (fresh_details liid) = Some d"
      and st': "sq_intercepts st' = hash_add
        (preencode_etsi_fields st ((fresh_state liid) \<lparr> ins_details := d \<rparr>)) (sq_intercepts st)"
      using assms liid by (auto simp: track_new_intercept_def Let_def split: option.splits)
    have "em_liid d = liid" "ins_cinsequencing (fresh_state liid) = []"
      using replace_details_liid [OF d] by (simp_all add: fresh_details_def fresh_state_def)
    then show ?thesis
      using None st' by (auto simp: same_counters_def counter_def hash_find_add split: option.splits)
  qed
qed

lemma modify_tracked_intercept_counters:
  assumes "modify_tracked_intercept now cept st = Some (r, st')"
  shows "same_counters st st'"
proof -
  obtain liid where liid: "pim_liid cept = Some liid"
    using assms by (auto simp: modify_tracked_intercept_def split: option.splits)
  show ?thesis
  proof (cases "hash_find ins_key (c_str liid) (sq_intercepts st)")
    case (Some s)
    then show ?thesis
      using assms liid
      by (auto simp: modify_tracked_intercept_def Let_def intro: same_counters_replace [OF Some]
          split: option.splits)
  next
    case None
    with assms liid show ?thesis by (auto simp: modify_tracked_intercept_def same_counters_def)
  qed
qed

lemma reconfigure_counters: "same_counters st (reconfigure_intercepts now st)"
  using hash_find_map [of ins_key "\<lambda>s. (preencode_etsi_fields st s) \<lparr> ins_version := ins_version s + 1 \<rparr>"]
  by (auto simp: same_counters_def counter_def reconfigure_intercepts_def split: option.splits)

lemma remove_tracked_intercept_counters:
  assumes "remove_tracked_intercept now cept st = Some (r, st')"
    "\<And>liid. pim_liid cept = Some liid \<Longrightarrow> c_str liid \<noteq> key"
  shows "counter key cin cc st' = counter key cin cc st"
  using assms
  by (auto simp: remove_tracked_intercept_def counter_def hash_find_delete split: option.splits)

text \<open>The jobs of an intercept, CIN and kind.\<close>

definition job_for :: "bytes \<Rightarrow> u32 \<Rightarrow> bool \<Rightarrow> encoding_job \<Rightarrow> bool" where
  "job_for key cin cc j \<longleftrightarrow>
     c_str (ej_liid j) = key \<and> ej_cin j = uint cin \<and> is_cc_type (xr_type (ej_origreq j)) = cc"

lemma run_encoding_jobE:
  assumes "run_encoding_job malloc_ok zmq_send recvd st = Some (r, jobs, st')"
  obtains (none) "jobs = []" "st' = st"
  | (job) liid s c cs where
      "extract_liid_from_job recvd = Some liid"
      "hash_find ins_key (c_str liid) (sq_intercepts st) = Some s"
      "cin_entry liid (extract_cin_from_job recvd) (ins_cinsequencing s) = (c, cs)"
      "st' = st \<lparr> sq_intercepts := hash_update ins_key (c_str liid)
         (\<lambda>s. s \<lparr> ins_cinsequencing := hash_update cq_cin (extract_cin_from_job recvd)
            (\<lambda>_. snd (next_seqno (xr_type recvd) c)) cs \<rparr>) (sq_intercepts st) \<rparr>"
      "jobs = (if zmq_send (fill_job s liid recvd c) < 0 then [] else [fill_job s liid recvd c])"
proof -
  let ?cin = "extract_cin_from_job recvd"
  obtain liid where liid: "extract_liid_from_job recvd = Some liid"
    using assms by (auto simp: run_encoding_job_def split: option.splits)
  show thesis
  proof (cases "hash_find ins_key (c_str liid) (sq_intercepts st)")
    case None
    with assms liid show ?thesis by (intro none) (simp_all add: run_encoding_job_def)
  next
    case (Some s)
    obtain c cs where e: "cin_entry liid ?cin (ins_cinsequencing s) = (c, cs)" by force
    show ?thesis
    proof (cases "hash_find cq_cin ?cin (ins_cinsequencing s) = None \<and> \<not> malloc_ok")
      case True
      with assms liid Some show ?thesis by (intro none) (simp_all add: run_encoding_job_def Let_def)
    next
      case False
      with assms liid Some e show ?thesis
        by (intro job [OF liid Some e])
           (auto simp: run_encoding_job_def Let_def simp del: not_None_eq split: if_splits)
    qed
  qed
qed

lemma next_seqno_cin [simp]: "cq_cin (snd (next_seqno ty c)) = cq_cin c"
  "cq_cin_string (snd (next_seqno ty c)) = cq_cin_string c"
  by (simp_all add: next_seqno_def)

lemma cin_entry_find:
  assumes "cin_entry liid cin cs0 = (c, cs)"
  shows "cq_cin c = cin" "hash_find cq_cin k cs = (if k = cin then Some c else hash_find cq_cin k cs0)"
    "hash_find cq_cin cin cs0 = None \<Longrightarrow> c = new_cin liid cin"
    "hash_find cq_cin cin cs0 = Some d \<Longrightarrow> c = d"
  using assms
  by (auto simp: cin_entry_def new_cin_def hash_find_add split: option.splits dest: hash_find_SomeD)

definition seqno_of :: "bool \<Rightarrow> cin_seqno \<Rightarrow> u32" where
  "seqno_of cc c = (if cc then cq_cc_seqno c else cq_iri_seqno c)"

lemma counter_seqno_of:
  "counter key cin cc st =
     (case hash_find ins_key key (sq_intercepts st) of
        None \<Rightarrow> 0
      | Some s \<Rightarrow> (case hash_find cq_cin cin (ins_cinsequencing s) of
                    None \<Rightarrow> 0 | Some c \<Rightarrow> seqno_of cc c))"
  unfolding counter_def seqno_of_def ..

lemma seqno_of_next:
  "seqno_of cc (snd (next_seqno ty c)) =
     (if is_cc_type ty = cc then seqno_of cc c + 1 else seqno_of cc c)"
  "fst (next_seqno ty c) = seqno_of (is_cc_type ty) c"
  by (auto simp: seqno_of_def next_seqno_def)

lemma job_counters:
  assumes "hash_find ins_key (c_str liid) (sq_intercepts st) = Some s"
    "cin_entry liid cin (ins_cinsequencing s) = (c, cs)"
    "sq_intercepts st' = hash_update ins_key (c_str liid)
       (\<lambda>s. s \<lparr> ins_cinsequencing := hash_update cq_cin cin (\<lambda>_. snd (next_seqno ty c)) cs \<rparr>)
       (sq_intercepts st)"
  shows "counter key k cc st' =
      (if key = c_str liid \<and> k = cin \<and> cc = is_cc_type ty then counter key k cc st + 1
       else counter key k cc st)"
    and "seqno_of cc c = counter (c_str liid) cin cc st"
proof -
  show seq: "seqno_of cc c = counter (c_str liid) cin cc st" for cc
    using cin_entry_find [OF assms(2)] assms(1)
    by (auto simp: counter_seqno_of new_cin_def seqno_of_def split: option.splits)
  have "hash_find cq_cin k (hash_update cq_cin cin (\<lambda>_. snd (next_seqno ty c)) cs) =
    (if k = cin then Some (snd (next_seqno ty c)) else hash_find cq_cin k (ins_cinsequencing s))"
    using cin_entry_find [OF assms(2)] by (simp add: hash_find_update)
  then show "counter key k cc st' =
      (if key = c_str liid \<and> k = cin \<and> cc = is_cc_type ty then counter key k cc st + 1
       else counter key k cc st)"
    using assms(1,3) seq [of cc]
    by (auto simp: counter_seqno_of [of _ _ _ st'] hash_find_update seqno_of_next
        counter_seqno_of [of _ _ _ st] split: option.splits)
qed

lemma run_encoding_job_counters:
  assumes "run_encoding_job malloc_ok zmq_send recvd st = Some (r, jobs, st')"
    "\<And>j. 0 \<le> zmq_send j"
  shows "counter key cin cc st' = counter key cin cc st + of_nat (length (filter (job_for key cin cc) jobs))"
    "map ej_seqno (filter (job_for key cin cc) jobs) =
     map (\<lambda>i. counter key cin cc st + of_nat i) [0..<length (filter (job_for key cin cc) jobs)]"
proof -
  have "counter key cin cc st' = counter key cin cc st + of_nat (length (filter (job_for key cin cc) jobs)) \<and>
    map ej_seqno (filter (job_for key cin cc) jobs) =
     map (\<lambda>i. counter key cin cc st + of_nat i) [0..<length (filter (job_for key cin cc) jobs)]"
    using assms(1)
  proof (cases rule: run_encoding_jobE)
    case none
    then show ?thesis by simp
  next
    case (job liid s c cs)
    let ?j = "fill_job s liid recvd c"
    have for_iff: "job_for key cin cc ?j \<longleftrightarrow>
        key = c_str liid \<and> cin = extract_cin_from_job recvd \<and> cc = is_cc_type (xr_type recvd)" for key cin cc
      by (auto simp: job_for_def fill_job_def strdup_def word_uint_eq_iff)
    have jobs: "jobs = [?j]" using job(5) assms(2) [of ?j] by simp
    have seq: "ej_seqno ?j = seqno_of (is_cc_type (xr_type recvd)) c"
      by (simp add: fill_job_def seqno_of_next)
    show ?thesis
      using job_counters [OF job(2,3), where ty = "xr_type recvd" and st' = st'] job(4)
      by (cases "job_for key cin cc ?j") (simp_all add: jobs for_iff seq)
  qed
  then show "counter key cin cc st' = counter key cin cc st + of_nat (length (filter (job_for key cin cc) jobs))"
    "map ej_seqno (filter (job_for key cin cc) jobs) =
     map (\<lambda>i. counter key cin cc st + of_nat i) [0..<length (filter (job_for key cin cc) jobs)]"
    by simp_all
qed

text \<open>Messages that end an intercept.\<close>

definition ends :: "bytes \<Rightarrow> openli_export_recv \<Rightarrow> bool" where
  "ends key m \<longleftrightarrow>
     xr_type m = OPENLI_EXPORT_INTERCEPT_OVER \<and>
     (\<exists>c liid. xr_data m = Data_cept c \<and> pim_liid c = Some liid \<and> c_str liid = key)"

lemma same_countersD: "same_counters st st' \<Longrightarrow> counter key cin cc st' = counter key cin cc st"
  by (simp add: same_counters_def)

lemma counter_purge [simp]: "counter key cin cc (purge_removedints now st) = counter key cin cc st"
  by (simp add: counter_def)

lemma seqtracker_handle_cases:
  assumes "seqtracker_handle env m n st = Some (halt, jobs, n', st')" "\<not> ends key m"
  shows "jobs = [] \<and> counter key cin cc st' = counter key cin cc st \<or>
    (\<exists>r. run_encoding_job (te_malloc env) (te_send env) m st = Some (r, jobs, st'))"
  using assms
  by (auto simp: seqtracker_handle_def Let_def with_cept_def ends_def
      intro: remove_tracked_intercept_counters
        same_countersD [OF reconfigure_counters] same_countersD [OF track_new_intercept_counters]
        same_countersD [OF modify_tracked_intercept_counters]
      split: if_splits export_data.splits)

lemma seqtracker_step_counters:
  assumes "seqtracker_step env m n st = Some (halt, jobs, n', st')"
    "\<And>j. 0 \<le> te_send env j" "\<not> ends key m"
  shows "counter key cin cc st' = counter key cin cc st + of_nat (length (filter (job_for key cin cc) jobs)) \<and>
    map ej_seqno (filter (job_for key cin cc) jobs) =
     map (\<lambda>i. counter key cin cc st + of_nat i) [0..<length (filter (job_for key cin cc) jobs)]"
proof -
  obtain n1 st1 where h: "seqtracker_handle env m n st = Some (halt, jobs, n1, st1)"
    and st': "counter key cin cc st' = counter key cin cc st1"
    using assms(1) by (auto simp: seqtracker_step_def split: if_splits)
  show ?thesis
    using seqtracker_handle_cases [OF h assms(3), of cin cc] st'
      run_encoding_job_counters [of "te_malloc env" "te_send env" m st _ jobs st1, OF _ assms(2)]
    by auto
qed

lemma map_upt_append:
  "map (\<lambda>i. (k :: u32) + of_nat i) [0..<a] @ map (\<lambda>i. k + of_nat a + of_nat i) [0..<b] =
   map (\<lambda>i. k + of_nat i) [0..<a + b]"
  by (rule nth_equalityI) (auto simp: nth_append)

lemma seqtracker_main_counters:
  assumes "seqtracker_main ms n st = Some (jobs, n', st')"
    "\<forall>(env, m) \<in> set ms. (\<forall>j. 0 \<le> te_send env j) \<and> \<not> ends key m"
  shows "map ej_seqno (filter (job_for key cin cc) jobs) =
     map (\<lambda>i. counter key cin cc st + of_nat i) [0..<length (filter (job_for key cin cc) jobs)]"
  using assms
proof (induction ms n st arbitrary: jobs rule: seqtracker_main.induct)
  case (2 env m ms n st)
  then obtain halt j1 n1 st1 where step: "seqtracker_step env m n st = Some (halt, j1, n1, st1)"
    by (auto split: option.splits)
  have send: "0 \<le> te_send env j" and nend: "\<not> ends key m" for j using 2(3) by auto
  note s1 = seqtracker_step_counters [OF step send nend, of cin cc]
  show ?case
  proof (cases halt)
    case True
    with 2(2) step s1 show ?thesis by simp
  next
    case False
    with 2(2) step obtain j2 where rest: "seqtracker_main ms n1 st1 = Some (j2, n', st')"
      and jobs: "jobs = j1 @ j2" by auto
    have s2: "map ej_seqno (filter (job_for key cin cc) j2) =
        map (\<lambda>i. counter key cin cc st1 + of_nat i) [0..<length (filter (job_for key cin cc) j2)]"
      using 2(1) [OF step _ _ _ _ rest] False 2(3) by auto
    show ?thesis
      using s1 s2 by (simp add: jobs map_upt_append)
  qed
qed simp

subsection \<open>The invariant\<close>

lemma cin_string_c_str [simp]: "cin_string (c_str liid) cin = cin_string liid cin"
  by (simp add: cin_string_def)

lemma tracker_inv_update:
  assumes "tracker_inv st" "ins_ok s'" "ins_key s' = k"
    "sq_intercepts st' = hash_update ins_key k (\<lambda>_. s') (sq_intercepts st)"
  shows "tracker_inv st'"
  using assms hash_ok_update [of ins_key "sq_intercepts st" k "\<lambda>_. s'"]
    set_hash_update_subset [of ins_key k "\<lambda>_. s'" "sq_intercepts st"]
  by (auto simp: tracker_inv_def)

lemma ins_ok_cong:
  "ins_cinsequencing s' = ins_cinsequencing s \<Longrightarrow> ins_key s' = ins_key s \<Longrightarrow> ins_ok s' = ins_ok s"
  by (simp add: ins_ok_def)

lemma tracker_inv_find:
  "tracker_inv st \<Longrightarrow> hash_find ins_key k (sq_intercepts st) = Some s \<Longrightarrow> ins_ok s \<and> ins_key s = k"
  by (auto simp: tracker_inv_def dest: hash_find_SomeD)

lemma tracker_inv_replace:
  assumes "tracker_inv st" "hash_find ins_key (c_str liid) (sq_intercepts st) = Some s"
    "replace_details cept (ins_details s) = Some d"
    "sq_intercepts st' = hash_update ins_key (c_str liid)
       (\<lambda>_. preencode_etsi_fields st (s \<lparr> ins_details := d, ins_version := v \<rparr>)) (sq_intercepts st)"
  shows "tracker_inv st'"
proof (rule tracker_inv_update [OF assms(1) _ _ assms(4)])
  let ?s' = "preencode_etsi_fields st (s \<lparr> ins_details := d, ins_version := v \<rparr>)"
  have k: "ins_key ?s' = ins_key s"
    using replace_details_liid [OF assms(3)] by (simp add: ins_key_def [of s])
  show "ins_key ?s' = c_str liid" using k tracker_inv_find [OF assms(1,2)] by simp
  show "ins_ok ?s'" using k tracker_inv_find [OF assms(1,2)] by (subst ins_ok_cong [of _ s]) auto
qed

lemma track_new_intercept_inv:
  assumes "track_new_intercept now cept st = Some st'" "tracker_inv st"
  shows "tracker_inv st'"
proof -
  obtain liid where liid: "pim_liid cept = Some liid"
    using assms by (auto simp: track_new_intercept_def split: option.splits)
  show ?thesis
  proof (cases "hash_find ins_key (c_str liid) (sq_intercepts st)")
    case (Some s)
    then show ?thesis
      using assms liid
      by (auto simp: track_new_intercept_def Let_def intro: tracker_inv_replace [OF assms(2) Some]
          split: option.splits)
  next
    case None
    then obtain d where d: "replace_details cept (fresh_details liid) = Some d"
      and st': "sq_intercepts st' = hash_add
        (preencode_etsi_fields st ((fresh_state liid) \<lparr> ins_details := d \<rparr>)) (sq_intercepts st)"
      using assms(1) liid by (auto simp: track_new_intercept_def Let_def split: option.splits)
    have "em_liid d = liid" "ins_cinsequencing (fresh_state liid) = []"
      using replace_details_liid [OF d] by (simp_all add: fresh_details_def fresh_state_def)
    then show ?thesis
      using None assms(2) by (simp add: tracker_inv_def st' hash_ok_add ins_ok_def)
  qed
qed

lemma modify_tracked_intercept_inv:
  assumes "modify_tracked_intercept now cept st = Some (r, st')" "tracker_inv st"
  shows "tracker_inv st'"
proof -
  obtain liid where liid: "pim_liid cept = Some liid"
    using assms by (auto simp: modify_tracked_intercept_def split: option.splits)
  show ?thesis
  proof (cases "hash_find ins_key (c_str liid) (sq_intercepts st)")
    case (Some s)
    then show ?thesis
      using assms liid
      by (auto simp: modify_tracked_intercept_def Let_def intro: tracker_inv_replace [OF assms(2) Some]
          split: option.splits)
  next
    case None
    with assms liid show ?thesis by (auto simp: modify_tracked_intercept_def)
  qed
qed

lemma remove_tracked_intercept_inv:
  "remove_tracked_intercept now cept st = Some (r, st') \<Longrightarrow> tracker_inv st \<Longrightarrow> tracker_inv st'"
  by (auto simp: remove_tracked_intercept_def tracker_inv_def hash_ok_delete split: option.splits)

lemma reconfigure_intercepts_inv: "tracker_inv st \<Longrightarrow> tracker_inv (reconfigure_intercepts now st)"
  by (auto simp: tracker_inv_def reconfigure_intercepts_def hash_ok_map ins_ok_def)

lemma run_encoding_job_inv:
  assumes "run_encoding_job malloc_ok zmq_send recvd st = Some (r, jobs, st')" "tracker_inv st"
  shows "tracker_inv st'"
  using assms(1)
proof (cases rule: run_encoding_jobE)
  case none
  with assms(2) show ?thesis by simp
next
  case (job liid s c cs)
  let ?cin = "extract_cin_from_job recvd"
  let ?cs' = "hash_update cq_cin ?cin (\<lambda>_. snd (next_seqno (xr_type recvd) c)) cs"
  have s: "ins_ok s" "ins_key s = c_str liid"
    using tracker_inv_find [OF assms(2) job(2)] by simp_all
  have cs: "hash_ok cq_cin cs \<and> (\<forall>x \<in> set cs. cin_ok (c_str liid) x) \<and> cin_ok (c_str liid) c \<and> cq_cin c = ?cin"
    using job(3) s
    by (auto simp: cin_entry_def ins_ok_def cin_ok_def new_cin_def hash_ok_add
        split: option.splits dest: hash_find_SomeD)
  have "hash_ok cq_cin ?cs'"
    using cs by (intro hash_ok_update) auto
  moreover have "cin_ok (c_str liid) (snd (next_seqno (xr_type recvd) c))"
    using cs by (simp add: cin_ok_def)
  ultimately have new: "hash_ok cq_cin ?cs' \<and> (\<forall>x \<in> set ?cs'. cin_ok (c_str liid) x)"
    using cs set_hash_update_subset [of cq_cin ?cin "\<lambda>_. snd (next_seqno (xr_type recvd) c)" cs] by auto
  show ?thesis
    using assms(2) new hash_ok_update [of ins_key "sq_intercepts st" "c_str liid" "ins_cinsequencing_update (\<lambda>_. ?cs')"]
      set_hash_update_subset [of ins_key "c_str liid" "ins_cinsequencing_update (\<lambda>_. ?cs')" "sq_intercepts st"]
    by (auto simp: tracker_inv_def job(4) ins_ok_def)
qed

lemma seqtracker_step_inv:
  assumes "seqtracker_step env m n st = Some (halt, jobs, n', st')" "tracker_inv st"
  shows "tracker_inv st'"
proof -
  have "tracker_inv (purge_removedints now x) \<longleftrightarrow> tracker_inv x" for now x
    by (simp add: tracker_inv_def)
  then show ?thesis
    using assms
    by (auto simp: seqtracker_step_def seqtracker_handle_def Let_def with_cept_def
        intro: track_new_intercept_inv modify_tracked_intercept_inv remove_tracked_intercept_inv
          reconfigure_intercepts_inv run_encoding_job_inv
        split: if_splits export_data.splits)
qed

lemma seqtracker_main_inv:
  assumes "seqtracker_main ms n st = Some (jobs, n', st')" "tracker_inv st"
  shows "tracker_inv st'"
  using assms
proof (induction ms n st arbitrary: jobs rule: seqtracker_main.induct)
  case (2 env m ms n st)
  then obtain halt j1 n1 st1 where step: "seqtracker_step env m n st = Some (halt, j1, n1, st1)"
    by (auto split: option.splits)
  with 2 seqtracker_step_inv [OF step 2(3)] show ?case
    by (auto split: if_splits)
qed simp

text \<open>Every job carries the name of its intercept and CIN.\<close>

definition job_named :: "encoding_job \<Rightarrow> bool" where
  "job_named j \<longleftrightarrow>
     ej_cinstr j = strdup (cin_string (ej_liid j) (word_of_int (ej_cin j))) \<and>
     ej_cin j = uint (word_of_int (ej_cin j) :: u32)"

lemma run_encoding_job_named:
  assumes "run_encoding_job malloc_ok zmq_send recvd st = Some (r, jobs, st')" "tracker_inv st"
  shows "\<forall>j \<in> set jobs. job_named j"
  using assms(1)
proof (cases rule: run_encoding_jobE)
  case (job liid s c cs)
  have "cin_ok (c_str liid) c" "cq_cin c = extract_cin_from_job recvd"
    using job(3) tracker_inv_find [OF assms(2) job(2)]
    by (auto simp: cin_entry_def ins_ok_def cin_ok_def new_cin_def
        split: option.splits dest: hash_find_SomeD)
  then show ?thesis
    using job(5) by (auto simp: job_named_def fill_job_def cin_ok_def strdup_def)
qed simp

lemma seqtracker_main_named:
  assumes "seqtracker_main ms n st = Some (jobs, n', st')" "tracker_inv st"
  shows "\<forall>j \<in> set jobs. job_named j"
  using assms
proof (induction ms n st arbitrary: jobs rule: seqtracker_main.induct)
  case (2 env m ms n st)
  then obtain halt j1 n1 st1 where step: "seqtracker_step env m n st = Some (halt, j1, n1, st1)"
    by (auto split: option.splits)
  then have "\<forall>j \<in> set j1. job_named j"
    using 2(3) run_encoding_job_named
    by (auto simp: seqtracker_step_def seqtracker_handle_def Let_def with_cept_def
        split: if_splits export_data.splits)
  with 2 step seqtracker_step_inv [OF step 2(3)] show ?case
    by (auto split: if_splits)
qed simp

subsection \<open>Names of CINs\<close>

lemma unat_digit: "k < 10 \<Longrightarrow> unat (48 + word_of_nat k :: u8) = 48 + k"
proof -
  assume "k < 10"
  then have "unat (word_of_nat (48 + k) :: u8) = 48 + k"
    by (simp add: unat_of_nat del: of_nat_add)
  then show ?thesis by simp
qed

lemma decimal_value: "foldl (\<lambda>a d. 10 * a + (unat d - 48)) 0 (decimal n) = n"
proof (induction n rule: decimal.induct)
  case (1 n)
  then show ?case by (subst decimal.simps) (simp add: unat_digit)
qed

lemma decimal_inj: "decimal m = decimal n \<Longrightarrow> m = n"
  by (metis decimal_value)

lemma decimal_digits: "d \<in> set (decimal n) \<Longrightarrow> 48 \<le> unat d"
proof (induction n rule: decimal.induct)
  case (1 n)
  then show ?case
    using decimal.simps [of n] by (auto simp: unat_digit split: if_splits)
qed

lemma length_decimal: "n < 10 ^ Suc k \<Longrightarrow> length (decimal n) \<le> Suc k"
proof (induction k arbitrary: n)
  case 0
  then show ?case by (subst decimal.simps) simp
next
  case (Suc k)
  have "n div 10 < 10 ^ Suc k" using Suc.prems by (simp add: less_mult_imp_div_less)
  from Suc.IH [OF this] show ?case by (subst decimal.simps) auto
qed

lemma sep_unique:
  "xs @ c # us = ys @ c # vs \<Longrightarrow> c \<notin> set us \<Longrightarrow> c \<notin> set vs \<Longrightarrow> xs = ys \<and> us = vs"
proof (induction xs arbitrary: ys)
  case Nil
  then show ?case by (cases ys) auto
next
  case (Cons x xs)
  then show ?case by (cases ys) auto
qed

lemma cin_string_whole:
  assumes "length (c_str liid) \<le> 1000"
  shows "cin_string liid cin = c_str liid @ 45 # decimal (unat cin)"
proof -
  have "unat cin < 10 ^ Suc 9" by (rule less_le_trans [OF unat_less_width(3)]) simp
  from length_decimal [OF this] have "length (decimal (unat cin)) \<le> 10" by simp
  then show ?thesis using assms by (simp add: cin_string_def snprintf_def lit_def)
qed

lemma cin_string_inj:
  assumes "cin_string l1 c1 = cin_string l2 c2"
    "length (c_str l1) \<le> 1000" "length (c_str l2) \<le> 1000"
  shows "c_str l1 = c_str l2 \<and> c1 = c2"
proof -
  have "45 \<notin> set (decimal n)" for n using decimal_digits [of 45 n] by auto
  then show ?thesis
    using assms sep_unique [of "c_str l1" 45 "decimal (unat c1)" "c_str l2" "decimal (unat c2)"]
    by (auto simp: cin_string_whole word_unat_eq_iff dest: decimal_inj)
qed

lemma cin_string_no_nul: "length (c_str liid) \<le> 1000 \<Longrightarrow> no_nul (cin_string liid cin)"
  using decimal_digits [of 0 "unat cin"] c_str_no_nul [of liid]
  by (auto simp: cin_string_whole no_nul_def)

subsection \<open>Properties\<close>

text \<open>C10. As long as an intercept is not ended and the queue to the encoders accepts the jobs, its
  records of a CIN and kind, CC or IRI, get consecutive sequence numbers modulo 2^32, starting
  with the number held for them, or with 0 when the CIN is new. Reconfiguration, modification and
  repeated announcement of the intercept, and everything that concerns other intercepts, leave
  the numbering alone.\<close>

theorem tracker_numbers:
  assumes "seqtracker_main ms n st = Some (jobs, n', st')"
    "\<forall>(env, m) \<in> set ms. (\<forall>j. 0 \<le> te_send env j) \<and> \<not> ends key m"
  shows "map ej_seqno (filter (job_for key cin cc) jobs) =
     map (\<lambda>i. counter key cin cc st + of_nat i) [0..<length (filter (job_for key cin cc) jobs)]"
  using assms by (rule seqtracker_main_counters)

definition ex_tracker :: seqtracker where
  "ex_tracker = \<lparr> sq_colident = \<lparr> ci_operatorid = None, ci_networkelemid = None, ci_intpointid = None \<rparr>,
     sq_intercepts = [], sq_removedints = [] \<rparr>"

definition ex_env :: tracker_env where
  "ex_env = \<lparr> te_now = 100, te_malloc = True, te_send = (\<lambda>_. 1) \<rparr>"

definition ex_announce :: openli_export_recv where
  "ex_announce = \<lparr> xr_type = OPENLI_EXPORT_INTERCEPT_DETAILS, xr_destid = 0, xr_ts = (0, 0),
     xr_data = Data_cept \<lparr> pim_liid = Some [65], pim_authcc = Some [78, 90],
       pim_delivcc = Some [78, 90], pim_seqtrackerid = 0, pim_encryptmethod = 0,
       pim_encryptkey = None \<rparr> \<rparr>"

definition ex_ipcc :: openli_export_recv where
  "ex_ipcc = \<lparr> xr_type = OPENLI_EXPORT_IPCC, xr_destid = 1, xr_ts = (1, 0),
     xr_data = Data_ipcc \<lparr> ipcc_liid = Some [65], ipcc_ipcontent = Some [9], ipcc_ipclen = 1,
       ipcc_ipcalloc = 512, ipcc_liidalloc = 32, ipcc_cin = 7, ipcc_dir = 0 \<rparr> \<rparr>"

lemma ex_run:
  "\<exists>jobs n' st'. seqtracker_main [(ex_env, ex_announce), (ex_env, ex_ipcc), (ex_env, ex_ipcc)] 0 ex_tracker =
     Some (jobs, n', st') \<and> length (filter (job_for [65] 7 True) jobs) = 2 \<and> length jobs = 2 \<and>
     (\<forall>j \<in> set jobs. ej_origreq j = ex_ipcc \<and> ej_liid j = [65])"
  by (simp add: ex_tracker_def ex_env_def ex_announce_def ex_ipcc_def seqtracker_step_def
      seqtracker_handle_def with_cept_def track_new_intercept_def replace_details_def
      fresh_details_def fresh_state_def preencode_etsi_fields_def run_encoding_job_def
      extract_liid_from_job_def extract_cin_from_job_def is_job_type_def is_cc_type_def
      export_type_defs cin_entry_def new_cin_def fill_job_def next_seqno_def job_for_def
      hash_find_def hash_add_def hash_update_def ins_key_def c_str_def strdup_def Let_def)

theorem tracker_numbers_witness:
  "\<exists>jobs n' st'. seqtracker_main [(ex_env, ex_announce), (ex_env, ex_ipcc), (ex_env, ex_ipcc)] 0 ex_tracker =
     Some (jobs, n', st') \<and> map ej_seqno (filter (job_for [65] 7 True) jobs) = [0, 1]"
proof -
  obtain jobs n' st' where run: "seqtracker_main [(ex_env, ex_announce), (ex_env, ex_ipcc), (ex_env, ex_ipcc)]
      0 ex_tracker = Some (jobs, n', st')" and len: "length (filter (job_for [65] 7 True) jobs) = 2"
    using ex_run by blast
  have "counter [65] 7 True ex_tracker = 0" by (simp add: counter_def ex_tracker_def)
  then show ?thesis
    using run len tracker_numbers [OF run, of "[65]" 7 True]
    by (simp add: ends_def ex_env_def ex_announce_def ex_ipcc_def export_type_defs numeral_2_eq_2)
qed

text \<open>C11. Every turn of the main loop keeps the tables well formed: one entry for each LIID, one
  counter for each CIN. The jobs it pushes are named after their LIID and CIN, and for LIIDs of
  at most 1000 characters jobs with the same name have the same LIID and the same CIN.\<close>

theorem tracker_names:
  assumes "seqtracker_main ms n st = Some (jobs, n', st')" "tracker_inv st"
  shows "tracker_inv st' \<and>
    (\<forall>i \<in> set jobs. \<forall>j \<in> set jobs.
       length (c_str (ej_liid i)) \<le> 1000 \<and> length (c_str (ej_liid j)) \<le> 1000 \<and> ej_cinstr i = ej_cinstr j \<longrightarrow>
       c_str (ej_liid i) = c_str (ej_liid j) \<and>
       (word_of_int (ej_cin i) :: u32) = word_of_int (ej_cin j))"
  using seqtracker_main_inv [OF assms] seqtracker_main_named [OF assms]
  by (auto simp: job_named_def strdup_def cin_string_no_nul dest: cin_string_inj)

theorem tracker_names_witness:
  "\<exists>jobs n' st'. seqtracker_main [(ex_env, ex_announce), (ex_env, ex_ipcc), (ex_env, ex_ipcc)] 0 ex_tracker =
     Some (jobs, n', st') \<and> tracker_inv st'"
proof -
  have "tracker_inv ex_tracker" by (simp add: tracker_inv_def ex_tracker_def)
  then show ?thesis using ex_run tracker_names by blast
qed

end
