(* ===== verification/Forwarder.thy ===== *)
theory Forwarder
  imports Seq_Tracker
begin

text \<open>
  The forwarding threads of a collector (\<^verbatim>\<open>src/src/collector/collector_forwarder.c\<close>): they take
  the encoded records from the encoders, put the records of each LIID and CIN back into the order
  of their sequence numbers, queue them for their mediators and send them when a connection is
  ready.

  The destinations live in a store indexed by addresses, and the Judy arrays
  \<^verbatim>\<open>destinations_by_id\<close> and \<^verbatim>\<open>destinations_by_fd\<close> hold addresses. A Judy array of words is an
  association list in ascending order; the arrays of reorderers, which are searched by name and
  otherwise only emptied, are lists of entries. The sockets, the TLS library and the memory
  allocator are parameters. A result \<^term>\<open>None\<close> means that the process stops or that the code
  follows a pointer to a destination that was freed.
\<close>

subsection \<open>State\<close>

definition BUF_BATCH_SIZE :: nat where "BUF_BATCH_SIZE = 100 * 1024 * 1024"
definition MIN_SEND_AMOUNT :: nat where "MIN_SEND_AMOUNT = 1 * 1024 * 1024"

record forward_result = encoded_result +
  fr_seqno :: u32
  fr_destid :: u32
  fr_liid :: "cstr option"
  fr_cinstr :: cstr
  fr_origtype :: u8

record export_dest =
  de_failmsg :: bool
  de_fd :: int
  de_awaitingconfirm :: bool
  de_halted :: bool
  de_pollindex :: int
  de_mediatorid :: u32
  de_ipstr :: "cstr option"
  de_portstr :: "cstr option"
  de_buffer :: export_buffer
  de_logallowed :: bool
  de_ssl :: bool
  de_waitingforhandshake :: bool
  de_ssllasterror :: bool
  de_rmq_queueid :: "cstr option"

record int_reorderer =
  re_liid :: cstr
  re_key :: cstr
  re_expectedseqno :: u32
  re_pending :: "(u32 \<times> forward_result) list"

record poll_item =
  po_fd :: int
  po_events :: bool

record forwarder =
  fw_store :: "nat \<Rightarrow> export_dest option"
  fw_next :: nat
  fw_by_id :: "(u32 \<times> nat) list"
  fw_by_fd :: "(int \<times> nat) list"
  fw_intreorderer_cc :: "int_reorderer list"
  fw_intreorderer_iri :: "int_reorderer list"
  fw_awaitingconfirm :: bool
  fw_flagtimerfd :: int
  fw_topoll :: "poll_item list"
  fw_forcesend :: "bool list"
  fw_forcesend_rmq :: bool
  fw_pollsize :: nat
  fw_nextpoll :: nat
  fw_ampq_conn :: bool

text \<open>\<^verbatim>\<open>JLG\<close>, \<^verbatim>\<open>JLI\<close> with an assignment, and \<^verbatim>\<open>JLD\<close>.\<close>

definition JLG :: "('k \<times> 'v) list \<Rightarrow> 'k \<Rightarrow> 'v option" where
  "JLG js k = map_of js k"

definition JLD :: "'k \<Rightarrow> ('k \<times> 'v) list \<Rightarrow> ('k \<times> 'v) list" where
  "JLD k js = filter (\<lambda>(j, _). j \<noteq> k) js"

definition JLI :: "'k::linorder \<Rightarrow> 'v \<Rightarrow> ('k \<times> 'v) list \<Rightarrow> ('k \<times> 'v) list" where
  "JLI k v js = insort_key fst (k, v) (JLD k js)"

subsection \<open>Destinations\<close>

definition dest_update :: "nat \<Rightarrow> (export_dest \<Rightarrow> export_dest) \<Rightarrow> forwarder \<Rightarrow> forwarder" where
  "dest_update a f fwd = fwd \<lparr> fw_store := (fw_store fwd)(a := map_option f (fw_store fwd a)) \<rparr>"

text \<open>A zeroed destination with the members that both places assign. \<^term>\<open>m :: mem\<close> is the memory
  that the buffer will be allocated in.\<close>

definition rmq_queueid :: "forwarder \<Rightarrow> u32 \<Rightarrow> cstr option" where
  "rmq_queueid fwd mid =
     (if fw_ampq_conn fwd
      then Some (snprintf 32 (lit ''ID'' @
             (if sint mid < 0 then lit ''-'' @ decimal (nat (- sint mid)) else decimal (unat mid))))
      else None)"

definition new_dest :: "forwarder \<Rightarrow> mem \<Rightarrow> u32 \<Rightarrow> cstr option \<Rightarrow> cstr option \<Rightarrow> export_dest" where
  "new_dest fwd m mid ip port =
     \<lparr> de_failmsg = False, de_fd = -1, de_awaitingconfirm = False, de_halted = False,
       de_pollindex = -1, de_mediatorid = mid, de_ipstr = ip, de_portstr = port,
       de_buffer = init_export_buffer m, de_logallowed = True, de_ssl = False,
       de_waitingforhandshake = False, de_ssllasterror = False,
       de_rmq_queueid = rmq_queueid fwd mid \<rparr>"

definition insert_dest :: "export_dest \<Rightarrow> forwarder \<Rightarrow> forwarder" where
  "insert_dest d fwd =
     fwd \<lparr> fw_store := (fw_store fwd)(fw_next fwd \<mapsto> d), fw_next := fw_next fwd + 1,
           fw_by_id := JLI (de_mediatorid d) (fw_next fwd) (fw_by_id fwd) \<rparr>"

text \<open>\<^verbatim>\<open>strcmp\<close> of two strings, \<^term>\<open>None\<close> for a NULL pointer, and the comparison of two locations.\<close>

definition str_differs :: "cstr option \<Rightarrow> cstr option \<Rightarrow> bool option" where
  "str_differs s t =
     (case (s, t) of (Some a, Some b) \<Rightarrow> Some (c_str a \<noteq> c_str b) | _ \<Rightarrow> None)"

definition location_changed :: "export_dest \<Rightarrow> openli_mediator \<Rightarrow> bool option" where
  "location_changed found med =
     (case str_differs (de_ipstr found) (med_ipstr med) of
        Some False \<Rightarrow> str_differs (de_portstr found) (med_portstr med)
      | r \<Rightarrow> r)"

text \<open>An announcement for a destination that is known already.\<close>

definition refresh_dest :: "openli_mediator \<Rightarrow> export_dest \<Rightarrow> export_dest option" where
  "refresh_dest med found =
     (if de_ipstr found = None
      then Some (found \<lparr> de_ipstr := med_ipstr med, de_portstr := med_portstr med, de_fd := -1,
                         de_failmsg := False, de_logallowed := True \<rparr>)
      else map_option
             (\<lambda>changed.
                (if changed
                 then found \<lparr> de_ipstr := med_ipstr med, de_portstr := med_portstr med,
                              de_logallowed := True, de_fd := -1 \<rparr>
                 else found) \<lparr> de_awaitingconfirm := False, de_halted := False \<rparr>)
             (location_changed found med))"

text \<open>\<^term>\<open>timerfd\<close>: the descriptor from \<^verbatim>\<open>timerfd_create\<close>, -1 when it fails.\<close>

definition start_flag_timer :: "int \<Rightarrow> forwarder \<Rightarrow> int \<times> forwarder" where
  "start_flag_timer timerfd fwd =
     (if fw_awaitingconfirm fwd
      then if fw_flagtimerfd fwd = -1
           then (if timerfd = -1 then -1 else 1, fwd \<lparr> fw_flagtimerfd := timerfd \<rparr>)
           else (1, fwd)
      else (1, fwd))"

definition add_new_destination ::
  "mem \<Rightarrow> int \<Rightarrow> openli_mediator \<Rightarrow> forwarder \<Rightarrow> (int \<times> forwarder) option" where
  "add_new_destination m timerfd med fwd =
     (let mid = med_mediatorid med; ip = med_ipstr med; port = med_portstr med in
      case JLG (fw_by_id fwd) mid of
        None \<Rightarrow> Some (start_flag_timer timerfd (insert_dest (new_dest fwd m mid ip port) fwd))
      | Some a \<Rightarrow>
          (case fw_store fwd a of
             None \<Rightarrow> None
           | Some found \<Rightarrow>
               map_option (\<lambda>found'. start_flag_timer timerfd (dest_update a (\<lambda>_. found') fwd))
                 (refresh_dest med found)))"

definition disconnect_mediator :: "nat \<Rightarrow> forwarder \<Rightarrow> forwarder" where
  "disconnect_mediator a fwd =
     (case fw_store fwd a of
        None \<Rightarrow> fwd
      | Some med \<Rightarrow>
          let fwd1 = dest_update a (\<lambda>d. d \<lparr> de_fd := -1, de_logallowed := False, de_ssl := False \<rparr>) fwd
          in if de_pollindex med \<ge> 0
             then fwd1 \<lparr> fw_topoll :=
                    (fw_topoll fwd1)[nat (de_pollindex med) := \<lparr> po_fd = 0, po_events = False \<rparr>] \<rparr>
             else fwd1)"

text \<open>The destination is taken out of the arrays, disconnected and freed.\<close>

definition remove_destination :: "nat \<Rightarrow> forwarder \<Rightarrow> forwarder" where
  "remove_destination a fwd =
     (case fw_store fwd a of
        None \<Rightarrow> fwd
      | Some med \<Rightarrow>
          let fwd1 = fwd \<lparr> fw_by_id := JLD (de_mediatorid med) (fw_by_id fwd) \<rparr>;
              fwd2 = (if de_fd med \<noteq> -1
                      then disconnect_mediator a (fwd1 \<lparr> fw_by_fd := JLD (de_fd med) (fw_by_fd fwd1) \<rparr>)
                      else fwd1)
          in fwd2 \<lparr> fw_store := (fw_store fwd2)(a := None) \<rparr>)"

text \<open>The loops over \<^verbatim>\<open>destinations_by_id\<close> visit the entries in ascending order; their bodies remove
  at most the entry they are at.\<close>

definition remove_all_destinations :: "forwarder \<Rightarrow> forwarder" where
  "remove_all_destinations fwd = fold (\<lambda>(_, a). remove_destination a) (fw_by_id fwd) fwd"

definition disconnect_all_destinations :: "forwarder \<Rightarrow> forwarder" where
  "disconnect_all_destinations fwd =
     fold (\<lambda>(_, a) w. dest_update a (\<lambda>d. d \<lparr> de_ssllasterror := False \<rparr>) (disconnect_mediator a w))
       (fw_by_id fwd) fwd"

definition flag_all_destinations :: "forwarder \<Rightarrow> forwarder" where
  "flag_all_destinations fwd =
     (fold (\<lambda>(_, a). dest_update a (\<lambda>d. d \<lparr> de_awaitingconfirm := True \<rparr>)) (fw_by_id fwd) fwd)
       \<lparr> fw_awaitingconfirm := True, fw_flagtimerfd := -1 \<rparr>"

definition purge_unconfirmed_mediators :: "forwarder \<Rightarrow> forwarder" where
  "purge_unconfirmed_mediators fwd =
     fold (\<lambda>(_, a) w. case fw_store w a of
                        Some med \<Rightarrow> if de_awaitingconfirm med then remove_destination a w else w
                      | None \<Rightarrow> w)
       (fw_by_id fwd) fwd"

text \<open>\<^term>\<open>liid = None\<close> removes all of them.\<close>

definition remove_reorderers :: "cstr option \<Rightarrow> int_reorderer list \<Rightarrow> int_reorderer list" where
  "remove_reorderers liid rs =
     filter (\<lambda>r. liid \<noteq> None \<and> c_str (re_liid r) \<noteq> c_str (the liid)) rs"

definition handle_ctrl_message ::
  "mem \<Rightarrow> int \<Rightarrow> openli_export_recv \<Rightarrow> forwarder \<Rightarrow> (int \<times> forwarder) option" where
  "handle_ctrl_message m timerfd msg fwd =
     (let ty = xr_type msg in
      if ty = OPENLI_EXPORT_HALT then Some (0, fwd)
      else if ty = OPENLI_EXPORT_INTERCEPT_OVER
      then (case xr_data msg of
              Data_cept c \<Rightarrow>
                Some (1, fwd \<lparr> fw_intreorderer_cc := remove_reorderers (pim_liid c) (fw_intreorderer_cc fwd),
                               fw_intreorderer_iri := remove_reorderers (pim_liid c) (fw_intreorderer_iri fwd) \<rparr>)
            | _ \<Rightarrow> None)
      else if ty = OPENLI_EXPORT_MEDIATOR
      then (case xr_data msg of Data_med med \<Rightarrow> add_new_destination m timerfd med fwd | _ \<Rightarrow> None)
      else if ty = OPENLI_EXPORT_DROP_SINGLE_MEDIATOR
      then (case xr_data msg of
              Data_med med \<Rightarrow>
                (case JLG (fw_by_id fwd) (med_mediatorid med) of
                   None \<Rightarrow> Some (1, fwd)
                 | Some a \<Rightarrow> Some (1, remove_destination a fwd))
            | _ \<Rightarrow> None)
      else if ty = OPENLI_EXPORT_DROP_ALL_MEDIATORS then Some (1, remove_all_destinations fwd)
      else if ty = OPENLI_EXPORT_FLAG_MEDIATORS then Some (1, flag_all_destinations fwd)
      else if ty = OPENLI_EXPORT_RECONNECT_ALL_MEDIATORS
      then Some (1, disconnect_all_destinations fwd)
      else Some (1, fwd))"

subsection \<open>Reordering\<close>

definition release_step :: "forward_result \<Rightarrow> int_reorderer \<Rightarrow> int_reorderer" where
  "release_step stored reord =
     reord \<lparr> re_pending := JLD (re_expectedseqno reord) (re_pending reord),
             re_expectedseqno := fr_seqno stored + 1 \<rparr>"

lemma release_measure:
  assumes "JLG (re_pending reord) (re_expectedseqno reord) = Some stored"
  shows "length (re_pending (release_step stored reord)) < length (re_pending reord)"
proof -
  have "(re_expectedseqno reord, stored) \<in> set (re_pending reord)"
    using assms by (simp add: JLG_def map_of_SomeD)
  then have "length (filter (\<lambda>(j, _). j \<noteq> re_expectedseqno reord) (re_pending reord)) <
      length (re_pending reord)"
    by (intro length_filter_less) auto
  then show ?thesis by (simp add: release_step_def JLD_def)
qed

text \<open>The loop of \<^verbatim>\<open>enqueue_result\<close> that queues the stored records whose turn it is. The flag is
  \<^term>\<open>False\<close> when the buffer cannot take one of them.\<close>

function release_pending ::
  "allocator \<Rightarrow> int_reorderer \<Rightarrow> export_buffer \<Rightarrow> bool \<times> int_reorderer \<times> export_buffer" where
  "release_pending ok reord buf =
     (case JLG (re_pending reord) (re_expectedseqno reord) of
        None \<Rightarrow> (True, reord, buf)
      | Some stored \<Rightarrow>
          (case append_message_to_buffer ok buf (encoded_result.truncate stored) 0 of
             (r, buf') \<Rightarrow>
               if r = 0
               then (False, reord \<lparr> re_pending := JLD (re_expectedseqno reord) (re_pending reord) \<rparr>, buf')
               else release_pending ok (release_step stored reord) buf'))"
  by pat_completeness auto

termination
  by (relation "measure (\<lambda>(ok, reord, buf). length (re_pending reord))") (auto simp: release_measure)

declare release_pending.simps [simp del]

text \<open>\<^verbatim>\<open>enqueue_result\<close> on the reorderer of the record and the buffer of its mediator: the return
  value, whether the mediator has to be dropped, and the reorderer and the buffer.\<close>

definition reorder ::
  "allocator \<Rightarrow> forward_result \<Rightarrow> int_reorderer \<Rightarrow> export_buffer \<Rightarrow>
   int \<times> bool \<times> int_reorderer \<times> export_buffer" where
  "reorder ok res reord buf =
     (if fr_seqno res \<noteq> re_expectedseqno reord
      then (0, False, reord \<lparr> re_pending := JLI (fr_seqno res) res (re_pending reord) \<rparr>, buf)
      else (case append_message_to_buffer ok buf (encoded_result.truncate res) 0 of
              (r, buf1) \<Rightarrow>
                if r = 0 then (1, True, reord, buf1)
                else (case release_pending ok (reord \<lparr> re_expectedseqno := fr_seqno res + 1 \<rparr>) buf1 of
                        (done, reord', buf2) \<Rightarrow> (if done then 1 else -1, \<not> done, reord', buf2))))"

text \<open>The reorderer of a record: the one of its kind and name, which is created if there is none.\<close>

definition new_reorderer :: "forward_result \<Rightarrow> int_reorderer option" where
  "new_reorderer res =
     map_option (\<lambda>liid. \<lparr> re_liid = strdup liid, re_key = strdup (fr_cinstr res),
                          re_expectedseqno = 0, re_pending = [] \<rparr>) (fr_liid res)"

definition reorderers :: "bool \<Rightarrow> forwarder \<Rightarrow> int_reorderer list" where
  "reorderers cc fwd = (if cc then fw_intreorderer_cc fwd else fw_intreorderer_iri fwd)"

definition set_reorderers :: "bool \<Rightarrow> int_reorderer list \<Rightarrow> forwarder \<Rightarrow> forwarder" where
  "set_reorderers cc rs fwd =
     (if cc then fwd \<lparr> fw_intreorderer_cc := rs \<rparr> else fwd \<lparr> fw_intreorderer_iri := rs \<rparr>)"

definition enqueue_result ::
  "allocator \<Rightarrow> nat \<Rightarrow> forward_result \<Rightarrow> forwarder \<Rightarrow> (int \<times> forwarder) option" where
  "enqueue_result ok a res fwd =
     (let cc = is_cc_type (fr_origtype res);
          rs = reorderers cc fwd;
          found = hash_find re_key (c_str (fr_cinstr res)) rs;
          entry = (case found of None \<Rightarrow> new_reorderer res | Some r \<Rightarrow> Some r)
      in case (entry, fw_store fwd a) of
           (Some reord, Some med) \<Rightarrow>
             let rs1 = (if found = None then hash_add reord rs else rs) in
             (case reorder ok res reord (de_buffer med) of
                (ret, drop_med, reord', buf') \<Rightarrow>
                  let fwd1 = dest_update a (\<lambda>d. d \<lparr> de_buffer := buf' \<rparr>)
                        (set_reorderers cc
                          (hash_update re_key (c_str (fr_cinstr res)) (\<lambda>_. reord') rs1) fwd)
                  in Some (ret, if drop_med then remove_destination a fwd1 else fwd1))
         | _ \<Rightarrow> None)"

definition handle_encoded_result ::
  "allocator \<Rightarrow> mem \<Rightarrow> forward_result \<Rightarrow> forwarder \<Rightarrow> (int \<times> forwarder) option" where
  "handle_encoded_result ok m res fwd =
     (case JLG (fw_by_id fwd) (fr_destid res) of
        None \<Rightarrow>
          enqueue_result ok (fw_next fwd) res
            (insert_dest (new_dest fwd m (fr_destid res) None None) fwd)
      | Some a \<Rightarrow> enqueue_result ok a res fwd)"

text \<open>The records of one message from an encoder.\<close>

fun handle_batch ::
  "allocator \<Rightarrow> mem \<Rightarrow> forward_result list \<Rightarrow> forwarder \<Rightarrow> (int \<times> forwarder) option" where
  "handle_batch ok m [] fwd = Some (1, fwd)"
| "handle_batch ok m (res # rest) fwd =
     (case handle_encoded_result ok m res fwd of
        None \<Rightarrow> None
      | Some (ret, fwd') \<Rightarrow> if ret < 0 then Some (-1, fwd') else handle_batch ok m rest fwd')"

text \<open>The messages that are waiting when the thread polls; it leaves the rest for later once it has
  handled 100000 records.\<close>

fun receive_incoming_etsi ::
  "allocator \<Rightarrow> mem \<Rightarrow> nat \<Rightarrow> forward_result list list \<Rightarrow> forwarder \<Rightarrow>
   (int \<times> forward_result list list \<times> forwarder) option" where
  "receive_incoming_etsi ok m processed [] fwd = Some (1, [], fwd)"
| "receive_incoming_etsi ok m processed (batch # rest) fwd =
     (case handle_batch ok m batch fwd of
        None \<Rightarrow> None
      | Some (ret, fwd') \<Rightarrow>
          if ret < 0 then Some (-1, rest, fwd')
          else if processed + length batch < 100000
          then receive_incoming_etsi ok m (processed + length batch) rest fwd'
          else Some (1, rest, fwd'))"

subsection \<open>Connections\<close>

text \<open>The outcome of \<^verbatim>\<open>SSL_connect\<close>: finished, to be continued, or failed.\<close>

datatype handshake = Handshake_done | Handshake_again | Handshake_failed

text \<open>What the environment provides to the connection code: \<^verbatim>\<open>connect_socket\<close> (-1 for an error, 0 when
  the peer cannot be reached), whether there is a TLS context, and the handshakes.\<close>

record net_env =
  ne_connect :: "cstr option \<Rightarrow> cstr option \<Rightarrow> int"
  ne_ctx :: bool
  ne_ssl_connect :: "nat \<Rightarrow> handshake"

text \<open>The result is the descriptor or -1.\<close>

definition connect_single_target :: "net_env \<Rightarrow> nat \<Rightarrow> export_dest \<Rightarrow> int \<times> export_dest" where
  "connect_single_target env a dest =
     (if de_ipstr dest = None then (-1, dest)
      else let sockfd = ne_connect env (de_ipstr dest) (de_portstr dest) in
        if sockfd = -1 then (-1, dest)
        else if sockfd = 0 then (-1, dest \<lparr> de_failmsg := True \<rparr>)
        else if ne_ctx env \<and> ne_ssl_connect env a = Handshake_failed
        then (-1, dest \<lparr> de_ssl := False \<rparr>)
        else (sockfd, dest \<lparr> de_ssl := ne_ctx env, de_failmsg := False,
                de_buffer := (de_buffer dest) \<lparr> eb_partialfront := 0 \<rparr> \<rparr>))"

text \<open>The poll entry of a destination: its own, or the next free one, for which the arrays grow when
  they are full. The new entries are zero here; each is written before it is used.\<close>

definition grow_poll :: "forwarder \<Rightarrow> forwarder" where
  "grow_poll fwd =
     (if fw_nextpoll fwd = fw_pollsize fwd - 1
      then fwd \<lparr> fw_topoll := fw_topoll fwd @ replicate 10 \<lparr> po_fd = 0, po_events = False \<rparr>,
                 fw_forcesend := fw_forcesend fwd @ replicate 10 False,
                 fw_pollsize := fw_pollsize fwd + 10 \<rparr>
      else fwd)"

definition take_poll_index :: "nat \<Rightarrow> export_dest \<Rightarrow> forwarder \<Rightarrow> nat \<times> forwarder" where
  "take_poll_index a dest fwd =
     (if de_pollindex dest = -1
      then let fwd1 = grow_poll fwd; ind = fw_nextpoll fwd1
           in (ind, dest_update a (\<lambda>d. d \<lparr> de_pollindex := int ind \<rparr>)
                      (fwd1 \<lparr> fw_nextpoll := ind + 1 \<rparr>))
      else (nat (de_pollindex dest), fwd))"

definition connect_target :: "net_env \<Rightarrow> nat \<Rightarrow> forwarder \<Rightarrow> forwarder" where
  "connect_target env a fwd =
     (case fw_store fwd a of
        None \<Rightarrow> fwd
      | Some dest \<Rightarrow>
          if de_fd dest \<noteq> -1 \<or> de_halted dest then fwd
          else (case connect_single_target env a dest of
                  (fd, dest1) \<Rightarrow>
                    let fwd1 = dest_update a (\<lambda>_. dest1 \<lparr> de_fd := fd \<rparr>) fwd in
                    if fd = -1 then fwd1
                    else (case take_poll_index a dest1 (fwd1 \<lparr> fw_by_fd := JLI fd a (fw_by_fd fwd1) \<rparr>) of
                            (ind, fwd2) \<Rightarrow>
                              let fwd3 = dest_update a (\<lambda>d. d \<lparr> de_waitingforhandshake := de_ssl d \<rparr>) fwd2
                              in fwd3 \<lparr> fw_forcesend := (fw_forcesend fwd3)[ind := False],
                                        fw_topoll := (fw_topoll fwd3)[ind := \<lparr> po_fd = fd, po_events = True \<rparr>] \<rparr>)))"

definition connect_export_targets :: "net_env \<Rightarrow> forwarder \<Rightarrow> forwarder" where
  "connect_export_targets env fwd = fold (\<lambda>(_, a). connect_target env a) (fw_by_id fwd) fwd"

definition complete_ssl_handshake :: "net_env \<Rightarrow> nat \<Rightarrow> forwarder \<Rightarrow> forwarder" where
  "complete_ssl_handshake env a fwd =
     (case ne_ssl_connect env a of
        Handshake_again \<Rightarrow> fwd
      | Handshake_failed \<Rightarrow>
          disconnect_mediator a
            (dest_update a (\<lambda>d. d \<lparr> de_waitingforhandshake := False, de_ssllasterror := True \<rparr>) fwd)
      | Handshake_done \<Rightarrow>
          dest_update a (\<lambda>d. d \<lparr> de_waitingforhandshake := False, de_ssllasterror := False \<rparr>) fwd)"

text \<open>One entry \<^term>\<open>i :: nat\<close> of the last loop of \<^verbatim>\<open>forwarder_main_loop\<close>, for a descriptor that is
  ready for writing; \<^term>\<open>calls\<close> are the writes. The result has the bytes that were accepted.\<close>

definition forward_ready ::
  "allocator \<Rightarrow> net_env \<Rightarrow> send_call list \<Rightarrow> nat \<Rightarrow> forwarder \<Rightarrow> (bytes \<times> forwarder) option" where
  "forward_ready ok env calls i fwd =
     (let item = fw_topoll fwd ! i in
      if \<not> po_events item then Some ([], fwd)
      else (case JLG (fw_by_fd fwd) (po_fd item) of
              None \<Rightarrow> Some ([], fwd \<lparr> fw_topoll := (fw_topoll fwd)[i := item \<lparr> po_events := False \<rparr>] \<rparr>)
            | Some a \<Rightarrow>
                (case fw_store fwd a of
                   None \<Rightarrow> None
                 | Some dest \<Rightarrow>
                     if de_waitingforhandshake dest then Some ([], complete_ssl_handshake env a fwd)
                     else if fw_ampq_conn fwd then Some ([], fwd)
                     else let availsend = get_buffered_amount (de_buffer dest) in
                       if availsend = 0 \<or> \<not> fw_forcesend fwd ! i \<and> availsend < MIN_SEND_AMOUNT
                       then Some ([], fwd)
                       else (case transmit_buffered_records ok (de_ssl dest) calls BUF_BATCH_SIZE (de_buffer dest) of
                               None \<Rightarrow> None
                             | Some (ret, out, buf') \<Rightarrow>
                                 let fwd1 = dest_update a (\<lambda>d. d \<lparr> de_buffer := buf' \<rparr>) fwd;
                                     fwd2 = (if ret < 0 then disconnect_mediator a fwd1
                                             else dest_update a (\<lambda>d. d \<lparr> de_logallowed := True \<rparr>) fwd1)
                                 in Some (out, fwd2 \<lparr> fw_forcesend := (fw_forcesend fwd2)[i := False] \<rparr>)))))"

text \<open>The delivery to the queues of RabbitMQ: for each destination, whether the heartbeat is sent and
  whether the publication succeeds.\<close>

definition rmq_write_one ::
  "allocator \<Rightarrow> bool \<Rightarrow> bool \<Rightarrow> nat \<Rightarrow> forwarder \<Rightarrow> forwarder option" where
  "rmq_write_one ok heartbeat_ok published a fwd =
     (case fw_store fwd a of
        None \<Rightarrow> None
      | Some dest \<Rightarrow>
          let fwd1 = (if de_fd dest \<noteq> -1 \<and> fw_forcesend_rmq fwd \<and> \<not> de_waitingforhandshake dest \<and> \<not> heartbeat_ok
                      then disconnect_mediator a fwd else fwd);
              availsend = get_buffered_amount (de_buffer dest)
          in if availsend = 0 \<or> availsend < MIN_SEND_AMOUNT \<and> \<not> fw_forcesend_rmq fwd then Some fwd1
             else map_option (\<lambda>(sent, out, buf'). dest_update a (\<lambda>d. d \<lparr> de_buffer := buf' \<rparr>) fwd1)
                    (transmit_buffered_records_RMQ ok published BUF_BATCH_SIZE (de_buffer dest)))"

fun rmq_write_buffered ::
  "allocator \<Rightarrow> (nat \<Rightarrow> bool \<times> bool) \<Rightarrow> (u32 \<times> nat) list \<Rightarrow> forwarder \<Rightarrow> forwarder option" where
  "rmq_write_buffered ok outcome [] fwd = Some fwd"
| "rmq_write_buffered ok outcome ((_, a) # rest) fwd =
     (case rmq_write_one ok (fst (outcome a)) (snd (outcome a)) a fwd of
        None \<Rightarrow> None
      | Some fwd' \<Rightarrow> rmq_write_buffered ok outcome rest fwd')"

subsection \<open>Order of the records\<close>

text \<open>What a reorderer knows of the set \<^term>\<open>S\<close> of records it was given and the list \<^term>\<open>D\<close> of those
  it has passed on: the records passed on are numbered from 0, and every other record is pending
  under its number.\<close>

definition reord_inv :: "forward_result set \<Rightarrow> forward_result list \<Rightarrow> int_reorderer \<Rightarrow> bool" where
  "reord_inv S D reord \<longleftrightarrow>
     map fr_seqno D = map of_nat [0..<length D] \<and> re_expectedseqno reord = of_nat (length D) \<and>
     set D \<subseteq> S \<and>
     (\<forall>(s, r) \<in> set (re_pending reord). r \<in> S \<and> fr_seqno r = s) \<and>
     (\<forall>r \<in> S. fr_seqno r \<in> fr_seqno ` set D \<or> fr_seqno r \<in> fst ` set (re_pending reord))"

definition settled :: "int_reorderer \<Rightarrow> bool" where
  "settled reord \<longleftrightarrow> JLG (re_pending reord) (re_expectedseqno reord) = None"

lemma set_JLD [simp]: "set (JLD k js) = {p \<in> set js. fst p \<noteq> k}"
  by (auto simp: JLD_def)

lemma set_JLI [simp]: "set (JLI k v js) = insert (k, v) {p \<in> set js. fst p \<noteq> k}"
  by (simp add: JLI_def set_insort_key)

lemma JLG_SomeD: "JLG js k = Some v \<Longrightarrow> (k, v) \<in> set js"
  by (simp add: JLG_def map_of_SomeD)

lemma JLG_None: "JLG js k = None \<longleftrightarrow> k \<notin> fst ` set js"
  by (simp add: JLG_def map_of_eq_None_iff)

lemma keys_JLI [simp]: "fst ` set (JLI k v js) = insert k (fst ` set js)"
  by force

lemma keys_JLD [simp]: "fst ` set (JLD k js) = fst ` set js - {k}"
  by force

lemma reord_invE:
  assumes "reord_inv S D reord"
  obtains "map fr_seqno D = map of_nat [0..<length D]" "re_expectedseqno reord = of_nat (length D)"
    "set D \<subseteq> S" "\<And>s r. (s, r) \<in> set (re_pending reord) \<Longrightarrow> r \<in> S \<and> fr_seqno r = s"
    "\<And>r. r \<in> S \<Longrightarrow> fr_seqno r \<in> fr_seqno ` set D \<or> fr_seqno r \<in> fst ` set (re_pending reord)"
  using assms unfolding reord_inv_def by blast

lemma reord_inv_store:
  assumes "reord_inv S D reord"
  shows "reord_inv (insert res S) D
      (reord \<lparr> re_pending := JLI (fr_seqno res) res (re_pending reord) \<rparr>)"
  using assms
proof (rule reord_invE)
  assume num: "map fr_seqno D = map of_nat [0..<length D]"
    and ex: "re_expectedseqno reord = of_nat (length D)" and D: "set D \<subseteq> S"
    and P: "\<And>s r. (s, r) \<in> set (re_pending reord) \<Longrightarrow> r \<in> S \<and> fr_seqno r = s"
    and Q: "\<And>r. r \<in> S \<Longrightarrow> fr_seqno r \<in> fr_seqno ` set D \<or> fr_seqno r \<in> fst ` set (re_pending reord)"
  show ?thesis
    unfolding reord_inv_def
  proof (intro conjI ballI)
    fix p assume "p \<in> set (re_pending (reord \<lparr> re_pending := JLI (fr_seqno res) res (re_pending reord) \<rparr>))"
    then show "case p of (s, r) \<Rightarrow> r \<in> insert res S \<and> fr_seqno r = s" using P by auto
  next
    fix r assume "r \<in> insert res S"
    then show "fr_seqno r \<in> fr_seqno ` set D \<or>
        fr_seqno r \<in> fst ` set (re_pending (reord \<lparr> re_pending := JLI (fr_seqno res) res (re_pending reord) \<rparr>))"
      using Q [of r] by (simp del: set_JLI) blast
  qed (use num ex D in auto)
qed

lemma settled_store:
  assumes "settled reord" "fr_seqno res \<noteq> re_expectedseqno reord"
  shows "settled (reord \<lparr> re_pending := JLI (fr_seqno res) res (re_pending reord) \<rparr>)"
  using assms unfolding settled_def JLG_None by (simp del: set_JLI)

lemma reord_inv_next:
  assumes "reord_inv S D reord" "fr_seqno r = re_expectedseqno reord"
    "\<And>s x. (s, x) \<in> set pend \<Longrightarrow> (s, x) \<in> set (re_pending reord)"
    "fst ` set (re_pending reord) \<subseteq> insert (fr_seqno r) (fst ` set pend)"
  shows "reord_inv (insert r S) (D @ [r])
      (reord \<lparr> re_pending := pend, re_expectedseqno := fr_seqno r + 1 \<rparr>)"
  using assms(1)
proof (rule reord_invE)
  assume num: "map fr_seqno D = map of_nat [0..<length D]"
    and ex: "re_expectedseqno reord = of_nat (length D)" and D: "set D \<subseteq> S"
    and P: "\<And>s r. (s, r) \<in> set (re_pending reord) \<Longrightarrow> r \<in> S \<and> fr_seqno r = s"
    and Q: "\<And>r. r \<in> S \<Longrightarrow> fr_seqno r \<in> fr_seqno ` set D \<or> fr_seqno r \<in> fst ` set (re_pending reord)"
  show ?thesis
    unfolding reord_inv_def
  proof (intro conjI ballI)
    fix p assume "p \<in> set (re_pending (reord \<lparr> re_pending := pend, re_expectedseqno := fr_seqno r + 1 \<rparr>))"
    then show "case p of (s, x) \<Rightarrow> x \<in> insert r S \<and> fr_seqno x = s" using P assms(3) by auto
  next
    fix x assume "x \<in> insert r S"
    then show "fr_seqno x \<in> fr_seqno ` set (D @ [r]) \<or>
        fr_seqno x \<in> fst ` set (re_pending (reord \<lparr> re_pending := pend, re_expectedseqno := fr_seqno r + 1 \<rparr>))"
      using Q [of x] assms(4) by auto
  qed (use num ex D assms(2) in auto)
qed

text \<open>The bytes of the records that an append takes.\<close>

abbreviation fr_bytes :: "forward_result \<Rightarrow> bytes" where
  "fr_bytes r \<equiv> er_bytes (encoded_result.truncate r)"

definition fr_ok :: "forward_result \<Rightarrow> bool" where
  "fr_ok r \<longleftrightarrow> er_ok (encoded_result.truncate r)"

text \<open>What a run of appends adds to the buffer.\<close>

definition eb_grows :: "forward_result list \<Rightarrow> export_buffer \<Rightarrow> export_buffer \<Rightarrow> bool" where
  "eb_grows new buf buf' \<longleftrightarrow>
     eb_wf buf' \<and> eb_content buf' = eb_content buf @ concat (map fr_bytes new) \<and>
     eb_partialfront buf' = eb_partialfront buf"

lemma eb_grows_refl [simp]: "eb_wf buf \<Longrightarrow> eb_grows [] buf buf"
  by (simp add: eb_grows_def)

lemma eb_grows_append:
  assumes "append_message_to_buffer ok buf (encoded_result.truncate r) 0 = (n, buf1)" "n \<noteq> 0"
    "eb_wf buf" "fr_ok r"
  shows "eb_grows [r] buf buf1"
  using append_message_props [OF assms(1-3)] assms(4) by (simp add: eb_grows_def fr_ok_def)

lemma eb_grows_trans: "eb_grows xs a b \<Longrightarrow> eb_grows ys b c \<Longrightarrow> eb_grows (xs @ ys) a c"
  by (simp add: eb_grows_def)

lemma release_pending_inv:
  assumes "release_pending ok reord buf = (True, reord', buf')" "reord_inv S D reord"
    "\<forall>r \<in> S. fr_ok r" "eb_wf buf"
  shows "\<exists>new. reord_inv S (D @ new) reord' \<and> settled reord' \<and> eb_grows new buf buf'"
  using assms
proof (induction ok reord buf arbitrary: D rule: release_pending.induct)
  case (1 ok reord buf)
  show ?case
  proof (cases "JLG (re_pending reord) (re_expectedseqno reord)")
    case None
    then have "reord' = reord" "buf' = buf" using 1(2) by (simp_all add: release_pending.simps)
    then show ?thesis using None 1(3,5) by (intro exI [of _ "[]"]) (simp add: settled_def)
  next
    case (Some stored)
    obtain n buf1 where app: "append_message_to_buffer ok buf (encoded_result.truncate stored) 0 = (n, buf1)"
      by force
    have nz: "n \<noteq> 0" and rest: "release_pending ok (release_step stored reord) buf1 = (True, reord', buf')"
      using 1(2) Some app by (auto simp: release_pending.simps [of ok reord buf] split: if_splits)
    have st: "stored \<in> S" "fr_seqno stored = re_expectedseqno reord"
      using 1(3) JLG_SomeD [OF Some] by (auto elim: reord_invE)
    have "reord_inv (insert stored S) (D @ [stored]) (release_step stored reord)"
      unfolding release_step_def st(2) [symmetric]
      by (rule reord_inv_next [OF 1(3) st(2)]) (auto simp: st(2))
    then have inv1: "reord_inv S (D @ [stored]) (release_step stored reord)"
      using st(1) by (simp add: insert_absorb)
    have g1: "eb_grows [stored] buf buf1"
      using eb_grows_append [OF app nz 1(5)] 1(4) st(1) by simp
    then obtain new where "reord_inv S ((D @ [stored]) @ new) reord'" "settled reord'" "eb_grows new buf1 buf'"
      using 1(1) [OF Some app [symmetric] nz rest inv1 1(4)] by (auto simp: eb_grows_def)
    then show ?thesis
      using eb_grows_trans [OF g1] by (intro exI [of _ "stored # new"]) simp
  qed
qed

lemma reorder_inv:
  assumes "reorder ok res reord buf = (ret, False, reord', buf')" "reord_inv S D reord" "settled reord"
    "\<forall>r \<in> insert res S. fr_ok r" "eb_wf buf"
  shows "\<exists>new. reord_inv (insert res S) (D @ new) reord' \<and> settled reord' \<and> eb_grows new buf buf'"
proof (cases "fr_seqno res = re_expectedseqno reord")
  case False
  then have "reord' = reord \<lparr> re_pending := JLI (fr_seqno res) res (re_pending reord) \<rparr>" "buf' = buf"
    using assms(1) by (simp_all add: reorder_def)
  then show ?thesis
    using reord_inv_store [OF assms(2)] settled_store [OF assms(3) False] assms(5)
    by (intro exI [of _ "[]"]) simp
next
  case True
  obtain n buf1 where app: "append_message_to_buffer ok buf (encoded_result.truncate res) 0 = (n, buf1)"
    by force
  have nz: "n \<noteq> 0"
    and rest: "release_pending ok (reord \<lparr> re_expectedseqno := fr_seqno res + 1 \<rparr>) buf1 = (True, reord', buf')"
    using assms(1) True app by (auto simp: reorder_def split: prod.splits if_splits)
  have inv1: "reord_inv (insert res S) (D @ [res]) (reord \<lparr> re_expectedseqno := fr_seqno res + 1 \<rparr>)"
    using reord_inv_next [OF assms(2) True, of "re_pending reord"] by auto
  have g1: "eb_grows [res] buf buf1"
    using eb_grows_append [OF app nz assms(5)] assms(4) by simp
  then obtain new where "reord_inv (insert res S) ((D @ [res]) @ new) reord'" "settled reord'"
    "eb_grows new buf1 buf'"
    using release_pending_inv [OF rest inv1 assms(4)] by (auto simp: eb_grows_def)
  then show ?thesis
    using eb_grows_trans [OF g1] by (intro exI [of _ "res # new"]) simp
qed

text \<open>The thread as a whole, for the records of one mediator: each kind and name has its reorderer.\<close>

definition of_kind :: "bool \<Rightarrow> bytes \<Rightarrow> forward_result \<Rightarrow> bool" where
  "of_kind cc key r \<longleftrightarrow> is_cc_type (fr_origtype r) = cc \<and> c_str (fr_cinstr r) = key"

definition idle_reorderer :: int_reorderer where
  "idle_reorderer = \<lparr> re_liid = [], re_key = [], re_expectedseqno = 0, re_pending = [] \<rparr>"

definition reorderer_of :: "bool \<Rightarrow> bytes \<Rightarrow> forwarder \<Rightarrow> int_reorderer" where
  "reorderer_of cc key fwd =
     (case hash_find re_key key (reorderers cc fwd) of Some r \<Rightarrow> r | None \<Rightarrow> idle_reorderer)"

definition holds_records :: "u32 \<Rightarrow> forward_result list \<Rightarrow> forwarder \<Rightarrow> bool" where
  "holds_records mid outs fwd \<longleftrightarrow>
     (case JLG (fw_by_id fwd) mid of
        None \<Rightarrow> outs = []
      | Some a \<Rightarrow> \<exists>d. fw_store fwd a = Some d \<and> de_mediatorid d = mid \<and> eb_wf (de_buffer d) \<and>
                    eb_content (de_buffer d) = concat (map fr_bytes outs))"

definition forward_inv :: "u32 \<Rightarrow> forward_result list \<Rightarrow> forward_result list \<Rightarrow> forwarder \<Rightarrow> bool" where
  "forward_inv mid rs outs fwd \<longleftrightarrow>
     holds_records mid outs fwd \<and> set outs \<subseteq> set rs \<and>
     (\<forall>cc key. reord_inv {r \<in> set rs. of_kind cc key r} (filter (of_kind cc key) outs)
                 (reorderer_of cc key fwd) \<and> settled (reorderer_of cc key fwd))"

lemma map_of_insort: "k \<notin> fst ` set js \<Longrightarrow> map_of (insort_key fst (k, v) js) = (map_of js)(k \<mapsto> v)"
  by (induction js) (auto simp: fun_upd_twist)

lemma JLG_JLI: "JLG (JLI k v js) k' = (if k' = k then Some v else JLG js k')"
proof -
  have "map_of (JLD k js) k' = map_of js k'" if "k' \<noteq> k" for k'
    using that by (induction js) (auto simp: JLD_def)
  moreover have "map_of (insort_key fst (k, v) (JLD k js)) = (map_of (JLD k js))(k \<mapsto> v)"
    by (rule map_of_insort) (simp del: set_JLD)
  ultimately show ?thesis by (simp add: JLG_def JLI_def)
qed

lemma JLG_JLD: "JLG (JLD k js) k' = (if k' = k then None else JLG js k')"
  by (induction js) (auto simp: JLD_def JLG_def)

lemma fw_by_id_simps [simp]:
  "fw_by_id (dest_update a f fwd) = fw_by_id fwd"
  "fw_by_id (disconnect_mediator a fwd) = fw_by_id fwd"
  "fw_by_id (set_reorderers cc rs fwd) = fw_by_id fwd"
  by (simp_all add: dest_update_def disconnect_mediator_def set_reorderers_def Let_def split: option.splits)

lemma fw_store_simps [simp]:
  "fw_store (dest_update a f fwd) = (fw_store fwd)(a := map_option f (fw_store fwd a))"
  "fw_store (set_reorderers cc rs fwd) = fw_store fwd"
  by (simp_all add: dest_update_def set_reorderers_def)

lemma reorderers_simps [simp]:
  "reorderers cc (dest_update a f fwd) = reorderers cc fwd"
  "reorderers cc (insert_dest d fwd) = reorderers cc fwd"
  "reorderers cc' (set_reorderers cc rs fwd) = (if cc' = cc then rs else reorderers cc' fwd)"
  by (simp_all add: dest_update_def set_reorderers_def reorderers_def insert_dest_def)

lemma re_key_release_pending:
  "release_pending ok reord buf = (fin, reord', buf') \<Longrightarrow> re_key reord' = re_key reord"
proof (induction ok reord buf rule: release_pending.induct)
  case (1 ok reord buf)
  then show ?case
    by (auto simp: release_pending.simps [of ok reord buf] release_step_def
        split: option.splits prod.splits if_splits)
qed

lemma re_key_reorder: "reorder ok res reord buf = (ret, dr, reord', buf') \<Longrightarrow> re_key reord' = re_key reord"
  by (auto simp: reorder_def split: if_splits prod.splits dest: re_key_release_pending)

lemma reord_inv_cong:
  "re_expectedseqno r = re_expectedseqno r' \<Longrightarrow> re_pending r = re_pending r' \<Longrightarrow>
   reord_inv S D r = reord_inv S D r' \<and> settled r = settled r'"
  by (simp add: reord_inv_def settled_def)

lemma enqueue_resultE:
  assumes "enqueue_result ok a res fwd = Some (ret, fwd')" "fw_store fwd a = Some med"
    "JLG (fw_by_id fwd) (de_mediatorid med) = Some a" "JLG (fw_by_id fwd') (de_mediatorid med) \<noteq> None"
  obtains reord reord' buf' where
    "reorder ok res reord (de_buffer med) = (ret, False, reord', buf')"
    "re_expectedseqno reord = re_expectedseqno (reorderer_of (is_cc_type (fr_origtype res)) (c_str (fr_cinstr res)) fwd)"
    "re_pending reord = re_pending (reorderer_of (is_cc_type (fr_origtype res)) (c_str (fr_cinstr res)) fwd)"
    "\<And>cc key. reorderer_of cc key fwd' =
       (if of_kind cc key res then reord' else reorderer_of cc key fwd)"
    "fw_by_id fwd' = fw_by_id fwd" "fw_store fwd' a = Some (med \<lparr> de_buffer := buf' \<rparr>)"
proof -
  let ?cc = "is_cc_type (fr_origtype res)"
  let ?key = "c_str (fr_cinstr res)"
  let ?found = "hash_find re_key ?key (reorderers ?cc fwd)"
  obtain reord where entry: "(case ?found of None \<Rightarrow> new_reorderer res | Some r \<Rightarrow> Some r) = Some reord"
    using assms(1,2) by (auto simp: enqueue_result_def Let_def split: option.splits)
  let ?rs1 = "if ?found = None then hash_add reord (reorderers ?cc fwd) else reorderers ?cc fwd"
  obtain r2 dr reord' buf' where ro: "reorder ok res reord (de_buffer med) = (r2, dr, reord', buf')"
    using prod_cases4 by blast
  let ?fwd1 = "dest_update a (\<lambda>d. d \<lparr> de_buffer := buf' \<rparr>)
      (set_reorderers ?cc (hash_update re_key ?key (\<lambda>_. reord') ?rs1) fwd)"
  have out: "ret = r2" "fwd' = (if dr then remove_destination a ?fwd1 else ?fwd1)"
    using assms(1,2) entry ro by (auto simp: enqueue_result_def Let_def)
  have keep: "\<not> dr"
    using assms(2-4) out(2) by (auto simp: remove_destination_def Let_def JLG_JLD split: if_splits)
  have key: "re_key reord = ?key"
    using entry by (auto simp: new_reorderer_def strdup_def split: option.splits dest: hash_find_SomeD)
  have "hash_find re_key k ?rs1 = (if k = ?key then Some reord else hash_find re_key k (reorderers ?cc fwd))" for k
    using entry key by (auto simp: hash_find_add split: option.splits)
  then have "hash_find re_key k (hash_update re_key ?key (\<lambda>_. reord') ?rs1) =
      (if k = ?key then Some reord' else hash_find re_key k (reorderers ?cc fwd))" for k
    using key re_key_reorder [OF ro] by (subst hash_find_update) auto
  then have look: "reorderer_of cc k fwd' = (if of_kind cc k res then reord' else reorderer_of cc k fwd)" for cc k
    using keep out(2) by (auto simp: reorderer_of_def of_kind_def)
  show thesis
  proof (rule that [OF _ _ _ look])
    show "reorder ok res reord (de_buffer med) = (ret, False, reord', buf')" using ro keep out(1) by simp
    show "re_expectedseqno reord = re_expectedseqno (reorderer_of ?cc ?key fwd)"
      "re_pending reord = re_pending (reorderer_of ?cc ?key fwd)"
      using entry by (auto simp: reorderer_of_def idle_reorderer_def new_reorderer_def split: option.splits)
    show "fw_by_id fwd' = fw_by_id fwd" "fw_store fwd' a = Some (med \<lparr> de_buffer := buf' \<rparr>)"
      using keep out(2) assms(2) by simp_all
  qed
qed

lemma enqueue_result_inv:
  assumes "enqueue_result ok a res fwd = Some (ret, fwd')" "forward_inv mid rs outs fwd"
    "JLG (fw_by_id fwd) mid = Some a" "JLG (fw_by_id fwd') mid \<noteq> None"
    "\<forall>r \<in> insert res (set rs). fr_ok r"
  shows "\<exists>new. forward_inv mid (rs @ [res]) (outs @ new) fwd'"
proof -
  obtain med where med: "fw_store fwd a = Some med" "de_mediatorid med = mid" "eb_wf (de_buffer med)"
    "eb_content (de_buffer med) = concat (map fr_bytes outs)"
    using assms(2,3) by (auto simp: forward_inv_def holds_records_def)
  let ?cc = "is_cc_type (fr_origtype res)"
  let ?key = "c_str (fr_cinstr res)"
  let ?S = "{r \<in> set rs. of_kind ?cc ?key r}"
  let ?D = "filter (of_kind ?cc ?key) outs"
  from enqueue_resultE [OF assms(1) med(1)] assms(3,4) med(2)
  obtain reord reord' buf' where ro: "reorder ok res reord (de_buffer med) = (ret, False, reord', buf')"
    and same: "re_expectedseqno reord = re_expectedseqno (reorderer_of ?cc ?key fwd)"
      "re_pending reord = re_pending (reorderer_of ?cc ?key fwd)"
    and look: "\<And>cc key. reorderer_of cc key fwd' = (if of_kind cc key res then reord' else reorderer_of cc key fwd)"
    and by_id: "fw_by_id fwd' = fw_by_id fwd" and store: "fw_store fwd' a = Some (med \<lparr> de_buffer := buf' \<rparr>)"
    by metis
  have "reord_inv ?S ?D reord" "settled reord"
    using assms(2) reord_inv_cong [OF same] by (auto simp: forward_inv_def)
  then obtain new where new: "reord_inv (insert res ?S) (?D @ new) reord'" "settled reord'"
    "eb_grows new (de_buffer med) buf'"
    using reorder_inv [OF ro, of ?S ?D] assms(5) med(3) by auto
  have kinds: "\<forall>r \<in> set new. r \<in> insert res (set rs) \<and> of_kind ?cc ?key r"
    using new(1) by (auto simp: reord_inv_def of_kind_def)
  have "holds_records mid (outs @ new) fwd'"
    using new(3) med by (simp add: holds_records_def by_id assms(3) store eb_grows_def)
  moreover have "set (outs @ new) \<subseteq> set (rs @ [res])"
    using kinds assms(2) by (auto simp: forward_inv_def)
  moreover have "reord_inv {r \<in> set (rs @ [res]). of_kind cc key r} (filter (of_kind cc key) (outs @ new))
      (reorderer_of cc key fwd') \<and> settled (reorderer_of cc key fwd')" for cc key
  proof (cases "of_kind cc key res")
    case True
    then have ck: "cc = ?cc" "key = ?key" by (auto simp: of_kind_def)
    have "{r \<in> set (rs @ [res]). of_kind cc key r} = insert res ?S"
      using True by (auto simp: ck)
    moreover have "filter (of_kind cc key) (outs @ new) = ?D @ new"
      using kinds by (simp add: ck)
    ultimately show ?thesis using new(1,2) True by (simp add: look)
  next
    case False
    then have "filter (of_kind cc key) new = []"
      using kinds by (auto simp: of_kind_def filter_empty_conv)
    moreover have "{r \<in> set (rs @ [res]). of_kind cc key r} = {r \<in> set rs. of_kind cc key r}"
      using False by auto
    ultimately show ?thesis
      using False assms(2) unfolding forward_inv_def by (simp add: look)
  qed
  ultimately show ?thesis unfolding forward_inv_def by blast
qed

lemma forward_inv_insert:
  assumes "forward_inv mid rs outs fwd" "JLG (fw_by_id fwd) mid = None"
  shows "forward_inv mid rs outs (insert_dest (new_dest fwd m mid ip port) fwd)"
proof -
  have "reorderer_of cc key (insert_dest d fwd) = reorderer_of cc key fwd" for cc key d
    by (simp add: reorderer_of_def)
  moreover have "holds_records mid outs (insert_dest (new_dest fwd m mid ip port) fwd)"
    using assms
    by (auto simp: forward_inv_def holds_records_def insert_dest_def new_dest_def JLG_JLI
        eb_wf_def eb_content_def get_buffered_amount_def init_export_buffer_def)
  ultimately show ?thesis
    using assms(1) by (simp add: forward_inv_def)
qed

lemma handle_encoded_result_inv:
  assumes "handle_encoded_result ok m res fwd = Some (ret, fwd')" "forward_inv mid rs outs fwd"
    "fr_destid res = mid" "JLG (fw_by_id fwd') mid \<noteq> None" "\<forall>r \<in> insert res (set rs). fr_ok r"
  shows "\<exists>new. forward_inv mid (rs @ [res]) (outs @ new) fwd'"
proof (cases "JLG (fw_by_id fwd) mid")
  case None
  let ?fwd = "insert_dest (new_dest fwd m mid None None) fwd"
  have "JLG (fw_by_id ?fwd) mid = Some (fw_next fwd)"
    by (simp add: insert_dest_def new_dest_def JLG_JLI)
  moreover have "enqueue_result ok (fw_next fwd) res ?fwd = Some (ret, fwd')"
    using assms(1,3) None by (simp add: handle_encoded_result_def)
  ultimately show ?thesis
    using enqueue_result_inv [OF _ forward_inv_insert [OF assms(2) None] _ assms(4,5)] by blast
next
  case (Some a)
  then have "enqueue_result ok a res fwd = Some (ret, fwd')"
    using assms(1,3) by (simp add: handle_encoded_result_def)
  then show ?thesis using enqueue_result_inv [OF _ assms(2) Some assms(4,5)] by blast
qed

text \<open>A run over records for one mediator in which the mediator is not dropped.\<close>

fun forward_run ::
  "allocator \<Rightarrow> mem \<Rightarrow> forward_result list \<Rightarrow> forwarder \<Rightarrow> forwarder option" where
  "forward_run ok m [] fwd = Some fwd"
| "forward_run ok m (res # rs) fwd =
     (case handle_encoded_result ok m res fwd of
        None \<Rightarrow> None
      | Some (ret, fwd') \<Rightarrow>
          if JLG (fw_by_id fwd') (fr_destid res) = None then None else forward_run ok m rs fwd')"

lemma forward_run_inv:
  assumes "forward_run ok m rs fwd = Some fwd'" "forward_inv mid rs0 outs fwd"
    "\<forall>r \<in> set rs. fr_destid r = mid" "\<forall>r \<in> set (rs0 @ rs). fr_ok r"
  shows "\<exists>new. forward_inv mid (rs0 @ rs) (outs @ new) fwd'"
  using assms
proof (induction ok m rs fwd arbitrary: rs0 outs rule: forward_run.induct)
  case (1 ok m fwd)
  then show ?case by (intro exI [of _ "[]"]) simp
next
  case (2 ok m res rs fwd)
  obtain ret fwd1 where h: "handle_encoded_result ok m res fwd = Some (ret, fwd1)"
    and live: "JLG (fw_by_id fwd1) mid \<noteq> None" and rest: "forward_run ok m rs fwd1 = Some fwd'"
    using 2(2,4) by (auto split: option.splits if_splits)
  obtain new where inv: "forward_inv mid (rs0 @ [res]) (outs @ new) fwd1"
    using handle_encoded_result_inv [OF h 2(3) _ live] 2(4,5) by auto
  have dest: "fr_destid res = mid" using 2(4) by simp
  show ?case
    using 2(1) [OF h refl _ rest inv] 2(4,5) live unfolding dest by auto
qed

lemma of_nat_u32_inj: "(of_nat i :: u32) = of_nat j \<Longrightarrow> i < 2 ^ 32 \<Longrightarrow> j < 2 ^ 32 \<Longrightarrow> i = j"
proof -
  assume eq: "(of_nat i :: u32) = of_nat j" and bounds: "i < 2 ^ 32" "j < 2 ^ 32"
  have "unat (of_nat i :: u32) = unat (of_nat j :: u32)" using eq by simp
  then have "i mod 2 ^ 32 = j mod 2 ^ 32" unfolding unat_of_nat by simp
  with bounds show ?thesis by simp
qed

text \<open>A reorderer passes on at most as many records as it was given, and the next number is missing.\<close>

lemma reord_inv_missing:
  assumes "reord_inv S D reord" "settled reord" "finite S" "card S < 2 ^ 32" "r \<in> S"
  shows "fr_seqno r \<noteq> of_nat (length D)"
proof
  assume r: "fr_seqno r = of_nat (length D)"
  have num: "map fr_seqno D = map of_nat [0..<length D]" and "set D \<subseteq> S"
    and ex: "re_expectedseqno reord = of_nat (length D)"
    and cover: "fr_seqno r \<in> fr_seqno ` set D \<or> fr_seqno r \<in> fst ` set (re_pending reord)"
    using assms(1,5) by (auto simp: reord_inv_def)
  have img: "fr_seqno ` set D = of_nat ` {0..<length D}"
    using arg_cong [OF num, of set] by simp
  have small: "length D < 2 ^ 32"
  proof (rule ccontr)
    assume "\<not> length D < 2 ^ 32"
    then have "(of_nat :: nat \<Rightarrow> u32) ` {0..<2 ^ 32} \<subseteq> fr_seqno ` set D" unfolding img by auto
    then have "card ((of_nat :: nat \<Rightarrow> u32) ` {0..<2 ^ 32}) \<le> card (fr_seqno ` set D)"
      by (rule card_mono [OF finite_imageI [OF finite_set]])
    moreover have "card ((of_nat :: nat \<Rightarrow> u32) ` {0..<2 ^ 32}) = 2 ^ 32"
      by (subst card_image) (auto intro!: inj_onI of_nat_u32_inj)
    moreover have "card (fr_seqno ` set D) \<le> card S"
      using \<open>set D \<subseteq> S\<close> assms(3) by (meson card_image_le card_mono finite_set le_trans)
    ultimately show False using assms(4) by simp
  qed
  have "fr_seqno r \<notin> fst ` set (re_pending reord)"
    using assms(2) r ex by (simp add: settled_def JLG_None)
  then obtain i where "i < length D" "(of_nat i :: u32) = of_nat (length D)"
    using cover r img by auto
  then show False using of_nat_u32_inj [of i "length D"] small by simp
qed

text \<open>A forwarder without intercepts and without the mediator.\<close>

definition fresh_for :: "u32 \<Rightarrow> forwarder \<Rightarrow> bool" where
  "fresh_for mid fwd \<longleftrightarrow>
     JLG (fw_by_id fwd) mid = None \<and> fw_intreorderer_cc fwd = [] \<and> fw_intreorderer_iri fwd = []"

lemma forward_inv_fresh: "fresh_for mid fwd \<Longrightarrow> forward_inv mid [] [] fwd"
  by (simp add: fresh_for_def forward_inv_def holds_records_def reorderer_of_def reorderers_def
      idle_reorderer_def reord_inv_def settled_def JLG_def)

lemma forward_run_order:
  assumes "forward_run ok m rs fwd = Some fwd'" "fresh_for mid fwd"
    "\<forall>r \<in> set rs. fr_destid r = mid \<and> fr_ok r" "length rs < 2 ^ 32"
  shows "\<exists>outs. holds_records mid outs fwd' \<and> set outs \<subseteq> set rs \<and>
    (\<forall>cc key. map fr_seqno (filter (of_kind cc key) outs) =
                map of_nat [0..<length (filter (of_kind cc key) outs)] \<and>
              (\<forall>r \<in> set rs. of_kind cc key r \<longrightarrow>
                 fr_seqno r \<noteq> of_nat (length (filter (of_kind cc key) outs))))"
proof -
  obtain outs where inv: "forward_inv mid rs outs fwd'"
    using forward_run_inv [OF assms(1) forward_inv_fresh [OF assms(2)]] assms(3) by auto
  have card: "card {r \<in> set rs. of_kind cc key r} < 2 ^ 32" for cc key
    using assms(4) card_length [of rs] card_mono [of "set rs" "{r \<in> set rs. of_kind cc key r}"]
    by auto
  show ?thesis
  proof (intro exI [of _ outs] conjI allI ballI impI)
    fix cc key r
    assume "r \<in> set rs" "of_kind cc key r"
    then show "fr_seqno r \<noteq> of_nat (length (filter (of_kind cc key) outs))"
      using reord_inv_missing [of "{r \<in> set rs. of_kind cc key r}" "filter (of_kind cc key) outs"
          "reorderer_of cc key fwd'" r] inv card [of cc key] by (auto simp: forward_inv_def)
  qed (use inv in \<open>auto simp: forward_inv_def reord_inv_def\<close>)
qed

subsection \<open>Progress\<close>

lemma append_message_succeeds:
  assumes "\<forall>n. ok n" "eb_wf buf"
  shows "\<exists>n buf'. append_message_to_buffer ok buf res 0 = (n, buf') \<and> n \<noteq> 0"
proof -
  let ?b0 = "if eb_tail buf = 0 then buf \<lparr> eb_partialfront := 0 \<rparr> else buf"
  have "eb_deadfront ?b0 \<le> eb_tail ?b0" "eb_tail ?b0 \<le> eb_alloced ?b0"
    "eb_alloced ?b0 - eb_tail ?b0 = eb_alloced buf - eb_tail buf"
    using assms(2) by (auto simp: eb_wf_def)
  then obtain b1 where
    "reserve ok (er_msglen res + ii_header_size) (eb_alloced buf - eb_tail buf) ?b0 = (True, b1)"
    using reserve_ok [of ok ?b0 "eb_alloced buf - eb_tail buf"] assms(1) by metis
  then show ?thesis
    by (simp add: append_message_to_buffer_def Let_def ii_header_size_def)
qed

lemma release_pending_succeeds:
  assumes "\<forall>n. ok n" "reord_inv S D reord" "\<forall>r \<in> S. fr_ok r" "eb_wf buf"
  shows "fst (release_pending ok reord buf)"
  using assms
proof (induction ok reord buf arbitrary: D rule: release_pending.induct)
  case (1 ok reord buf)
  show ?case
  proof (cases "JLG (re_pending reord) (re_expectedseqno reord)")
    case None
    then show ?thesis by (simp add: release_pending.simps)
  next
    case (Some stored)
    obtain n buf1 where app: "append_message_to_buffer ok buf (encoded_result.truncate stored) 0 = (n, buf1)"
      and nz: "n \<noteq> 0"
      using append_message_succeeds [OF 1(2,5)] by blast
    have st: "stored \<in> S" "fr_seqno stored = re_expectedseqno reord"
      using 1(3) JLG_SomeD [OF Some] by (auto elim: reord_invE)
    have "reord_inv (insert stored S) (D @ [stored]) (release_step stored reord)"
      unfolding release_step_def st(2) [symmetric]
      by (rule reord_inv_next [OF 1(3) st(2)]) (auto simp: st(2))
    then have inv1: "reord_inv S (D @ [stored]) (release_step stored reord)"
      using st(1) by (simp add: insert_absorb)
    have "eb_wf buf1"
      using eb_grows_append [OF app nz 1(5)] 1(4) st(1) by (simp add: eb_grows_def)
    then show ?thesis
      using 1(1) [OF Some app [symmetric] nz 1(2) inv1 1(4)] nz
      by (simp add: release_pending.simps [of ok reord buf] Some app)
  qed
qed

lemma reorder_succeeds:
  assumes "\<forall>n. ok n" "reord_inv S D reord" "\<forall>r \<in> insert res S. fr_ok r" "eb_wf buf"
  shows "\<exists>ret reord' buf'. reorder ok res reord buf = (ret, False, reord', buf')"
proof (cases "fr_seqno res = re_expectedseqno reord")
  case True
  obtain n buf1 where app: "append_message_to_buffer ok buf (encoded_result.truncate res) 0 = (n, buf1)"
    and nz: "n \<noteq> 0"
    using append_message_succeeds [OF assms(1,4)] by blast
  have inv1: "reord_inv (insert res S) (D @ [res]) (reord \<lparr> re_expectedseqno := fr_seqno res + 1 \<rparr>)"
    using reord_inv_next [OF assms(2) True, of "re_pending reord"] by auto
  have "eb_wf buf1"
    using eb_grows_append [OF app nz assms(4)] assms(3) by (simp add: eb_grows_def)
  then have "fst (release_pending ok (reord \<lparr> re_expectedseqno := fr_seqno res + 1 \<rparr>) buf1)"
    by (rule release_pending_succeeds [OF assms(1) inv1 assms(3)])
  then show ?thesis
    using True app nz by (auto simp: reorder_def split: prod.splits)
qed (simp add: reorder_def)

lemma enqueue_result_succeeds:
  assumes "\<forall>n. ok n" "forward_inv mid rs outs fwd" "JLG (fw_by_id fwd) mid = Some a"
    "\<forall>r \<in> insert res (set rs). fr_ok r" "fr_liid res \<noteq> None"
  shows "\<exists>ret fwd'. enqueue_result ok a res fwd = Some (ret, fwd') \<and> JLG (fw_by_id fwd') mid = Some a"
proof -
  obtain med where med: "fw_store fwd a = Some med" "eb_wf (de_buffer med)"
    using assms(2,3) by (auto simp: forward_inv_def holds_records_def)
  let ?cc = "is_cc_type (fr_origtype res)"
  let ?key = "c_str (fr_cinstr res)"
  obtain reord where entry: "(case hash_find re_key ?key (reorderers ?cc fwd) of
      None \<Rightarrow> new_reorderer res | Some r \<Rightarrow> Some r) = Some reord"
    using assms(5) by (cases "hash_find re_key ?key (reorderers ?cc fwd)") (auto simp: new_reorderer_def)
  have same: "re_expectedseqno reord = re_expectedseqno (reorderer_of ?cc ?key fwd)"
    "re_pending reord = re_pending (reorderer_of ?cc ?key fwd)"
    using entry by (auto simp: reorderer_of_def idle_reorderer_def new_reorderer_def split: option.splits)
  have "reord_inv {r \<in> set rs. of_kind ?cc ?key r} (filter (of_kind ?cc ?key) outs) reord"
    using assms(2) reord_inv_cong [OF same] by (auto simp: forward_inv_def)
  from reorder_succeeds [OF assms(1) this _ med(2), of res] assms(4)
  obtain ret reord' buf' where "reorder ok res reord (de_buffer med) = (ret, False, reord', buf')"
    by auto
  then show ?thesis
    using entry med(1) assms(3) by (auto simp: enqueue_result_def Let_def)
qed

lemma forward_run_succeeds:
  assumes "\<forall>n. ok n" "forward_inv mid rs0 outs fwd"
    "\<forall>r \<in> set rs. fr_destid r = mid \<and> fr_liid r \<noteq> None" "\<forall>r \<in> set (rs0 @ rs). fr_ok r"
  shows "\<exists>fwd'. forward_run ok m rs fwd = Some fwd'"
  using assms(2-)
proof (induction rs arbitrary: rs0 outs fwd)
  case (Cons res rs)
  have "\<exists>ret fwd1 a. handle_encoded_result ok m res fwd = Some (ret, fwd1) \<and> JLG (fw_by_id fwd1) mid = Some a"
  proof (cases "JLG (fw_by_id fwd) mid")
    case None
    let ?fwd = "insert_dest (new_dest fwd m mid None None) fwd"
    have "JLG (fw_by_id ?fwd) mid = Some (fw_next fwd)"
      by (simp add: insert_dest_def new_dest_def JLG_JLI)
    then show ?thesis
      using enqueue_result_succeeds [OF assms(1) forward_inv_insert [OF Cons.prems(1) None]] Cons.prems None
      by (simp add: handle_encoded_result_def) blast
  next
    case (Some a)
    then show ?thesis
      using enqueue_result_succeeds [OF assms(1) Cons.prems(1) Some, of res] Cons.prems
      by (simp add: handle_encoded_result_def) blast
  qed
  then obtain ret fwd1 a where h: "handle_encoded_result ok m res fwd = Some (ret, fwd1)"
    and live: "JLG (fw_by_id fwd1) mid = Some a" by blast
  obtain new where "forward_inv mid (rs0 @ [res]) (outs @ new) fwd1"
    using handle_encoded_result_inv [OF h Cons.prems(1)] live Cons.prems(2,3) by auto
  then show ?case
    using Cons.IH [of "rs0 @ [res]" "outs @ new" fwd1] Cons.prems(2,3) h live by auto
qed simp

subsection \<open>The poll array\<close>

text \<open>Every index into the poll array that is stored is in range, and there is an entry left for the
  timer that the main loop adds at the end.\<close>

definition poll_ok :: "forwarder \<Rightarrow> export_dest \<Rightarrow> bool" where
  "poll_ok fwd d \<longleftrightarrow> de_pollindex d = -1 \<or> 3 \<le> de_pollindex d \<and> de_pollindex d < int (fw_nextpoll fwd)"

definition poll_inv :: "forwarder \<Rightarrow> bool" where
  "poll_inv fwd \<longleftrightarrow>
     length (fw_topoll fwd) = fw_pollsize fwd \<and> length (fw_forcesend fwd) = fw_pollsize fwd \<and>
     3 \<le> fw_nextpoll fwd \<and> fw_nextpoll fwd < fw_pollsize fwd \<and>
     (\<forall>a d. fw_store fwd a = Some d \<longrightarrow> poll_ok fwd d)"

lemma poll_inv_simps [simp]:
  "poll_inv (fwd \<lparr> fw_flagtimerfd := t \<rparr>) = poll_inv fwd"
  "poll_inv (fwd \<lparr> fw_awaitingconfirm := w \<rparr>) = poll_inv fwd"
  "poll_inv (fwd \<lparr> fw_by_id := x \<rparr>) = poll_inv fwd"
  "poll_inv (fwd \<lparr> fw_by_fd := y \<rparr>) = poll_inv fwd"
  "poll_inv (fwd \<lparr> fw_intreorderer_cc := rs \<rparr>) = poll_inv fwd"
  "poll_inv (fwd \<lparr> fw_intreorderer_iri := rs \<rparr>) = poll_inv fwd"
  "poll_inv (fwd \<lparr> fw_topoll := (fw_topoll fwd)[i := item] \<rparr>) = poll_inv fwd"
  "poll_inv (fwd \<lparr> fw_forcesend := (fw_forcesend fwd)[i := b] \<rparr>) = poll_inv fwd"
  "poll_inv (fwd \<lparr> fw_forcesend := (fw_forcesend fwd)[j := b], fw_topoll := (fw_topoll fwd)[i := item] \<rparr>) =
   poll_inv fwd"
  by (simp_all add: poll_inv_def poll_ok_def)

lemma poll_inv_dest_update:
  assumes "poll_inv fwd" "\<And>d. fw_store fwd a = Some d \<Longrightarrow> poll_ok fwd (f d)"
  shows "poll_inv (dest_update a f fwd)"
  using assms by (auto simp: poll_inv_def poll_ok_def dest_update_def)

lemma poll_inv_update_index:
  assumes "poll_inv fwd" "\<And>d. de_pollindex (f d) = de_pollindex d"
  shows "poll_inv (dest_update a f fwd)"
  by (rule poll_inv_dest_update [OF assms(1)]) (use assms in \<open>auto simp: poll_inv_def poll_ok_def\<close>)

lemma poll_inv_disconnect: "poll_inv fwd \<Longrightarrow> poll_inv (disconnect_mediator a fwd)"
  using poll_inv_update_index [of fwd "\<lambda>d. d \<lparr> de_fd := -1, de_logallowed := False, de_ssl := False \<rparr>" a]
  by (simp add: disconnect_mediator_def Let_def split: option.splits)

lemma poll_inv_remove: "poll_inv fwd \<Longrightarrow> poll_inv (remove_destination a fwd)"
proof -
  assume inv: "poll_inv fwd"
  have "poll_inv (w \<lparr> fw_store := (fw_store w)(a := None) \<rparr>)" if "poll_inv w" for w
    using that by (simp add: poll_inv_def poll_ok_def)
  then show ?thesis
    using inv by (auto simp: remove_destination_def Let_def poll_inv_disconnect split: option.splits)
qed

lemma fold_keeps: "P w \<Longrightarrow> (\<And>x w. x \<in> set xs \<Longrightarrow> P w \<Longrightarrow> P (f x w)) \<Longrightarrow> P (fold f xs w)"
  by (induction xs arbitrary: w) auto

lemma poll_inv_insert: "poll_inv fwd \<Longrightarrow> poll_inv (insert_dest (new_dest fwd m mid ip port) fwd)"
  by (simp add: poll_inv_def poll_ok_def insert_dest_def new_dest_def)

lemma poll_inv_add:
  assumes "add_new_destination m timerfd med fwd = Some (r, fwd')" "poll_inv fwd"
  shows "poll_inv fwd'"
proof -
  have timer: "poll_inv w'" if "start_flag_timer timerfd w = (r, w')" "poll_inv w" for w w' r
    using that by (auto simp: start_flag_timer_def split: if_splits)
  have upd: "poll_inv (dest_update a (\<lambda>_. d') fwd)"
    if "fw_store fwd a = Some d" "de_pollindex d' = de_pollindex d" for a d d'
    by (rule poll_inv_dest_update [OF assms(2)]) (use that assms(2) in \<open>auto simp: poll_inv_def poll_ok_def\<close>)
  show ?thesis
  proof (cases "JLG (fw_by_id fwd) (med_mediatorid med)")
    case None
    then show ?thesis
      using assms(1) timer [OF _ poll_inv_insert [OF assms(2)]]
      by (simp add: add_new_destination_def Let_def)
  next
    case (Some a)
    then obtain d d' where d: "fw_store fwd a = Some d" "refresh_dest med d = Some d'"
      and t: "start_flag_timer timerfd (dest_update a (\<lambda>_. d') fwd) = (r, fwd')"
      using assms(1) by (auto simp: add_new_destination_def Let_def split: option.splits)
    have "de_pollindex d' = de_pollindex d"
      using d(2) by (auto simp: refresh_dest_def split: if_splits)
    then show ?thesis using timer [OF t upd] d(1) by simp
  qed
qed

lemma poll_inv_ctrl:
  assumes "handle_ctrl_message m timerfd msg fwd = Some (r, fwd')" "poll_inv fwd"
  shows "poll_inv fwd'"
proof -
  have all: "poll_inv (remove_all_destinations fwd)" "poll_inv (disconnect_all_destinations fwd)"
    "poll_inv (flag_all_destinations fwd)"
    unfolding remove_all_destinations_def disconnect_all_destinations_def flag_all_destinations_def
    using assms(2)
    by (auto intro!: fold_keeps [where P = poll_inv] poll_inv_remove poll_inv_update_index poll_inv_disconnect)
  show ?thesis
    using assms all
    by (auto simp: handle_ctrl_message_def Let_def poll_inv_remove
        split: if_splits export_data.splits option.splits dest: poll_inv_add)
qed

lemma poll_inv_purge: "poll_inv fwd \<Longrightarrow> poll_inv (purge_unconfirmed_mediators fwd)"
  unfolding purge_unconfirmed_mediators_def
  by (rule fold_keeps [where P = poll_inv]) (auto intro: poll_inv_remove split: option.splits)

lemma poll_inv_enqueue:
  assumes "enqueue_result ok a res fwd = Some (r, fwd')" "poll_inv fwd"
  shows "poll_inv fwd'"
proof -
  have "poll_inv (dest_update a (\<lambda>d. d \<lparr> de_buffer := b \<rparr>) (set_reorderers cc rs fwd))" for b cc rs
    using assms(2) by (intro poll_inv_update_index) (simp_all add: set_reorderers_def)
  then show ?thesis
    using assms(1)
    by (auto simp: enqueue_result_def Let_def poll_inv_remove split: option.splits prod.splits if_splits)
qed

lemma poll_inv_handle:
  assumes "handle_encoded_result ok m res fwd = Some (r, fwd')" "poll_inv fwd"
  shows "poll_inv fwd'"
  using assms poll_inv_insert [OF assms(2)]
  by (auto simp: handle_encoded_result_def split: option.splits intro: poll_inv_enqueue)

text \<open>Connecting a destination writes the entries at its index, which is in range.\<close>

lemma poll_ok_mono: "poll_ok w d \<Longrightarrow> fw_nextpoll w \<le> fw_nextpoll w' \<Longrightarrow> poll_ok w' d"
  by (auto simp: poll_ok_def)

lemma poll_inv_next:
  assumes "poll_inv w" "Suc (fw_nextpoll w) < fw_pollsize w"
  shows "poll_inv (w \<lparr> fw_nextpoll := fw_nextpoll w + 1 \<rparr>)"
  using assms poll_ok_mono [of w _ "w \<lparr> fw_nextpoll := fw_nextpoll w + 1 \<rparr>"] by (auto simp: poll_inv_def)

lemma poll_inv_grow:
  assumes "poll_inv w"
  shows "poll_inv (grow_poll w)" "Suc (fw_nextpoll (grow_poll w)) < fw_pollsize (grow_poll w)"
    "fw_nextpoll (grow_poll w) = fw_nextpoll w" "fw_store (grow_poll w) = fw_store w"
proof -
  have "poll_ok (grow_poll w) d = poll_ok w d" for d by (simp add: poll_ok_def grow_poll_def)
  then show "poll_inv (grow_poll w)" using assms by (auto simp: poll_inv_def grow_poll_def)
qed (use assms in \<open>auto simp: poll_inv_def grow_poll_def\<close>)

lemma poll_inv_take:
  assumes "take_poll_index a dest fwd = (ind, fwd')" "poll_inv fwd" "poll_ok fwd dest"
  shows "poll_inv fwd' \<and> 3 \<le> ind \<and> ind < fw_nextpoll fwd'"
proof (cases "de_pollindex dest = -1")
  case True
  let ?w = "grow_poll fwd"
  note g = poll_inv_grow [OF assms(2)]
  have "poll_inv (dest_update a (\<lambda>d. d \<lparr> de_pollindex := int (fw_nextpoll ?w) \<rparr>)
      (?w \<lparr> fw_nextpoll := fw_nextpoll ?w + 1 \<rparr>))"
    using poll_inv_next [OF g(1,2)] assms(2) g(3)
    by (intro poll_inv_dest_update) (auto simp: poll_ok_def poll_inv_def)
  moreover have "3 \<le> fw_nextpoll fwd" using assms(2) by (simp add: poll_inv_def)
  ultimately show ?thesis
    using assms(1) True g(3) by (auto simp: take_poll_index_def Let_def dest_update_def)
next
  case False
  then show ?thesis
    using assms by (auto simp: take_poll_index_def poll_ok_def)
qed

lemma connect_single_target_index:
  "connect_single_target env a dest = (fd, dest1) \<Longrightarrow> de_pollindex dest1 = de_pollindex dest"
  by (auto simp: connect_single_target_def Let_def split: if_splits)

lemma poll_inv_connect: "poll_inv fwd \<Longrightarrow> poll_inv (connect_target env a fwd)"
proof -
  assume inv: "poll_inv fwd"
  show ?thesis
  proof (cases "fw_store fwd a")
    case None
    then show ?thesis using inv by (simp add: connect_target_def)
  next
    case (Some dest)
    obtain fd dest1 where c: "connect_single_target env a dest = (fd, dest1)" by force
    let ?w = "dest_update a (\<lambda>_. dest1 \<lparr> de_fd := fd \<rparr>) fwd"
    have ok: "poll_ok fwd dest" using inv Some by (simp add: poll_inv_def)
    then have "poll_inv ?w"
      using connect_single_target_index [OF c]
      by (intro poll_inv_dest_update [OF inv]) (simp add: poll_ok_def)
    moreover have "poll_ok ?w dest1"
      using ok connect_single_target_index [OF c] by (simp add: poll_ok_def dest_update_def)
    moreover obtain ind w2 where t: "take_poll_index a dest1 (?w \<lparr> fw_by_fd := JLI fd a (fw_by_fd ?w) \<rparr>) = (ind, w2)"
      by force
    ultimately have "poll_inv w2"
      using poll_inv_take [OF t] by (simp add: poll_ok_def)
    then have "poll_inv (dest_update a (\<lambda>d. d \<lparr> de_waitingforhandshake := de_ssl d \<rparr>) w2)"
      by (rule poll_inv_update_index) simp
    then show ?thesis
      using inv Some c t \<open>poll_inv ?w\<close> by (auto simp: connect_target_def Let_def)
  qed
qed

lemma poll_inv_rmq_one:
  assumes "rmq_write_one ok h p a w = Some w'" "poll_inv w"
  shows "poll_inv w'"
proof -
  have "poll_inv (dest_update a (\<lambda>d. d \<lparr> de_buffer := b \<rparr>) x)" if "poll_inv x" for b x
    using that by (rule poll_inv_update_index) simp
  then show ?thesis
    using assms
    by (auto simp: rmq_write_one_def Let_def poll_inv_disconnect split: option.splits if_splits)
qed

lemma poll_inv_rmq:
  "rmq_write_buffered ok outcome ids w = Some w' \<Longrightarrow> poll_inv w \<Longrightarrow> poll_inv w'"
  by (induction ok outcome ids w rule: rmq_write_buffered.induct)
     (auto split: option.splits dest: poll_inv_rmq_one)

lemma poll_inv_ready:
  assumes "forward_ready ok env calls i w = Some (out, w')" "poll_inv w"
  shows "poll_inv w'"
proof -
  have upd: "poll_inv (dest_update a (\<lambda>d. d \<lparr> de_buffer := b \<rparr>) x)"
    "poll_inv (dest_update a (\<lambda>d. d \<lparr> de_logallowed := l \<rparr>) x)"
    "poll_inv (dest_update a (\<lambda>d. d \<lparr> de_waitingforhandshake := h, de_ssllasterror := e \<rparr>) x)"
    if "poll_inv x" for a b l h e x
    using that by (simp_all add: poll_inv_update_index)
  have "poll_inv (complete_ssl_handshake env a w)" for a
    using assms(2) by (simp add: complete_ssl_handshake_def upd poll_inv_disconnect split: handshake.splits)
  then show ?thesis
    using assms
    by (auto simp: forward_ready_def Let_def upd poll_inv_disconnect split: option.splits if_splits)
qed

subsection \<open>The thread as a transition system\<close>

text \<open>The events the main loop handles: a control message, a record, the connection timer, the
  confirmation timer, a descriptor that is ready, and the delivery to RabbitMQ.\<close>

inductive forwarder_step :: "forwarder \<Rightarrow> forwarder \<Rightarrow> bool" where
  ctrl: "handle_ctrl_message m timerfd msg w = Some (r, w') \<Longrightarrow> forwarder_step w w'"
| result: "handle_encoded_result ok m res w = Some (r, w') \<Longrightarrow> forwarder_step w w'"
| connect: "forwarder_step w
    ((connect_export_targets env w) \<lparr> fw_forcesend :=
        map (\<lambda>i. fw_forcesend (connect_export_targets env w) ! i \<or>
                  3 \<le> i \<and> i < fw_nextpoll (connect_export_targets env w))
          [0..<length (fw_forcesend (connect_export_targets env w))],
      fw_forcesend_rmq := True \<rparr>)"
| confirm: "fw_awaitingconfirm w \<Longrightarrow> fw_flagtimerfd w \<noteq> -1 \<Longrightarrow>
    forwarder_step w
      ((purge_unconfirmed_mediators w) \<lparr> fw_awaitingconfirm := False, fw_flagtimerfd := -1 \<rparr>)"
| ready: "3 \<le> i \<Longrightarrow> i < fw_nextpoll w \<Longrightarrow> forward_ready ok env calls i w = Some (out, w') \<Longrightarrow>
    forwarder_step w w'"
| rmq: "fw_ampq_conn w \<Longrightarrow> rmq_write_buffered ok outcome (fw_by_id w) w = Some w' \<Longrightarrow>
    forwarder_step w (w' \<lparr> fw_forcesend_rmq := False \<rparr>)"

definition forwarder_init :: "bool \<Rightarrow> forwarder" where
  "forwarder_init ampq =
     \<lparr> fw_store = (\<lambda>_. None), fw_next = 0, fw_by_id = [], fw_by_fd = [], fw_intreorderer_cc = [],
       fw_intreorderer_iri = [], fw_awaitingconfirm = False, fw_flagtimerfd = -1,
       fw_topoll = replicate 10 \<lparr> po_fd = 0, po_events = False \<rparr>,
       fw_forcesend = replicate 10 False, fw_forcesend_rmq = False, fw_pollsize = 10,
       fw_nextpoll = 3, fw_ampq_conn = ampq \<rparr>"

lemma forwarder_step_poll_inv: "forwarder_step w w' \<Longrightarrow> poll_inv w \<Longrightarrow> poll_inv w'"
proof (induction rule: forwarder_step.induct)
  case (connect w env)
  have "poll_inv (connect_export_targets env w)"
    unfolding connect_export_targets_def
    using connect by (intro fold_keeps [where P = poll_inv]) (auto intro: poll_inv_connect)
  then show ?case by (simp add: poll_inv_def poll_ok_def)
next
  case (rmq w ok outcome w')
  then have "poll_inv w'" using poll_inv_rmq by blast
  then show ?case by (simp add: poll_inv_def poll_ok_def)
qed (auto dest: poll_inv_ctrl poll_inv_handle poll_inv_ready intro: poll_inv_purge)

subsection \<open>The table of mediators\<close>

text \<open>The entries of \<^verbatim>\<open>destinations_by_id\<close> point to destinations that exist and have that id.\<close>

definition id_inv :: "forwarder \<Rightarrow> bool" where
  "id_inv w \<longleftrightarrow>
     (\<forall>mid a. JLG (fw_by_id w) mid = Some a \<longrightarrow>
        a < fw_next w \<and> (\<exists>d. fw_store w a = Some d \<and> de_mediatorid d = mid))"

lemma id_inv_simps [simp]:
  "id_inv (w \<lparr> fw_topoll := t \<rparr>) = id_inv w" "id_inv (w \<lparr> fw_forcesend := f \<rparr>) = id_inv w"
  "id_inv (w \<lparr> fw_forcesend_rmq := r \<rparr>) = id_inv w" "id_inv (w \<lparr> fw_by_fd := y \<rparr>) = id_inv w"
  "id_inv (w \<lparr> fw_flagtimerfd := x \<rparr>) = id_inv w" "id_inv (w \<lparr> fw_awaitingconfirm := c \<rparr>) = id_inv w"
  "id_inv (w \<lparr> fw_nextpoll := n \<rparr>) = id_inv w" "id_inv (w \<lparr> fw_pollsize := n \<rparr>) = id_inv w"
  "id_inv (w \<lparr> fw_intreorderer_cc := rs \<rparr>) = id_inv w"
  "id_inv (w \<lparr> fw_intreorderer_iri := rs \<rparr>) = id_inv w"
  by (simp_all add: id_inv_def)

lemma id_inv_update:
  assumes "id_inv w" "\<And>d. de_mediatorid (f d) = de_mediatorid d"
  shows "id_inv (dest_update a f w)"
proof -
  have "fw_next (dest_update a f w) = fw_next w" by (simp add: dest_update_def)
  with assms show ?thesis by (fastforce simp: id_inv_def)
qed

lemma id_inv_const:
  assumes "id_inv w" "fw_store w a = Some d" "de_mediatorid d' = de_mediatorid d"
  shows "id_inv (dest_update a (\<lambda>_. d') w)"
proof -
  have "fw_next (dest_update a f w) = fw_next w" for f by (simp add: dest_update_def)
  with assms show ?thesis by (fastforce simp: id_inv_def)
qed

lemma id_inv_disconnect: "id_inv w \<Longrightarrow> id_inv (disconnect_mediator a w)"
proof -
  assume inv: "id_inv w"
  have "id_inv (dest_update a (\<lambda>d. d \<lparr> de_fd := -1, de_logallowed := False, de_ssl := False \<rparr>) w)"
    using inv by (rule id_inv_update) simp
  then show ?thesis
    using inv by (simp add: disconnect_mediator_def Let_def split: option.splits)
qed

lemma disconnect_store:
  "fw_store (disconnect_mediator a w) b =
     (if b = a then map_option (\<lambda>d. d \<lparr> de_fd := -1, de_logallowed := False, de_ssl := False \<rparr>) (fw_store w a)
      else fw_store w b)"
  "fw_next (disconnect_mediator a w) = fw_next w"
  by (auto simp: disconnect_mediator_def Let_def dest_update_def split: option.splits)

lemma id_inv_remove:
  assumes "id_inv w"
  shows "id_inv (remove_destination a w)"
proof (cases "fw_store w a")
  case (Some med)
  let ?w = "remove_destination a w"
  have by_id: "fw_by_id ?w = JLD (de_mediatorid med) (fw_by_id w)" "fw_next ?w = fw_next w"
    using Some by (auto simp: remove_destination_def Let_def disconnect_store)
  have store: "fw_store ?w b = fw_store w b" if "b \<noteq> a" for b
    using Some that by (auto simp: remove_destination_def Let_def disconnect_store)
  show ?thesis
    unfolding id_inv_def by_id JLG_JLD
  proof (intro allI impI)
    fix mid b
    assume "(if mid = de_mediatorid med then None else JLG (fw_by_id w) mid) = Some b"
    then have "mid \<noteq> de_mediatorid med" "JLG (fw_by_id w) mid = Some b" by (auto split: if_splits)
    then obtain d where "b < fw_next w" "fw_store w b = Some d" "de_mediatorid d = mid" "b \<noteq> a"
      using assms Some unfolding id_inv_def by fastforce
    then show "b < fw_next w \<and> (\<exists>d. fw_store ?w b = Some d \<and> de_mediatorid d = mid)"
      using store by simp
  qed
qed (use assms in \<open>simp add: remove_destination_def\<close>)

lemma id_inv_insert: "id_inv w \<Longrightarrow> id_inv (insert_dest d w)"
  unfolding id_inv_def insert_dest_def by (auto simp: JLG_JLI) fastforce+

lemma id_inv_add:
  assumes "add_new_destination m timerfd med w = Some (r, w')" "id_inv w"
  shows "id_inv w'"
proof -
  have timer: "id_inv y" if "start_flag_timer timerfd x = (r, y)" "id_inv x" for x y r
    using that by (auto simp: start_flag_timer_def split: if_splits)
  show ?thesis
  proof (cases "JLG (fw_by_id w) (med_mediatorid med)")
    case None
    then show ?thesis
      using assms(1) timer [OF _ id_inv_insert [OF assms(2)]]
      by (simp add: add_new_destination_def Let_def)
  next
    case (Some a)
    then obtain d d' where d: "fw_store w a = Some d" "refresh_dest med d = Some d'"
      and t: "start_flag_timer timerfd (dest_update a (\<lambda>_. d') w) = (r, w')"
      using assms(1) by (auto simp: add_new_destination_def Let_def split: option.splits)
    have "de_mediatorid d' = de_mediatorid d"
      using d(2) by (auto simp: refresh_dest_def split: if_splits)
    then show ?thesis using timer [OF t id_inv_const [OF assms(2) d(1)]] by simp
  qed
qed

lemma id_inv_ctrl:
  assumes "handle_ctrl_message m timerfd msg w = Some (r, w')" "id_inv w"
  shows "id_inv w'"
proof -
  have all: "id_inv (remove_all_destinations w)" "id_inv (disconnect_all_destinations w)"
    "id_inv (flag_all_destinations w)"
    unfolding remove_all_destinations_def disconnect_all_destinations_def flag_all_destinations_def
    using assms(2)
    by (auto intro!: fold_keeps [where P = id_inv] id_inv_remove id_inv_update id_inv_disconnect)
  show ?thesis
    using assms all
    by (auto simp: handle_ctrl_message_def Let_def id_inv_remove
        split: if_splits export_data.splits option.splits dest: id_inv_add)
qed

lemma id_inv_handle:
  assumes "handle_encoded_result ok m res w = Some (r, w')" "id_inv w"
  shows "id_inv w'"
proof -
  have upd: "id_inv (dest_update a (\<lambda>d. d \<lparr> de_buffer := b \<rparr>) (set_reorderers cc rs x))"
    if "id_inv x" for a b cc rs x
    using that by (intro id_inv_update) (simp_all add: set_reorderers_def)
  have enq: "id_inv w'" if "enqueue_result ok a res x = Some (r, w')" "id_inv x" for a x
    using that
    by (auto simp: enqueue_result_def Let_def upd id_inv_remove split: option.splits prod.splits if_splits)
  show ?thesis
    using assms(1) enq assms(2) id_inv_insert
    by (auto simp: handle_encoded_result_def split: option.splits)
qed

lemma id_inv_connect: "id_inv w \<Longrightarrow> id_inv (connect_target env a w)"
proof -
  assume inv: "id_inv w"
  have take_index: "id_inv y" if "take_poll_index a d x = (ind, y)" "id_inv x" for d x ind y
    using that by (auto simp: take_poll_index_def grow_poll_def Let_def id_inv_update split: if_splits)
  show ?thesis
  proof (cases "fw_store w a")
    case (Some dest)
    obtain fd dest1 where c: "connect_single_target env a dest = (fd, dest1)" by force
    let ?w = "dest_update a (\<lambda>_. dest1 \<lparr> de_fd := fd \<rparr>) w"
    have "de_mediatorid dest1 = de_mediatorid dest"
      using c by (auto simp: connect_single_target_def Let_def split: if_splits)
    then have w1: "id_inv ?w" using id_inv_const [OF inv Some] by simp
    obtain ind w2 where t: "take_poll_index a dest1 (?w \<lparr> fw_by_fd := JLI fd a (fw_by_fd ?w) \<rparr>) = (ind, w2)"
      by force
    have "id_inv w2" using take_index [OF t] w1 by simp
    then have "id_inv (dest_update a (\<lambda>d. d \<lparr> de_waitingforhandshake := de_ssl d \<rparr>) w2)"
      by (rule id_inv_update) simp
    then show ?thesis
      using inv Some c t w1 by (auto simp: connect_target_def Let_def)
  qed (use inv in \<open>simp add: connect_target_def\<close>)
qed

lemma id_inv_ready:
  assumes "forward_ready ok env calls i w = Some (out, w')" "id_inv w"
  shows "id_inv w'"
proof -
  have upd: "id_inv (dest_update a (\<lambda>d. d \<lparr> de_buffer := b \<rparr>) x)"
    "id_inv (dest_update a (\<lambda>d. d \<lparr> de_logallowed := l \<rparr>) x)"
    "id_inv (dest_update a (\<lambda>d. d \<lparr> de_waitingforhandshake := h, de_ssllasterror := e \<rparr>) x)"
    if "id_inv x" for a b l h e x
    using that by (simp_all add: id_inv_update)
  have "id_inv (complete_ssl_handshake env a w)" for a
    using assms(2) by (simp add: complete_ssl_handshake_def upd id_inv_disconnect split: handshake.splits)
  then show ?thesis
    using assms
    by (auto simp: forward_ready_def Let_def upd id_inv_disconnect split: option.splits if_splits)
qed

lemma id_inv_rmq:
  "rmq_write_buffered ok outcome ids w = Some w' \<Longrightarrow> id_inv w \<Longrightarrow> id_inv w'"
proof (induction ok outcome ids w rule: rmq_write_buffered.induct)
  case (2 ok outcome mid a rest w)
  have upd: "id_inv (dest_update a (\<lambda>d. d \<lparr> de_buffer := b \<rparr>) x)" if "id_inv x" for b x
    using that by (rule id_inv_update) simp
  have "id_inv w1" if "rmq_write_one ok h p a w = Some w1" for h p w1
    using that 2(3)
    by (auto simp: rmq_write_one_def Let_def id_inv_disconnect upd split: option.splits if_splits)
  with 2 show ?case by (auto split: option.splits)
qed simp

lemma forwarder_step_id_inv: "forwarder_step w w' \<Longrightarrow> id_inv w \<Longrightarrow> id_inv w'"
proof (induction rule: forwarder_step.induct)
  case (connect w env)
  have "id_inv (connect_export_targets env w)"
    unfolding connect_export_targets_def
    using connect by (intro fold_keeps [where P = id_inv]) (auto intro: id_inv_connect)
  then show ?case by simp
next
  case (confirm w)
  have "id_inv (purge_unconfirmed_mediators w)"
    unfolding purge_unconfirmed_mediators_def
    by (rule fold_keeps [where P = id_inv]) (use confirm in \<open>auto intro: id_inv_remove split: option.splits\<close>)
  then show ?case by simp
qed (auto dest: id_inv_ctrl id_inv_handle id_inv_ready id_inv_rmq)

lemma forwarder_reachable:
  assumes "forwarder_step\<^sup>*\<^sup>* (forwarder_init ampq) w"
  shows "poll_inv w \<and> id_inv w"
  using assms
proof (induction rule: rtranclp_induct)
  case base
  show ?case by (simp add: poll_inv_def id_inv_def forwarder_init_def JLG_def)
next
  case (step w w')
  then show ?case by (blast intro: forwarder_step_poll_inv forwarder_step_id_inv)
qed

subsection \<open>Properties\<close>

text \<open>C8. With memory available, a forwarding thread that starts without the mediator handles every
  sequence of records for it, in whatever order the encoders deliver them, and the mediator's
  buffer then holds the bytes of a list of received records in which the records of each LIID
  and CIN and kind, CC or IRI, are numbered 0, 1, 2 and so on without gaps or repetitions, up to
  the first number that has not been received.\<close>

theorem forwarder_delivers:
  assumes "\<forall>n. ok n" "fresh_for mid fwd" "length rs < 2 ^ 32"
    "\<forall>r \<in> set rs. fr_destid r = mid \<and> fr_liid r \<noteq> None \<and> fr_ok r"
  shows "\<exists>fwd' outs. forward_run ok m rs fwd = Some fwd' \<and> holds_records mid outs fwd' \<and>
    set outs \<subseteq> set rs \<and>
    (\<forall>cc key. map fr_seqno (filter (of_kind cc key) outs) =
                map of_nat [0..<length (filter (of_kind cc key) outs)] \<and>
              (\<forall>r \<in> set rs. of_kind cc key r \<longrightarrow>
                 fr_seqno r \<noteq> of_nat (length (filter (of_kind cc key) outs))))"
proof -
  obtain fwd' where run: "forward_run ok m rs fwd = Some fwd'"
    using forward_run_succeeds [OF assms(1) forward_inv_fresh [OF assms(2)]] assms(4) by fastforce
  show ?thesis
    using run forward_run_order [OF run assms(2) _ assms(3)] assms(4) by blast
qed

definition ex_result :: "u32 \<Rightarrow> forward_result" where
  "ex_result n = \<lparr> er_header = \<lparr> hdr_magic = 0, hdr_bodylen = 0, hdr_intercepttype = 0, hdr_internalid = 0 \<rparr>,
     er_encoded = [7], er_msglen = 1, er_ipcontents = [], er_ipclen = 0,
     fr_seqno = n, fr_destid = 4, fr_liid = Some [65], fr_cinstr = [65, 45, 49],
     fr_origtype = OPENLI_EXPORT_IPCC \<rparr>"

theorem forwarder_delivers_witness:
  "\<exists>fwd' outs. forward_run (\<lambda>_. True) (\<lambda>_. 0) [ex_result 1, ex_result 0] (forwarder_init False) = Some fwd' \<and>
     holds_records 4 outs fwd' \<and> take 2 (map fr_seqno (filter (of_kind True [65, 45, 49]) outs)) = [0, 1]"
proof -
  let ?rs = "[ex_result 1, ex_result 0]"
  let ?k = "of_kind True [65, 45, 49]"
  have hyps: "fresh_for 4 (forwarder_init False)"
    "\<forall>r \<in> set ?rs. fr_destid r = 4 \<and> fr_liid r \<noteq> None \<and> fr_ok r"
    by (simp_all add: fresh_for_def forwarder_init_def JLG_def ex_result_def fr_ok_def er_ok_def
        encoded_result.defs)
  have kind: "?k (ex_result n)" "fr_seqno (ex_result n) = n" for n
    by (simp_all add: of_kind_def ex_result_def is_cc_type_def c_str_def)
  obtain fwd' outs where run: "forward_run (\<lambda>_. True) (\<lambda>_. 0) ?rs (forwarder_init False) = Some fwd'"
    "holds_records 4 outs fwd'" and sub: "set outs \<subseteq> set ?rs"
    and num: "map fr_seqno (filter ?k outs) = map of_nat [0..<length (filter ?k outs)]"
    and next_no: "\<forall>r \<in> set ?rs. ?k r \<longrightarrow> fr_seqno r \<noteq> of_nat (length (filter ?k outs))"
    using forwarder_delivers [of "\<lambda>_. True" 4 "forwarder_init False" ?rs "\<lambda>_. 0"] hyps by auto
  have "length (filter ?k outs) \<noteq> 0" "length (filter ?k outs) \<noteq> 1"
    using next_no kind by auto
  then have "2 \<le> length (filter ?k outs)" by linarith
  moreover have "map (of_nat :: nat \<Rightarrow> u32) [0..<2] = [0, 1]"
    by (simp add: numeral_2_eq_2)
  ultimately have "take 2 (map fr_seqno (filter ?k outs)) = [0, 1]"
    unfolding num by (simp add: take_map)
  with run show ?thesis by blast
qed

text \<open>C9. In every state a forwarding thread can reach, the indices into the poll array are in range,
  with an entry left for the confirmation timer, and every mediator in the table is one that
  exists and has the id it is listed under.\<close>

theorem forwarder_invariant:
  assumes "forwarder_step\<^sup>*\<^sup>* (forwarder_init ampq) w"
  shows "poll_inv w \<and> id_inv w"
  using assms by (rule forwarder_reachable)

theorem forwarder_invariant_witness:
  "\<exists>w. forwarder_step\<^sup>*\<^sup>* (forwarder_init False) w \<and> fw_by_id w = [(4, 0)] \<and> poll_inv w \<and> id_inv w"
proof -
  let ?med = "\<lparr> med_mediatorid = 4, med_ipstr = Some [49], med_portstr = Some [50] \<rparr>"
  let ?msg = "\<lparr> xr_type = OPENLI_EXPORT_MEDIATOR, xr_destid = 0, xr_ts = (0, 0), xr_data = Data_med ?med \<rparr>"
  obtain r w where h: "handle_ctrl_message (\<lambda>_. 0) 9 ?msg (forwarder_init False) = Some (r, w)"
    and ids: "fw_by_id w = [(4, 0)]"
    by (simp add: handle_ctrl_message_def export_type_defs add_new_destination_def forwarder_init_def
        start_flag_timer_def insert_dest_def new_dest_def JLG_def JLI_def JLD_def Let_def)
  have reach: "forwarder_step\<^sup>*\<^sup>* (forwarder_init False) w"
    using forwarder_step.ctrl [OF h] by (rule r_into_rtranclp)
  from forwarder_invariant [OF reach] reach ids show ?thesis by blast
qed

text \<open>C27. When the connection to a mediator is replaced after part of a batch has been sent, the part
  sent is forgotten but not the length of the rest: the next batch is the first bytes of the
  interrupted one, as many as were missing, and not the whole of it.\<close>

theorem reconnect_keeps_remainder:
  assumes "connect_single_target env a dest = (fd, dest')" "fd \<noteq> -1"
    "0 < eb_partialrem (de_buffer dest)"
  shows "eb_partialfront (de_buffer dest') = 0 \<and>
    batch_amount limit (de_buffer dest') = Some (eb_partialrem (de_buffer dest))"
  using assms by (auto simp: connect_single_target_def batch_amount_def Let_def split: if_splits)

theorem reconnect_keeps_remainder_witness:
  "let env = \<lparr> ne_connect = (\<lambda>_ _. 5), ne_ctx = False, ne_ssl_connect = (\<lambda>_. Handshake_done) \<rparr>;
       dest = (new_dest (forwarder_init False) (\<lambda>_. 0) 4 (Some [49]) (Some [50]))
         \<lparr> de_buffer := (init_export_buffer (\<lambda>_. 0))
             \<lparr> eb_tail := 9, eb_alloced := 9, eb_partialfront := 3, eb_partialrem := 6 \<rparr> \<rparr>
   in batch_amount 100 (de_buffer (snd (connect_single_target env 0 dest))) = Some 6"
proof -
  let ?env = "\<lparr> ne_connect = (\<lambda>_ _. 5), ne_ctx = False, ne_ssl_connect = (\<lambda>_. Handshake_done) \<rparr>"
  let ?dest = "(new_dest (forwarder_init False) (\<lambda>_. 0) 4 (Some [49]) (Some [50]))
    \<lparr> de_buffer := (init_export_buffer (\<lambda>_. 0))
        \<lparr> eb_tail := 9, eb_alloced := 9, eb_partialfront := 3, eb_partialrem := 6 \<rparr> \<rparr>"
  have "fst (connect_single_target ?env 0 ?dest) \<noteq> -1"
    by (simp add: connect_single_target_def new_dest_def Let_def)
  then show ?thesis
    using reconnect_keeps_remainder [of ?env 0 ?dest "fst (connect_single_target ?env 0 ?dest)"
        "snd (connect_single_target ?env 0 ?dest)" 100] by (simp add: Let_def)
qed

text \<open>C28. A mediator that announces a new location and is then withdrawn leaves its old descriptor in
  the poll array and a pointer to the freed destination in \<^verbatim>\<open>destinations_by_fd\<close>: when that
  descriptor number is reported ready, the thread follows the pointer.\<close>

theorem moved_mediator_dangling:
  "\<exists>w. forwarder_step\<^sup>*\<^sup>* (forwarder_init False) w \<and> 3 < fw_nextpoll w \<and>
     (\<forall>ok env calls. forward_ready ok env calls 3 w = None)"
proof -
  let ?med = "\<lambda>ip. \<lparr> med_mediatorid = 4, med_ipstr = Some [ip], med_portstr = Some [50] \<rparr>"
  let ?msg = "\<lambda>ty ip. \<lparr> xr_type = ty, xr_destid = 0, xr_ts = (0, 0), xr_data = Data_med (?med ip) \<rparr>"
  let ?env = "\<lparr> ne_connect = (\<lambda>_ _. 5), ne_ctx = False, ne_ssl_connect = (\<lambda>_. Handshake_done) \<rparr>"
  let ?d = "new_dest (forwarder_init False) (\<lambda>_. 0) 4 (Some [49]) (Some [50])"
  let ?w1 = "insert_dest ?d (forwarder_init False)"
  have s1: "forwarder_step (forwarder_init False) ?w1"
    by (rule forwarder_step.ctrl [of "\<lambda>_. 0" 9 "?msg OPENLI_EXPORT_MEDIATOR 49" _ 1])
       (simp add: handle_ctrl_message_def export_type_defs add_new_destination_def forwarder_init_def
        start_flag_timer_def insert_dest_def new_dest_def JLG_def Let_def)
  obtain w2 where s2: "forwarder_step ?w1 w2" and w2: "fw_topoll w2 ! 3 = \<lparr> po_fd = 5, po_events = True \<rparr>"
    "fw_by_fd w2 = [(5, 0)]" "fw_by_id w2 = [(4, 0)]" "3 < fw_nextpoll w2" "\<not> fw_awaitingconfirm w2"
    "\<exists>d. fw_store w2 0 = Some d \<and> de_ipstr d = Some [49] \<and> de_mediatorid d = 4"
    by (rule that [OF forwarder_step.connect [of _ ?env]])
       (simp_all add: connect_export_targets_def connect_target_def connect_single_target_def
        take_poll_index_def grow_poll_def dest_update_def insert_dest_def new_dest_def
        forwarder_init_def JLI_def JLD_def Let_def)
  then obtain w3 where s3: "forwarder_step w2 w3" and w3: "fw_topoll w3 = fw_topoll w2" "fw_by_fd w3 = fw_by_fd w2"
    "fw_by_id w3 = fw_by_id w2" "fw_nextpoll w3 = fw_nextpoll w2"
    "\<exists>d. fw_store w3 0 = Some d \<and> de_fd d = -1 \<and> de_mediatorid d = 4"
  proof -
    obtain d where d: "fw_store w2 0 = Some d" "de_ipstr d = Some [49]" "de_mediatorid d = 4"
      using w2 by blast
    let ?d' = "d \<lparr> de_ipstr := Some [51], de_portstr := Some [50], de_logallowed := True, de_fd := -1,
      de_awaitingconfirm := False, de_halted := False \<rparr>"
    have "handle_ctrl_message (\<lambda>_. 0) 9 (?msg OPENLI_EXPORT_MEDIATOR 51) w2 = Some (1, dest_update 0 (\<lambda>_. ?d') w2)"
      using d w2 by (simp add: handle_ctrl_message_def export_type_defs add_new_destination_def
          refresh_dest_def location_changed_def str_differs_def c_str_def start_flag_timer_def
          dest_update_def JLG_def Let_def)
    from forwarder_step.ctrl [OF this] that d show thesis by (simp add: dest_update_def)
  qed
  then obtain w4 where s4: "forwarder_step w3 w4" and w4: "fw_topoll w4 = fw_topoll w3" "fw_by_fd w4 = fw_by_fd w3"
    "fw_nextpoll w4 = fw_nextpoll w3" "fw_store w4 0 = None"
  proof -
    have "handle_ctrl_message (\<lambda>_. 0) 9 (?msg OPENLI_EXPORT_DROP_SINGLE_MEDIATOR 51) w3 =
        Some (1, remove_destination 0 w3)"
      using w2 w3 by (simp add: handle_ctrl_message_def export_type_defs JLG_def Let_def)
    from forwarder_step.ctrl [OF this] that w3 show thesis by (auto simp: remove_destination_def Let_def)
  qed
  have "forwarder_step\<^sup>*\<^sup>* (forwarder_init False) w4"
    using s1 s2 s3 s4 by (meson converse_rtranclp_into_rtranclp rtranclp.rtrancl_refl)
  moreover have "forward_ready ok env calls 3 w4 = None" for ok env calls
    using w2 w3 w4 by (simp add: forward_ready_def JLG_def Let_def)
  ultimately show ?thesis using w2 w3 w4 by metis
qed

end
