(* ===== verification/Encoder.thy ===== *)
theory Encoder
  imports Forwarder
begin

text \<open>
  The encoder threads of a collector (\<^verbatim>\<open>src/src/collector/encoder_worker.c\<close>): they take numbered
  jobs from the sequence trackers, encode them and send the results in batches to the forwarding
  thread. The ETSI encodings are built with the \<^verbatim>\<open>libwandder\<close> library from templates; the
  outcome of \<^verbatim>\<open>encode_etsi\<close> is a parameter. The raw IP encoding is modelled in full.
\<close>

definition MAX_ENCODED_RESULT_BATCH :: nat where "MAX_ENCODED_RESULT_BATCH = 50"

text \<open>A raw IP record: the length of the LIID in network order, the LIID, and the packet.
  \<^term>\<open>None\<close>: the job does not carry a packet.\<close>

definition encode_rawip :: "encoding_job \<Rightarrow> encoded_result option" where
  "encode_rawip job =
     (case xr_data (ej_origreq job) of
        Data_rawip raw \<Rightarrow>
          map_option (\<lambda>ip.
            let liidlen = strlen (ej_liid job) mod 2 ^ 16;
                encoded = host16 (htons (word_of_nat liidlen)) @ take liidlen (ej_liid job);
                len = unat (rawip_ipclen raw) + (liidlen + 2)
            in \<lparr> er_header =
                   \<lparr> hdr_magic = htonl OPENLI_PROTO_MAGIC, hdr_bodylen = htons (word_of_nat len),
                     hdr_intercepttype = htons (word_of_nat (msgtype_code OPENLI_PROTO_RAWIP_SYNC)),
                     hdr_internalid = 0 \<rparr>,
                 er_encoded = encoded, er_msglen = len,
                 er_ipcontents = ip, er_ipclen = unat (rawip_ipclen raw) \<rparr>)
            (rawip_ipcontent raw)
      | _ \<Rightarrow> None)"

text \<open>The members that \<^verbatim>\<open>process_job\<close> copies from the job to the result.\<close>

definition result_of :: "encoding_job \<Rightarrow> encoded_result \<Rightarrow> forward_result" where
  "result_of job res =
     encoded_result.extend res
       \<lparr> fr_seqno = ej_seqno job, fr_destid = xr_destid (ej_origreq job), fr_liid = Some (ej_liid job),
         fr_cinstr = ej_cinstr job, fr_origtype = xr_type (ej_origreq job) \<rparr>"

text \<open>\<^term>\<open>etsi\<close>: the outcome of \<^verbatim>\<open>encode_etsi\<close>, \<^term>\<open>None\<close> for a return value of 0 or less. A job that
  cannot be encoded is dropped.\<close>

definition encode_job :: "(encoding_job \<Rightarrow> encoded_result option) \<Rightarrow> encoding_job \<Rightarrow> forward_result option" where
  "encode_job etsi job =
     (if xr_type (ej_origreq job) = OPENLI_EXPORT_RAW_SYNC
      then map_option (result_of job) (encode_rawip job)
      else map_option (result_of job) (etsi job))"

text \<open>The loop of \<^verbatim>\<open>process_job\<close> on the jobs that are waiting: the batch and the jobs left.\<close>

fun process_job ::
  "(encoding_job \<Rightarrow> encoded_result option) \<Rightarrow> nat \<Rightarrow> encoding_job list \<Rightarrow>
   forward_result list \<times> encoding_job list" where
  "process_job etsi batch [] = ([], [])"
| "process_job etsi batch (job # jobs) =
     (if batch < MAX_ENCODED_RESULT_BATCH
      then (case encode_job etsi job of
              None \<Rightarrow> process_job etsi batch jobs
            | Some r \<Rightarrow> (case process_job etsi (batch + 1) jobs of (rs, rest) \<Rightarrow> (r # rs, rest)))
      else ([], job # jobs))"

lemma process_job_results:
  "process_job etsi batch jobs = (rs, rest) \<Longrightarrow>
   \<exists>donejobs. jobs = donejobs @ rest \<and> rs = List.map_filter (encode_job etsi) donejobs \<and>
     batch + length rs \<le> max batch MAX_ENCODED_RESULT_BATCH"
proof (induction etsi batch jobs arbitrary: rs rule: process_job.induct)
  case (1 etsi batch)
  then show ?case by (simp add: map_filter_simps)
next
  case (2 etsi batch job jobs)
  show ?case
  proof (cases "batch < MAX_ENCODED_RESULT_BATCH")
    case False
    with 2(3) show ?thesis by (intro exI [of _ "[]"]) (auto simp: map_filter_simps)
  next
    case True
    show ?thesis
    proof (cases "encode_job etsi job")
      case None
      with 2(1) [OF True None] 2(3) True obtain d where
        "jobs = d @ rest" "rs = List.map_filter (encode_job etsi) d"
        "batch + length rs \<le> max batch MAX_ENCODED_RESULT_BATCH" by auto
      then show ?thesis using None by (intro exI [of _ "job # d"]) (simp add: map_filter_simps)
    next
      case (Some r)
      obtain rs' where rs': "process_job etsi (batch + 1) jobs = (rs', rest)" "rs = r # rs'"
        using 2(3) True Some by (auto split: prod.splits)
      with 2(2) [OF True Some] obtain d where
        "jobs = d @ rest" "rs' = List.map_filter (encode_job etsi) d"
        "batch + 1 + length rs' \<le> max (batch + 1) MAX_ENCODED_RESULT_BATCH" by blast
      then show ?thesis
        using Some True rs' by (intro exI [of _ "job # d"]) (simp add: map_filter_simps)
    qed
  qed
qed

lemma result_of_simps [simp]:
  "fr_seqno (result_of job res) = ej_seqno job" "fr_destid (result_of job res) = xr_destid (ej_origreq job)"
  "fr_liid (result_of job res) = Some (ej_liid job)" "fr_cinstr (result_of job res) = ej_cinstr job"
  "fr_origtype (result_of job res) = xr_type (ej_origreq job)"
  "encoded_result.truncate (result_of job res) = res"
  by (simp_all add: result_of_def encoded_result.defs)

lemma rawip_bytes:
  assumes "encode_rawip job = Some res" "xr_data (ej_origreq job) = Data_rawip raw"
    "rawip_ipcontent raw = Some ip" "unat (rawip_ipclen raw) = length ip"
    "no_nul (ej_liid job)" "length (ej_liid job) + 2 + length ip < 65536"
  shows "er_ok res \<and> er_bytes res =
    msg_bytes (msgtype_code OPENLI_PROTO_RAWIP_SYNC) 0
      (be_bytes 2 (length (ej_liid job)) @ ej_liid job @ ip)"
proof -
  let ?body = "be_bytes 2 (length (ej_liid job)) @ ej_liid job @ ip"
  have len: "length (ej_liid job) < 65536" using assms(6) by simp
  have liidlen: "strlen (ej_liid job) mod 2 ^ 16 = length (ej_liid job)" using len assms(5) by simp
  have sz: "length ?body = length ip + (length (ej_liid job) + 2)" by simp
  have h: "host16 (htons (word_of_nat (length (ej_liid job)))) = be_bytes 2 (length (ej_liid job))"
    using len by (simp add: swap_macros host16_byteswap16 unat_of_nat)
  have zero: "byteswap64 0 = 0" by (simp add: byteswap64_def byteswap32_def)
  have res: "er_header res = populate_header (msgtype_code OPENLI_PROTO_RAWIP_SYNC) (length ?body) 0"
    "er_encoded res = be_bytes 2 (length (ej_liid job)) @ ej_liid job"
    "er_msglen res = length ?body" "er_ipcontents res = ip" "er_ipclen res = length ip"
    using assms(1-4) h liidlen unfolding sz
    by (auto simp: encode_rawip_def Let_def populate_header_def swap_macros zero)
  have "ii_header_bytes (er_header res) = msg_header (msgtype_code OPENLI_PROTO_RAWIP_SYNC) (length ?body) 0"
    unfolding res(1) by (rule populate_header_bytes) (use assms(6) in simp_all)
  then show ?thesis
    using assms(6) by (simp add: er_ok_def er_bytes_def msg_bytes_def res)
qed

text \<open>C18. A raw IP record is a protocol message whose body gives back the LIID of its intercept and
  the packet, when the whole fits the 16-bit length of the header.\<close>

theorem rawip_record:
  assumes "encode_rawip job = Some res" "xr_data (ej_origreq job) = Data_rawip raw"
    "rawip_ipcontent raw = Some ip" "unat (rawip_ipclen raw) = length ip"
    "no_nul (ej_liid job)" "length (ej_liid job) + 2 + length ip < 65536"
    "int (length (ej_liid job)) < maxspace"
  shows "\<exists>body. er_bytes res = msg_bytes (msgtype_code OPENLI_PROTO_RAWIP_SYNC) 0 body \<and>
    (case extract_liid_from_exported_msg (mem_of body) 0 (length body) maxspace of
       (liid, off) \<Rightarrow> liid = ej_liid job \<and> drop off body = ip)"
proof (intro exI conjI)
  let ?body = "be_bytes 2 (length (ej_liid job)) @ ej_liid job @ ip"
  show "er_bytes res = msg_bytes (msgtype_code OPENLI_PROTO_RAWIP_SYNC) 0 ?body"
    using rawip_bytes [OF assms(1-6)] by simp
  have "extract_liid_from_exported_msg (mem_of ?body) 0 (length ?body) maxspace =
      (ej_liid job, length (ej_liid job) + 2)"
    using assms(6) by (intro extract_liid_at [OF mem_at_mem_of assms(7)]) simp_all
  then show "case extract_liid_from_exported_msg (mem_of ?body) 0 (length ?body) maxspace of
      (liid, off) \<Rightarrow> liid = ej_liid job \<and> drop off ?body = ip"
    by simp
qed

definition ex_raw_job :: encoding_job where
  "ex_raw_job = \<lparr> ej_preencoded = \<lparr> eid_liid = [65], eid_authcc = None, eid_delivcc = None,
       eid_operatorid = None, eid_networkelemid = None, eid_intpointid = None \<rparr>,
     ej_seqno = 0, ej_cin = 7, ej_cinstr = [65, 45, 55], ej_liid = [65],
     ej_origreq = \<lparr> xr_type = OPENLI_EXPORT_RAW_SYNC, xr_destid = 1, xr_ts = (1, 0),
       xr_data = Data_rawip \<lparr> rawip_liid = Some [65], rawip_ipcontent = Some [69, 0],
         rawip_ipclen = 2, rawip_seqno = 0, rawip_cin = 7 \<rparr> \<rparr>,
     ej_cept_version = 0, ej_encryptmethod = 0, ej_encryptkey = None \<rparr>"

theorem rawip_record_witness:
  "\<exists>res body. encode_rawip ex_raw_job = Some res \<and>
     er_bytes res = msg_bytes (msgtype_code OPENLI_PROTO_RAWIP_SYNC) 0 body \<and>
     fst (extract_liid_from_exported_msg (mem_of body) 0 (length body) 256) = [65]"
proof -
  obtain res where res: "encode_rawip ex_raw_job = Some res"
    by (simp add: encode_rawip_def ex_raw_job_def Let_def)
  have "xr_data (ej_origreq ex_raw_job) = Data_rawip \<lparr> rawip_liid = Some [65],
      rawip_ipcontent = Some [69, 0], rawip_ipclen = 2, rawip_seqno = 0, rawip_cin = 7 \<rparr>"
    "ej_liid ex_raw_job = [65]" by (simp_all add: ex_raw_job_def)
  with rawip_record [OF res, of _ "[69, 0]" 256] res show ?thesis
    by (fastforce simp: no_nul_def split: prod.splits)
qed

end
