(* ===== verification/Pipeline.thy ===== *)
theory Pipeline
  imports Encoder Net_Stream "HOL-Library.Multiset"
begin

text \<open>
  How the threads of a collector work together: the sequence tracker numbers the published records,
  the encoders encode them and may overtake each other, the forwarding thread restores the order,
  and the export buffer hands the bytes to the connection, at the other end of which the mediator
  reads messages. The lemmas here connect the components; the properties are in the root theory.
\<close>

text \<open>Two lists numbered from 0, one with elements of the other, are equal when the number after the
  last is missing.\<close>

lemma numbered_unique:
  assumes G: "map f G = map (of_nat :: nat \<Rightarrow> u32) [0..<length G]" "length G < 2 ^ 32"
    and F: "map f F = map of_nat [0..<length F]" "set F \<subseteq> set G"
    and missing: "\<forall>x \<in> set G. f x \<noteq> of_nat (length F)"
  shows "F = G"
proof -
  have fG: "f (G ! i) = of_nat i" if "i < length G" for i
    using arg_cong [OF G(1), of "\<lambda>xs. xs ! i"] that by simp
  have fF: "f (F ! i) = of_nat i" if "i < length F" for i
    using arg_cong [OF F(1), of "\<lambda>xs. xs ! i"] that by simp
  have same: "F ! i = G ! i \<and> i < length G" if "i < length F" "i < 2 ^ 32" for i
  proof -
    have "F ! i \<in> set G" using F(2) that(1) by auto
    then obtain j where j: "j < length G" "F ! i = G ! j" by (auto simp: in_set_conv_nth)
    then have "(of_nat i :: u32) = of_nat j" using fF [OF that(1)] fG [OF j(1)] by simp
    then have "i = j" using of_nat_u32_inj that(2) j(1) G(2) by simp
    with j show ?thesis by simp
  qed
  have ge: "length G \<le> length F"
  proof (rule ccontr)
    assume "\<not> length G \<le> length F"
    then have "length F < length G" by simp
    then show False using fG [of "length F"] missing by auto
  qed
  moreover have "length F \<le> length G"
  proof (rule ccontr)
    assume "\<not> length F \<le> length G"
    then show False using same [of "length G"] G(2) by simp
  qed
  ultimately have "length F = length G" by simp
  then show ?thesis using same G(2) by (intro nth_equalityI) auto
qed

text \<open>The record that an encoder makes of a job.\<close>

definition record_of :: "(encoding_job \<Rightarrow> encoded_result option) \<Rightarrow> encoding_job \<Rightarrow> forward_result" where
  "record_of etsi job = the (encode_job etsi job)"

lemma record_of_simps:
  assumes "encode_job etsi job \<noteq> None"
  shows "fr_seqno (record_of etsi job) = ej_seqno job"
    "fr_destid (record_of etsi job) = xr_destid (ej_origreq job)"
    "fr_liid (record_of etsi job) = Some (ej_liid job)"
    "of_kind cc key (record_of etsi job) \<longleftrightarrow>
       is_cc_type (xr_type (ej_origreq job)) = cc \<and> c_str (ej_cinstr job) = key"
  using assms by (auto simp: record_of_def encode_job_def of_kind_def split: if_splits)

text \<open>The reorderer of a record is the one of its LIID, CIN and kind.\<close>

lemma record_kind:
  assumes "job_named job" "encode_job etsi job \<noteq> None"
    "length (c_str (ej_liid job)) \<le> 1000" "no_nul key" "length key \<le> 1000"
  shows "of_kind cc (cin_string key cin) (record_of etsi job) \<longleftrightarrow> job_for key cin cc job"
proof -
  let ?cin = "word_of_int (ej_cin job) :: u32"
  have name: "c_str (ej_cinstr job) = cin_string (ej_liid job) ?cin" and cin: "ej_cin job = uint ?cin"
    using assms(1,3) by (simp_all add: job_named_def strdup_def cin_string_no_nul)
  have "cin_string (ej_liid job) ?cin = cin_string key cin \<longleftrightarrow> c_str (ej_liid job) = key \<and> ?cin = cin"
    using cin_string_inj [of "ej_liid job" ?cin key cin] cin_string_c_str [of "ej_liid job" cin]
      assms(3-5) by auto
  moreover have "?cin = cin \<longleftrightarrow> ej_cin job = uint cin"
    using cin by (metis word_of_int_uint)
  ultimately show ?thesis
    unfolding record_of_simps(4) [OF assms(2)] name job_for_def by auto
qed

lemma counter_empty: "sq_intercepts st = [] \<Longrightarrow> counter key cin cc st = 0"
  by (simp add: counter_def)

lemma tracker_inv_empty: "sq_intercepts st = [] \<Longrightarrow> tracker_inv st"
  by (simp add: tracker_inv_def)

lemma pipeline_outs:
  assumes main: "seqtracker_main ms n st = Some (jobs, n', st')" "sq_intercepts st = []"
    and sends: "\<forall>(env, msg) \<in> set ms. (\<forall>j. 0 \<le> te_send env j) \<and> \<not> ends key msg"
    and jobs: "\<forall>j \<in> set jobs. encode_job etsi j \<noteq> None \<and> length (c_str (ej_liid j)) \<le> 1000"
      "length jobs < 2 ^ 32"
    and key: "no_nul key" "length key \<le> 1000"
    and rs: "mset rs = mset (map (record_of etsi) jobs)"
    and outs: "set outs \<subseteq> set rs"
      "map fr_seqno (filter (of_kind cc (cin_string key cin)) outs) =
         map of_nat [0..<length (filter (of_kind cc (cin_string key cin)) outs)]"
      "\<forall>r \<in> set rs. of_kind cc (cin_string key cin) r \<longrightarrow>
         fr_seqno r \<noteq> of_nat (length (filter (of_kind cc (cin_string key cin)) outs))"
  shows "filter (of_kind cc (cin_string key cin)) outs =
    map (record_of etsi) (filter (job_for key cin cc) jobs)"
proof (rule numbered_unique [where f = fr_seqno])
  let ?K = "of_kind cc (cin_string key cin)"
  let ?G = "map (record_of etsi) (filter (job_for key cin cc) jobs)"
  have named: "\<forall>j \<in> set jobs. job_named j"
    using seqtracker_main_named [OF main(1) tracker_inv_empty [OF main(2)]] .
  have kind: "?K (record_of etsi j) \<longleftrightarrow> job_for key cin cc j" if "j \<in> set jobs" for j
    using record_kind named jobs(1) key that by blast
  have setrs: "set rs = record_of etsi ` set jobs"
    using arg_cong [OF rs, of set_mset] by simp
  then have setG: "{r \<in> set rs. ?K r} = set ?G" using kind by auto
  have seqno: "map fr_seqno ?G = map ej_seqno (filter (job_for key cin cc) jobs)"
    using jobs(1) by (auto simp: record_of_simps)
  show "map fr_seqno ?G = map of_nat [0..<length ?G]"
    unfolding seqno using seqtracker_main_counters [OF main(1) sends, of cin cc] main(2)
    by (simp add: counter_empty)
  show "length ?G < 2 ^ 32"
    using le_less_trans [OF length_filter_le jobs(2), of "job_for key cin cc"] by simp
  show "set (filter ?K outs) \<subseteq> set ?G" using outs(1) setG by auto
  show "\<forall>x \<in> set ?G. fr_seqno x \<noteq> of_nat (length (filter ?K outs))"
    using outs(3) setG by blast
qed (rule outs(2))

text \<open>What the encoders deliver satisfies the conditions of the forwarding thread.\<close>

lemma pipeline_records:
  assumes "mset rs = mset (map (record_of etsi) jobs)"
    "\<forall>j \<in> set jobs. encode_job etsi j \<noteq> None \<and> fr_ok (record_of etsi j) \<and> xr_destid (ej_origreq j) = mid"
  shows "\<forall>r \<in> set rs. fr_destid r = mid \<and> fr_liid r \<noteq> None \<and> fr_ok r" "length rs = length jobs"
proof -
  have "set rs = record_of etsi ` set jobs"
    using arg_cong [OF assms(1), of set_mset] by simp
  then show "\<forall>r \<in> set rs. fr_destid r = mid \<and> fr_liid r \<noteq> None \<and> fr_ok r"
    using assms(2) by (auto simp: record_of_simps)
  show "length rs = length jobs" using arg_cong [OF assms(1), of size] by simp
qed

text \<open>The messages of the records, as the mediator sees them.\<close>

lemma export_to_receiver:
  assumes "eb_inv b" "eb_unsent b = []" "\<forall>op \<in> set ops. export_op_ok op"
    "export_run ok ops b = Some (out, b')" "eb_unsent b' = []"
    "export_input ops = concat (map message_bytes ms)" "list_all message_ok ms"
    "recv_alloc_ok ok'" "concat cs = out" "\<forall>c \<in> set cs. c \<noteq> [] \<and> length c \<le> NETBUF_ALLOC_SIZE"
    "length ms + length cs \<le> n"
  shows "\<exists>nb. receive_calls ok' n cs (create_net_buffer m NETBUF_RECV fd ssl) = Some (ms, [], nb) \<and>
    nb_content nb = []"
proof -
  have "out = concat (map message_bytes ms)"
    using export_run_stream [OF assms(1,3,4)] assms(2,5,6) by simp
  then show ?thesis
    using receive_calls_stream [OF create_recv_inv assms(8,7) _ assms(10,11), of m fd ssl] assms(9) by auto
qed

end
