(* ===== verification/IP_Reassembly.thy ===== *)
theory IP_Reassembly
  imports Util Uthash
begin

text \<open>
  Reassembly of IP fragments, \<^verbatim>\<open>src/src/collector/reassembler.c\<close>: the table of datagrams that are being
  put together, the fragments of each, and the reassembled content. The packet threads use it to
  find the ports of a fragment, the SIP parser to obtain the whole message.

  A \<^verbatim>\<open>uint16_t\<close> is a natural number and wraps explicitly. The functions of libtrace are represented
  by their results, which a packet record contains.
\<close>

subsection \<open>State\<close>

record ip_reass_fragment =
  fg_fragoff :: nat
  fg_length :: nat
  fg_content :: bytes

record ip_streamid =
  si_srcip :: bytes
  si_destip :: bytes
  si_ipid :: nat
  si_ipfamily :: int

record ip_reass_stream =
  is_streamid :: ip_streamid
  is_lastts :: u32
  is_nextfrag :: nat
  is_sorted :: bool
  is_endfrag :: nat
  is_subproto :: u8
  is_fragments :: "ip_reass_fragment list"

record ipfrag_reassembler =
  ir_knownstreams :: "ip_reass_stream list"
  ir_nextpurge :: u32

text \<open>What libtrace reports of a packet: the ethertype and the bytes from the network header on, as
  far as they were captured; the IPv4 header; the fragment offset in bytes and whether more
  fragments follow; the time of capture in seconds.\<close>

record ip_packet =
  pk_layer3 :: "(nat \<times> bytes) option"
  pk_ip :: "bytes option"
  pk_fragoff :: nat
  pk_moreflag :: bool
  pk_tv_sec :: u32

definition TRACE_ETHERTYPE_IPV6 :: nat where
  "TRACE_ETHERTYPE_IPV6 = 0x86DD"

subsection \<open>Operations\<close>

definition ipfrag_sort :: "ip_reass_fragment \<Rightarrow> ip_reass_fragment \<Rightarrow> int" where
  "ipfrag_sort a b = int (fg_fragoff a) - int (fg_fragoff b)"

definition create_new_ipfrag_reassembler :: ipfrag_reassembler where
  "create_new_ipfrag_reassembler = \<lparr> ir_knownstreams = [], ir_nextpurge = 0 \<rparr>"

definition remove_ipfrag_reassemble_stream ::
  "ip_streamid \<Rightarrow> ipfrag_reassembler \<Rightarrow> ipfrag_reassembler" where
  "remove_ipfrag_reassemble_stream sid reass =
     reass \<lparr> ir_knownstreams := hash_delete is_streamid sid (ir_knownstreams reass) \<rparr>"

definition purge_inactive_ip_streams :: "u32 \<Rightarrow> ipfrag_reassembler \<Rightarrow> ipfrag_reassembler" where
  "purge_inactive_ip_streams ts reass =
     (if ir_nextpurge reass = 0 then reass \<lparr> ir_nextpurge := ts + 300 \<rparr>
      else if ts < ir_nextpurge reass then reass
      else reass \<lparr> ir_knownstreams :=
             filter (\<lambda>s. \<not> is_lastts s < ir_nextpurge reass - 300) (ir_knownstreams reass),
             ir_nextpurge := ts + 300 \<rparr>)"

definition create_new_ipfrag_reassemble_stream :: "ip_streamid \<Rightarrow> u8 \<Rightarrow> ip_reass_stream" where
  "create_new_ipfrag_reassemble_stream ipid proto =
     \<lparr> is_streamid = ipid, is_lastts = 0, is_nextfrag = 0, is_sorted = False, is_endfrag = 0,
       is_subproto = proto, is_fragments = [] \<rparr>"

text \<open>The members \<^verbatim>\<open>ip_id\<close>, \<^verbatim>\<open>ip_len\<close>, \<^verbatim>\<open>ip_hl\<close> and \<^verbatim>\<open>ip_p\<close> of an IPv4 header, in host order.\<close>

definition ip_id :: "bytes \<Rightarrow> nat" where
  "ip_id hdr = be_nat (take 2 (drop 4 hdr))"

definition ip_len :: "bytes \<Rightarrow> nat" where
  "ip_len hdr = be_nat (take 2 (drop 2 hdr))"

definition ip_hl :: "bytes \<Rightarrow> nat" where
  "ip_hl hdr = unat (hd hdr) mod 16"

definition ip_p :: "bytes \<Rightarrow> u8" where
  "ip_p hdr = hdr ! 9"

text \<open>The result is the stream that is returned, by its identifier, and the table. A stream that is
  returned is in the table.\<close>

definition get_ipfrag_reassemble_stream ::
  "ip_packet \<Rightarrow> ipfrag_reassembler \<Rightarrow> ip_streamid option \<times> ipfrag_reassembler" where
  "get_ipfrag_reassemble_stream pkt reass =
     (case extract_ip_addresses (pk_layer3 pkt) (Some (replicate 16 0)) (Some (replicate 16 0)) 0 of
        (ret, src, dest, family) \<Rightarrow>
          if ret \<noteq> 0 then (None, reass)
          else (case pk_ip pkt of
            None \<Rightarrow> (None, reass)
          | Some iphdr \<Rightarrow>
              let sid = \<lparr> si_srcip = the src, si_destip = the dest, si_ipid = ip_id iphdr,
                          si_ipfamily = family \<rparr>;
                  ts = pk_tv_sec pkt
              in (case hash_find is_streamid sid (ir_knownstreams reass) of
                    Some existing \<Rightarrow>
                      (Some sid, purge_inactive_ip_streams ts
                         (reass \<lparr> ir_knownstreams := hash_update is_streamid sid
                            (\<lambda>s. s \<lparr> is_lastts := ts \<rparr>) (ir_knownstreams reass) \<rparr>))
                  | None \<Rightarrow>
                      let reass1 = purge_inactive_ip_streams ts reass in
                      (Some sid, reass1 \<lparr> ir_knownstreams := hash_add
                         ((create_new_ipfrag_reassemble_stream sid (ip_p iphdr)) \<lparr> is_lastts := ts \<rparr>)
                         (ir_knownstreams reass1) \<rparr>))))"

text \<open>The payload length of a fragment, and the entry for it.\<close>

definition frag_iprem :: "bytes \<Rightarrow> nat" where
  "frag_iprem hdr =
     (if ip_len hdr = 0 then u16_of (int (length hdr) - 4 * int (ip_hl hdr))
      else u16_of (int (ip_len hdr) - 4 * int (ip_hl hdr)))"

text \<open>\<^term>\<open>None\<close>: \<^verbatim>\<open>memcpy\<close> reads past the captured bytes.\<close>

definition update_ipfrag_reassemble_stream ::
  "(nat \<times> bytes) option \<Rightarrow> nat \<Rightarrow> bool \<Rightarrow> ip_reass_stream \<Rightarrow> (int \<times> ip_reass_stream) option" where
  "update_ipfrag_reassemble_stream l3 fragoff moreflag stream =
     (case l3 of
        None \<Rightarrow> Some (-1, stream)
      | Some (ethertype, hdr) \<Rightarrow>
          if length hdr < 20 then Some (-1, stream)
          else if ethertype = TRACE_ETHERTYPE_IPV6 then Some (1, stream)
          else if \<not> moreflag \<and> fragoff = 0 then Some (1, stream)
          else if length hdr \<le> 4 * ip_hl hdr then Some (-1, stream)
          else let iprem = frag_iprem hdr;
                   added = (\<lambda>frag frags. Some (0, stream \<lparr> is_fragments := frags,
                     is_endfrag := (if moreflag then is_endfrag stream
                                    else u16_of (int (fg_fragoff frag) + int (fg_length frag))),
                     is_sorted := False \<rparr>))
               in (case hash_find fg_fragoff fragoff (is_fragments stream) of
                     Some frag \<Rightarrow> added frag (is_fragments stream)
                   | None \<Rightarrow>
                       if length hdr < 4 * ip_hl hdr + iprem then None
                       else let frag = \<lparr> fg_fragoff = fragoff, fg_length = iprem,
                                  fg_content = take iprem (drop (4 * ip_hl hdr) hdr) \<rparr>
                            in added frag (hash_add frag (is_fragments stream))))"

text \<open>\<^term>\<open>srt\<close> is \<^verbatim>\<open>HASH_SORT\<close> with the comparison \<^const>\<open>ipfrag_sort\<close>.\<close>

definition sort_fragments ::
  "(ip_reass_fragment list \<Rightarrow> ip_reass_fragment list) \<Rightarrow> ip_reass_stream \<Rightarrow> ip_reass_stream" where
  "sort_fragments srt stream =
     (if is_sorted stream then stream
      else stream \<lparr> is_fragments := srt (is_fragments stream), is_sorted := True \<rparr>)"

text \<open>\<^term>\<open>None\<close>: the table of fragments is empty and a null pointer is dereferenced. The result is the
  return value, the two ports and the stream.\<close>

definition get_ipfrag_ports ::
  "(ip_reass_fragment list \<Rightarrow> ip_reass_fragment list) \<Rightarrow> ip_reass_stream \<Rightarrow>
   (int \<times> nat \<times> nat \<times> ip_reass_stream) option" where
  "get_ipfrag_ports srt stream =
     (let stream1 = sort_fragments srt stream in
      case is_fragments stream1 of
        [] \<Rightarrow> None
      | first # _ \<Rightarrow>
          if fg_fragoff first > 0 then Some (0, 0, 0, stream1)
          else if fg_length first < 4 then Some (0, 0, 0, stream1)
          else Some (1, be_nat (take 2 (fg_content first)),
                 be_nat (take 2 (drop 2 (fg_content first))), stream1))"

text \<open>The loop over the sorted fragments: \<^term>\<open>None\<close> when the assertion fails, otherwise the value of
  \<^verbatim>\<open>expfrag\<close> after the last fragment or nothing at a gap.\<close>

fun reassembled_loop :: "ip_reass_fragment list \<Rightarrow> nat \<Rightarrow> nat option option" where
  "reassembled_loop [] expfrag = Some (Some expfrag)"
| "reassembled_loop (frag # frags) expfrag =
     (if fg_fragoff frag < expfrag then None
      else if fg_fragoff frag \<noteq> expfrag then Some None
      else reassembled_loop frags (u16_of (int expfrag + int (fg_length frag))))"

definition is_ip_reassembled ::
  "(ip_reass_fragment list \<Rightarrow> ip_reass_fragment list) \<Rightarrow> ip_reass_stream \<Rightarrow>
   (int \<times> ip_reass_stream) option" where
  "is_ip_reassembled srt stream =
     (let stream1 = sort_fragments srt stream in
      map_option (\<lambda>r. (case r of
          None \<Rightarrow> 0
        | Some expfrag \<Rightarrow>
            if expfrag \<noteq> is_endfrag stream1 \<or> is_endfrag stream1 = 0 then 0 else 1, stream1))
        (reassembled_loop (is_fragments stream1) 0))"

text \<open>The block that \<^verbatim>\<open>*content\<close> points to: its size and its bytes. The loop returns the outcome (1: all
  fragments copied, 0: a gap, -1: no memory), the block, \<^verbatim>\<open>*len\<close> and \<^verbatim>\<open>expfrag\<close>; \<^term>\<open>None\<close> when an
  assertion fails or the block is overrun. \<^term>\<open>junk\<close>: the bytes of a new block.\<close>

type_synonym block = "(nat \<times> mem) option"

definition block_mem :: "mem \<Rightarrow> block \<Rightarrow> mem" where
  "block_mem junk content = (case content of None \<Rightarrow> junk | Some (_, m) \<Rightarrow> m)"

fun next_ip_loop ::
  "(nat \<Rightarrow> bool) \<Rightarrow> mem \<Rightarrow> ip_reass_fragment list \<Rightarrow> nat \<Rightarrow> nat \<Rightarrow> block \<Rightarrow> nat \<Rightarrow>
   (int \<times> block \<times> nat \<times> nat) option" where
  "next_ip_loop ok junk [] expfrag contalloced content len = Some (1, content, len, expfrag)"
| "next_ip_loop ok junk (frag # frags) expfrag contalloced content len =
     (if fg_fragoff frag < expfrag then None
      else if fg_fragoff frag \<noteq> expfrag then Some (0, content, 0, expfrag)
      else
        let size = expfrag + fg_length frag * 2;
            grow = (content = None \<or> contalloced < expfrag + fg_length frag)
        in if grow \<and> \<not> ok size then Some (-1, None, len, expfrag)
           else let content1 = (if grow then Some (size, block_mem junk content) else content);
                    contalloced1 = (if grow then u16_of (int size) else contalloced)
                in case content1 of
                     None \<Rightarrow> None
                   | Some (n, m) \<Rightarrow>
                       if n < expfrag + fg_length frag then None
                       else next_ip_loop ok junk frags (u16_of (int expfrag + int (fg_length frag)))
                              contalloced1 (Some (n, mem_write m expfrag (fg_content frag)))
                              (u16_of (int len + int (fg_length frag))))"

definition get_next_ip_reassembled ::
  "(ip_reass_fragment list \<Rightarrow> ip_reass_fragment list) \<Rightarrow> (nat \<Rightarrow> bool) \<Rightarrow> mem \<Rightarrow> block \<Rightarrow>
   ip_reass_stream \<Rightarrow> (int \<times> block \<times> nat \<times> u8 \<times> ip_reass_stream) option" where
  "get_next_ip_reassembled srt ok junk content stream =
     (let stream1 = sort_fragments srt stream in
      map_option (\<lambda>(r, content1, len, expfrag).
          if r < 0 then (-1, content1, len, 0, stream1)
          else if r = 0 then (0, content1, 0, 0, stream1)
          else if expfrag \<noteq> is_endfrag stream1 \<or> is_endfrag stream1 = 0
          then (0, content1, 0, 0, stream1)
          else (1, content1, len, is_subproto stream1, stream1))
        (next_ip_loop ok junk (is_fragments stream1) 0 0 content 0))"

text \<open>What the SIP parser does with each fragment: add it to its stream, then ask for the datagram. The
  result is the datagram if it is complete, and the stream.\<close>

definition fragment_step ::
  "(ip_reass_fragment list \<Rightarrow> ip_reass_fragment list) \<Rightarrow> (nat \<Rightarrow> bool) \<Rightarrow> mem \<Rightarrow>
   (nat \<times> bytes) option \<Rightarrow> nat \<Rightarrow> bool \<Rightarrow> ip_reass_stream \<Rightarrow> (bytes option \<times> ip_reass_stream) option" where
  "fragment_step srt ok junk l3 fragoff moreflag stream =
     (case update_ipfrag_reassemble_stream l3 fragoff moreflag stream of
        Some (ret, stream1) \<Rightarrow>
          if ret \<noteq> 0 then None
          else map_option (\<lambda>(r, content, len, proto, stream2).
                 (if r = 1 then Some (mem_read (block_mem junk content) 0 len) else None, stream2))
                 (get_next_ip_reassembled srt ok junk None stream1)
      | None \<Rightarrow> None)"

subsection \<open>Fragments of a datagram\<close>

fun fragments_at :: "nat \<Rightarrow> bytes list \<Rightarrow> ip_reass_fragment list" where
  "fragments_at off [] = []"
| "fragments_at off (x # xs) =
     \<lparr> fg_fragoff = off, fg_length = length x, fg_content = x \<rparr> # fragments_at (off + length x) xs"

lemma length_fragments_at [simp]: "length (fragments_at off xs) = length xs"
  by (induction xs arbitrary: off) auto

lemma fragments_at_nth:
  "i < length xs \<Longrightarrow> fragments_at off xs ! i =
     \<lparr> fg_fragoff = off + length (concat (take i xs)), fg_length = length (xs ! i), fg_content = xs ! i \<rparr>"
proof (induction xs arbitrary: off i)
  case (Cons x xs)
  then show ?case by (cases i) auto
qed simp

lemma fragments_at_ge: "f \<in> set (fragments_at off xs) \<Longrightarrow> off \<le> fg_fragoff f"
  by (induction xs arbitrary: off) force+

lemma fragments_at_gt:
  "f \<in> set (fragments_at (off + length x) xs) \<Longrightarrow> x \<noteq> [] \<Longrightarrow> off < fg_fragoff f"
  using fragments_at_ge [of f "off + length x" xs] by (cases x) auto

lemma sorted_fragments_at:
  "\<forall>x \<in> set xs. x \<noteq> [] \<Longrightarrow> sorted_wrt (<) (map fg_fragoff (fragments_at off xs))"
  by (induction xs arbitrary: off) (auto simp: fragments_at_gt)

text \<open>The loop on the fragments that have arrived: it copies them all when none is missing, and reports
  an incomplete datagram otherwise. Nothing is written past the block.\<close>

definition block_ok :: "nat \<Rightarrow> nat \<Rightarrow> block \<Rightarrow> bool" where
  "block_ok off contalloced content \<longleftrightarrow>
     (case content of None \<Rightarrow> contalloced = 0 \<and> off = 0 | Some (n, _) \<Rightarrow> off \<le> n \<and> contalloced \<le> n)"

lemma mem_read_append_write:
  assumes "mem_read m 0 n = pre" "length x = k"
  shows "mem_read (mem_write m n x) 0 (n + k) = pre @ x"
  using assms by (simp add: mem_read_append mem_read_write_before) (metis mem_read_write)

lemma next_ip_loop_filter:
  assumes "\<forall>x \<in> set xs. x \<noteq> []" "off + length (concat xs) < 65536" "\<forall>n. ok n"
    "block_ok off ca content" "mem_read (block_mem junk content) 0 off = pre"
  shows "\<exists>r c l e. next_ip_loop ok junk (filter P (fragments_at off xs)) off ca content off = Some (r, c, l, e) \<and>
    (if \<forall>f \<in> set (fragments_at off xs). P f
     then r = 1 \<and> l = off + length (concat xs) \<and> e = l \<and> mem_read (block_mem junk c) 0 l = pre @ concat xs
     else r = 0 \<or> r = 1 \<and> e < off + length (concat xs))"
  using assms
proof (induction xs arbitrary: off ca content pre)
  case Nil
  then show ?case by simp
next
  case (Cons x xs)
  let ?f = "\<lparr> fg_fragoff = off, fg_length = length x, fg_content = x \<rparr>"
  let ?rest = "filter P (fragments_at (off + length x) xs)"
  have x: "x \<noteq> []" "\<forall>x \<in> set xs. x \<noteq> []" "off + length x + length (concat xs) < 65536"
    using Cons.prems(1,2) by auto
  show ?case
  proof (cases "P ?f")
    case True
    obtain n m ca' where
      step: "next_ip_loop ok junk (?f # ?rest) off ca content off =
        next_ip_loop ok junk ?rest (off + length x) ca' (Some (n, mem_write m off x)) (off + length x)"
      and m: "m = block_mem junk content" and n: "off + length x \<le> n" "ca' \<le> n"
    proof (cases "content = None \<or> ca < off + length x")
      case True
      with Cons.prems(3) x(3) show ?thesis
        by (intro that [of "u16_of (int (off + length x * 2))" "off + length x * 2" "block_mem junk content"])
          (auto simp: Let_def u16_of_nat u16_of_le simp flip: of_nat_add)
    next
      case False
      then obtain n m where c: "content = Some (n, m)" "ca \<le> n" "off + length x \<le> ca"
        using Cons.prems(4) by (auto simp: block_ok_def)
      with x(3) show ?thesis
        by (intro that [of ca n m]) (auto simp: Let_def block_mem_def u16_of_nat simp flip: of_nat_add)
    qed
    have pre: "mem_read (block_mem junk (Some (n, mem_write m off x))) 0 (off + length x) = pre @ x"
      using mem_read_append_write [OF Cons.prems(5) refl, of x] m by (simp add: block_mem_def)
    have bok: "block_ok (off + length x) ca' (Some (n, mem_write m off x))"
      using n by (simp add: block_ok_def)
    have "filter P (fragments_at off (x # xs)) = ?f # ?rest" using True by simp
    then have step: "next_ip_loop ok junk (filter P (fragments_at off (x # xs))) off ca content off =
        next_ip_loop ok junk ?rest (off + length x) ca' (Some (n, mem_write m off x)) (off + length x)"
      using step by metis
    have eqs: "(\<forall>f \<in> set (fragments_at off (x # xs)). P f) \<longleftrightarrow> (\<forall>f \<in> set (fragments_at (off + length x) xs). P f)"
      "off + length (concat (x # xs)) = off + length x + length (concat xs)"
      "pre @ concat (x # xs) = (pre @ x) @ concat xs"
      using True by simp_all
    show ?thesis
      unfolding step eqs by (rule Cons.IH [OF x(2,3) Cons.prems(3) bok pre])
  next
    case False
    have "\<exists>r c l e. next_ip_loop ok junk ?rest off ca content off = Some (r, c, l, e) \<and>
        (r = 0 \<or> r = 1 \<and> e = off)"
    proof (cases ?rest)
      case (Cons f fs)
      then have "f \<in> set ?rest" by simp
      then have "f \<in> set (fragments_at (off + length x) xs)" by simp
      then have "off < fg_fragoff f" using x(1) by (rule fragments_at_gt)
      with Cons show ?thesis by simp
    qed simp
    moreover have "off < off + length (concat (x # xs))" using x(1) by simp
    ultimately show ?thesis using False by auto
  qed
qed

text \<open>The captured bytes of a fragment whose payload is \<^term>\<open>p\<close>.\<close>

definition captures :: "(nat \<times> bytes) option \<Rightarrow> bytes \<Rightarrow> bool" where
  "captures l3 p \<longleftrightarrow>
     (case l3 of
        None \<Rightarrow> False
      | Some (ethertype, hdr) \<Rightarrow>
          ethertype = TRACE_ETHERTYPE_IP \<and> 20 \<le> length hdr \<and>
          (ip_len hdr = 4 * ip_hl hdr + length p \<or> ip_len hdr = 0 \<and> length hdr = 4 * ip_hl hdr + length p) \<and>
          4 * ip_hl hdr + length p \<le> length hdr \<and> take (length p) (drop (4 * ip_hl hdr) hdr) = p)"

text \<open>The stream after the fragments with the indices \<^term>\<open>seen\<close> of the datagram with the pieces
  \<^term>\<open>xs\<close> have arrived.\<close>

definition frag_inv :: "bytes list \<Rightarrow> u8 \<Rightarrow> nat set \<Rightarrow> ip_reass_stream \<Rightarrow> bool" where
  "frag_inv xs proto seen s \<longleftrightarrow>
     seen \<subseteq> {..<length xs} \<and> hash_ok fg_fragoff (is_fragments s) \<and>
     set (is_fragments s) = (!) (fragments_at 0 xs) ` seen \<and>
     is_endfrag s = (if length xs - 1 \<in> seen then length (concat xs) else 0) \<and> is_subproto s = proto"

lemma fragment_offset_inj:
  assumes "\<forall>x \<in> set xs. x \<noteq> []" "i < length xs" "j < length xs"
    "fg_fragoff (fragments_at 0 xs ! i) = fg_fragoff (fragments_at 0 xs ! j)"
  shows "i = j"
proof -
  have "distinct (map fg_fragoff (fragments_at 0 xs))"
    using sorted_fragments_at [OF assms(1)] strict_sorted_iff by blast
  from nth_eq_iff_index_eq [OF this, of i j] assms(2-4) show ?thesis by simp
qed

lemma length_concat_take:
  assumes "i < length xs"
  shows "length (concat (take i xs)) + length (xs ! i) \<le> length (concat xs)"
    "Suc i = length xs \<Longrightarrow> length (concat (take i xs)) + length (xs ! i) = length (concat xs)"
proof -
  have "concat xs = concat (take i xs) @ xs ! i @ concat (drop (Suc i) xs)"
    using id_take_nth_drop [OF assms] by (metis concat.simps(2) concat_append)
  then have "length (concat xs) = length (concat (take i xs)) + length (xs ! i) + length (concat (drop (Suc i) xs))"
    by (metis length_append add.assoc)
  then show "length (concat (take i xs)) + length (xs ! i) \<le> length (concat xs)"
    "Suc i = length xs \<Longrightarrow> length (concat (take i xs)) + length (xs ! i) = length (concat xs)" by simp_all
qed

lemma concat_take_pos:
  assumes "\<forall>x \<in> set xs. x \<noteq> []" "0 < i" "i < length xs"
  shows "0 < length (concat (take i xs))"
  using assms by (cases xs; cases i) auto

definition pieces_ok :: "bytes list \<Rightarrow> bool" where
  "pieces_ok xs \<longleftrightarrow> (\<forall>x \<in> set xs. x \<noteq> []) \<and> 2 \<le> length xs \<and> length (concat xs) < 65536"

lemma piecesD:
  assumes "pieces_ok xs"
  shows "\<forall>x \<in> set xs. x \<noteq> []" "2 \<le> length xs" "length (concat xs) < 65536"
  using assms by (simp_all add: pieces_ok_def)

lemma frag_inv_find:
  assumes pieces_ok: "pieces_ok xs" and inv: "frag_inv xs proto seen s" and i: "i < length xs"
  shows "hash_find fg_fragoff (length (concat (take i xs))) (is_fragments s) =
    (if i \<in> seen then Some (fragments_at 0 xs ! i) else None)"
proof -
  let ?F = "fragments_at 0 xs"
  have off: "fg_fragoff (?F ! i) = length (concat (take i xs))"
    using i by (simp add: fragments_at_nth)
  have ok: "hash_ok fg_fragoff (is_fragments s)" and set: "set (is_fragments s) = (!) ?F ` seen"
    and seen: "seen \<subseteq> {..<length xs}"
    using inv unfolding frag_inv_def by blast+
  show ?thesis
  proof (cases "i \<in> seen")
    case True
    then have "?F ! i \<in> set (is_fragments s)" using set by blast
    then have "hash_find fg_fragoff (length (concat (take i xs))) (is_fragments s) = Some (?F ! i)"
      using hash_find_Some [OF ok] off by blast
    with True show ?thesis by (simp only: if_True)
  next
    case False
    have "fg_fragoff f \<noteq> length (concat (take i xs))" if "f \<in> set (is_fragments s)" for f
    proof -
      obtain j where j: "j \<in> seen" "f = ?F ! j" using \<open>f \<in> set (is_fragments s)\<close> set by blast
      then have "j < length xs" "j \<noteq> i" using seen False by auto
      then show ?thesis
        using fragment_offset_inj [OF piecesD(1) [OF pieces_ok] \<open>j < length xs\<close> i] j(2) off by metis
    qed
    then have "hash_find fg_fragoff (length (concat (take i xs))) (is_fragments s) = None"
      unfolding hash_find_None by blast
    with False show ?thesis by (simp only: if_False)
  qed
qed

lemma update_carried:
  assumes "captures l3 p" "p \<noteq> []" "length p < 65536" "moreflag \<or> off \<noteq> 0"
    and f: "f = \<lparr> fg_fragoff = off, fg_length = length p, fg_content = p \<rparr>"
    and find: "hash_find fg_fragoff off (is_fragments s) = (if known then Some f else None)"
  shows "update_ipfrag_reassemble_stream l3 off moreflag s =
    Some (0, s \<lparr> is_fragments := if known then is_fragments s else hash_add f (is_fragments s),
      is_endfrag := if moreflag then is_endfrag s else u16_of (int off + int (length p)), is_sorted := False \<rparr>)"
proof -
  obtain hdr where l3: "l3 = Some (TRACE_ETHERTYPE_IP, hdr)" "20 \<le> length hdr"
    and len: "ip_len hdr = 4 * ip_hl hdr + length p \<or> ip_len hdr = 0 \<and> length hdr = 4 * ip_hl hdr + length p"
    and rem: "4 * ip_hl hdr + length p \<le> length hdr"
    and p: "take (length p) (drop (4 * ip_hl hdr) hdr) = p"
    using assms(1) by (auto simp: captures_def split: option.splits)
  have pos: "0 < length p" using assms(2) by simp
  have room: "\<not> length hdr \<le> 4 * ip_hl hdr" "\<not> length hdr < 4 * ip_hl hdr + length p"
    using rem pos by linarith+
  have iprem: "frag_iprem hdr = length p"
    using len pos assms(3) by (auto simp: frag_iprem_def u16_of_nat)
  show ?thesis
    using l3 iprem p f find assms(4)
    by (simp add: room update_ipfrag_reassemble_stream_def TRACE_ETHERTYPE_IP_def TRACE_ETHERTYPE_IPV6_def Let_def)
qed

lemma update_fragment:
  assumes pieces_ok: "pieces_ok xs" and inv: "frag_inv xs proto seen s" and i: "i < length xs"
    and captures: "captures l3 (xs ! i)"
  shows "\<exists>s'. update_ipfrag_reassemble_stream l3 (length (concat (take i xs))) (Suc i < length xs) s = Some (0, s') \<and>
    frag_inv xs proto (insert i seen) s' \<and> \<not> is_sorted s'"
proof -
  let ?f = "fragments_at 0 xs ! i"
  let ?frs = "if i \<in> seen then is_fragments s else hash_add ?f (is_fragments s)"
  let ?fin = "if Suc i < length xs then is_endfrag s
    else u16_of (int (length (concat (take i xs))) + int (length (xs ! i)))"
  let ?s = "s \<lparr> is_fragments := ?frs, is_endfrag := ?fin, is_sorted := False \<rparr>"
  have f: "?f = \<lparr> fg_fragoff = length (concat (take i xs)), fg_length = length (xs ! i), fg_content = xs ! i \<rparr>"
    using fragments_at_nth [OF i, of 0] by simp
  have xi: "xs ! i \<noteq> []" using piecesD(1) [OF pieces_ok] i by simp
  have less: "length (concat (take i xs)) + length (xs ! i) < 65536"
    using length_concat_take(1) [OF i] piecesD(3) [OF pieces_ok] by simp
  have first: "Suc i < length xs \<or> length (concat (take i xs)) \<noteq> 0"
    using concat_take_pos [OF piecesD(1) [OF pieces_ok], of i] piecesD(2) [OF pieces_ok] i by (cases i) auto
  have find: "hash_find fg_fragoff (length (concat (take i xs))) (is_fragments s) = (if i \<in> seen then Some ?f else None)"
    by (rule frag_inv_find [OF pieces_ok inv i])
  have "update_ipfrag_reassemble_stream l3 (length (concat (take i xs))) (Suc i < length xs) s = Some (0, ?s)"
    using less by (intro update_carried [OF captures xi _ first f find]) simp
  moreover have "hash_ok fg_fragoff ?frs"
    using inv find f by (auto simp: frag_inv_def hash_ok_add)
  moreover have "?fin = (if length xs - 1 \<in> insert i seen then length (concat xs) else 0)"
  proof (cases "Suc i < length xs")
    case True
    then have "length xs - 1 \<in> insert i seen \<longleftrightarrow> length xs - 1 \<in> seen" by auto
    with True inv show ?thesis by (simp add: frag_inv_def)
  next
    case False
    then have "length xs - 1 = i" using i by simp
    with False show ?thesis
      using length_concat_take(2) [OF i] u16_of_nat [OF less] i by (simp flip: of_nat_add)
  qed
  ultimately have "frag_inv xs proto (insert i seen) ?s"
    using inv i by (auto simp: frag_inv_def)
  with \<open>update_ipfrag_reassemble_stream l3 _ _ s = _\<close> show ?thesis by simp
qed

lemma next_ip_loop_datagram:
  assumes pieces_ok: "pieces_ok xs" and ok: "\<forall>n. ok n"
  shows "\<exists>r c l e. next_ip_loop ok junk (filter P (fragments_at 0 xs)) 0 0 None 0 = Some (r, c, l, e) \<and>
    (if \<forall>f \<in> set (fragments_at 0 xs). P f
     then r = 1 \<and> l = length (concat xs) \<and> e = l \<and> mem_read (block_mem junk c) 0 l = concat xs
     else r = 0 \<or> r = 1 \<and> e < length (concat xs))"
proof -
  have "0 + length (concat xs) < 65536" "block_ok 0 0 None" "mem_read (block_mem junk None) 0 0 = []"
    using piecesD(3) [OF pieces_ok] by (simp_all add: block_ok_def)
  from next_ip_loop_filter [OF piecesD(1) [OF pieces_ok] this(1) ok this(2,3), of P]
  show ?thesis unfolding add_0 append_Nil .
qed

lemma get_next_fragment:
  assumes pieces_ok: "pieces_ok xs" and inv: "frag_inv xs proto seen s" and s: "\<not> is_sorted s" and srt: "hash_sorts ipfrag_sort srt" and ok: "\<forall>n. ok n"
  shows "\<exists>r c l s'. get_next_ip_reassembled srt ok junk None s =
      Some (r, c, l, if r = 1 then proto else 0, s') \<and> frag_inv xs proto seen s' \<and>
      (if seen = {..<length xs} then r = 1 \<and> mem_read (block_mem junk c) 0 l = concat xs else r = 0)"
proof -
  let ?F = "fragments_at 0 xs"
  define P where "P f \<longleftrightarrow> f \<in> (!) ?F ` seen" for f
  have seen: "seen \<subseteq> {..<length xs}" using inv by (simp add: frag_inv_def)
  have "set (is_fragments s) = (!) ?F ` seen" using inv by (simp add: frag_inv_def)
  moreover have "(!) ?F ` seen \<subseteq> set ?F" using seen by auto
  ultimately have set: "set (filter P ?F) = set (is_fragments s)" by (auto simp: P_def)
  have sorted: "srt (is_fragments s) = filter P ?F"
  proof (rule hash_sorts_key [OF srt])
    show "sorted_wrt (<) (map fg_fragoff (filter P ?F))"
      using sorted_fragments_at [OF piecesD(1) [OF pieces_ok], of 0] by (simp add: sorted_wrt_map sorted_wrt_filter)
    show "hash_ok fg_fragoff (is_fragments s)" using inv by (simp add: frag_inv_def)
    show "ipfrag_sort a b \<le> 0 \<longleftrightarrow> fg_fragoff a \<le> fg_fragoff b" for a b by (simp add: ipfrag_sort_def)
  qed (rule set)
  have all: "(\<forall>f \<in> set ?F. P f) \<longleftrightarrow> seen = {..<length xs}"
  proof
    assume "\<forall>f \<in> set ?F. P f"
    then have "i \<in> seen" if i: "i < length xs" for i
    proof -
      have "?F ! i \<in> set ?F" using i by simp
      then obtain j where j: "j \<in> seen" "?F ! i = ?F ! j" using \<open>\<forall>f \<in> set ?F. P f\<close> by (auto simp: P_def)
      then have "i = j" using fragment_offset_inj [OF piecesD(1) [OF pieces_ok] i, of j] seen by auto
      with j show ?thesis by simp
    qed
    with seen show "seen = {..<length xs}" by auto
  next
    assume "seen = {..<length xs}"
    moreover have "set ?F = (!) ?F ` {..<length xs}"
      using nth_image [of "length xs" ?F] by (simp add: lessThan_atLeast0)
    ultimately show "\<forall>f \<in> set ?F. P f" by (simp add: P_def)
  qed
  obtain r c l e where loop: "next_ip_loop ok junk (filter P ?F) 0 0 None 0 = Some (r, c, l, e)"
    and res: "if seen = {..<length xs}
     then r = 1 \<and> l = length (concat xs) \<and> e = l \<and> mem_read (block_mem junk c) 0 l = concat xs
     else r = 0 \<or> r = 1 \<and> e < length (concat xs)"
    using next_ip_loop_datagram [OF pieces_ok ok, of junk P] unfolding all by blast
  let ?s = "s \<lparr> is_fragments := filter P ?F, is_sorted := True \<rparr>"
  have "distinct (map fg_fragoff ?F)"
    using sorted_fragments_at [OF piecesD(1) [OF pieces_ok], of 0] strict_sorted_iff by blast
  then have "hash_ok fg_fragoff (filter P ?F)"
    unfolding hash_ok_def by (rule distinct_map_filter)
  moreover have "is_fragments ?s = filter P ?F" "is_endfrag ?s = is_endfrag s" "is_subproto ?s = is_subproto s"
    by simp_all
  ultimately have inv': "frag_inv xs proto seen ?s"
    using inv set unfolding frag_inv_def by metis
  have pos: "0 < length (concat xs)"
    using piecesD(1,2) [OF pieces_ok] by (cases xs) auto
  have next_eq: "get_next_ip_reassembled srt ok junk None s =
      Some (if r < 0 then (-1, c, l, 0, ?s) else if r = 0 then (0, c, 0, 0, ?s)
            else if e \<noteq> is_endfrag s \<or> is_endfrag s = 0 then (0, c, 0, 0, ?s)
            else (1, c, l, is_subproto s, ?s))"
    using loop sorted s by (simp add: get_next_ip_reassembled_def sort_fragments_def)
  have fin: "is_endfrag s = (if length xs - 1 \<in> seen then length (concat xs) else 0)" "is_subproto s = proto"
    using inv by (simp_all add: frag_inv_def)
  show ?thesis
  proof (cases "seen = {..<length xs}")
    case True
    then have "length xs - 1 \<in> seen" using piecesD(2) [OF pieces_ok] by auto
    moreover have "r = 1" "l = length (concat xs)" "e = l" "mem_read (block_mem junk c) 0 l = concat xs"
      using res [unfolded if_P [OF True]] by blast+
    ultimately have "get_next_ip_reassembled srt ok junk None s = Some (1, c, l, proto, ?s)"
      unfolding next_eq using fin pos by simp
    with True \<open>mem_read (block_mem junk c) 0 l = concat xs\<close> inv' show ?thesis by auto
  next
    case False
    then have "r = 0 \<or> r = 1 \<and> e < length (concat xs)" using res by simp
    then have "get_next_ip_reassembled srt ok junk None s = Some (0, c, 0, 0, ?s)"
      unfolding next_eq using fin by auto
    with False inv' show ?thesis by simp
  qed
qed

subsection \<open>Properties\<close>

text \<open>The stream that is returned for a fragment is in the table, also after idle streams were removed,
  and no stream occurs twice.\<close>

lemma ipfrag_stream_present:
  assumes "hash_ok is_streamid (ir_knownstreams r)" "ir_nextpurge r = 0 \<or> 300 \<le> ir_nextpurge r"
    "get_ipfrag_reassemble_stream pkt r = (Some sid, r')"
  shows "hash_ok is_streamid (ir_knownstreams r') \<and>
    (\<exists>s \<in> set (ir_knownstreams r'). is_streamid s = sid \<and> is_lastts s = pk_tv_sec pkt)"
proof -
  let ?touch = "hash_update is_streamid sid (\<lambda>s. s \<lparr> is_lastts := pk_tv_sec pkt \<rparr>) (ir_knownstreams r)"
  consider (old) e where "hash_find is_streamid sid (ir_knownstreams r) = Some e"
      "r' = purge_inactive_ip_streams (pk_tv_sec pkt) (r \<lparr> ir_knownstreams := ?touch \<rparr>)"
    | (new) s where "hash_find is_streamid sid (ir_knownstreams r) = None" "is_streamid s = sid"
      "is_lastts s = pk_tv_sec pkt"
      "ir_knownstreams r' = hash_add s (ir_knownstreams (purge_inactive_ip_streams (pk_tv_sec pkt) r))"
    using assms(3) that(2) [of "(create_new_ipfrag_reassemble_stream sid (ip_p (the (pk_ip pkt)))) \<lparr> is_lastts := pk_tv_sec pkt \<rparr>"]
    by (auto simp: get_ipfrag_reassemble_stream_def Let_def create_new_ipfrag_reassemble_stream_def
        split: prod.splits option.splits if_splits)
  then show ?thesis
  proof cases
    case old
    have ok: "hash_ok is_streamid ?touch" using assms(1) by (rule hash_ok_update) simp
    have "e \<lparr> is_lastts := pk_tv_sec pkt \<rparr> \<in> set ?touch"
      using hash_find_SomeD [OF old(1)] by (auto simp: hash_update_def image_iff intro!: bexI [of _ e])
    moreover have "ir_nextpurge r - 300 \<le> pk_tv_sec pkt" if "\<not> pk_tv_sec pkt < ir_nextpurge r" "ir_nextpurge r \<noteq> 0"
      using that assms(2) by (metis (no_types) linorder_not_less order_trans word_sub_le)
    ultimately show ?thesis
      using ok old hash_find_SomeD [OF old(1)]
      by (auto simp: purge_inactive_ip_streams_def hash_ok_def distinct_map_filter not_less
          intro!: bexI [of _ "e \<lparr> is_lastts := pk_tv_sec pkt \<rparr>"])
  next
    case new
    have "set (ir_knownstreams (purge_inactive_ip_streams (pk_tv_sec pkt) r)) \<subseteq> set (ir_knownstreams r)"
      "hash_ok is_streamid (ir_knownstreams (purge_inactive_ip_streams (pk_tv_sec pkt) r))"
      using assms(1) by (auto simp: purge_inactive_ip_streams_def hash_ok_def distinct_map_filter)
    with new show ?thesis by (auto simp: hash_ok_add hash_find_None)
  qed
qed

text \<open>A sequence of fragments of one stream: what is returned for each of them, and the stream.\<close>

fun fragment_run ::
  "(ip_reass_fragment list \<Rightarrow> ip_reass_fragment list) \<Rightarrow> (nat \<Rightarrow> bool) \<Rightarrow> mem \<Rightarrow>
   ((nat \<times> bytes) option \<times> nat \<times> bool) list \<Rightarrow> ip_reass_stream \<Rightarrow>
   (bytes option list \<times> ip_reass_stream) option" where
  "fragment_run srt ok junk [] s = Some ([], s)"
| "fragment_run srt ok junk ((l3, fragoff, moreflag) # ps) s =
     (case fragment_step srt ok junk l3 fragoff moreflag s of
        None \<Rightarrow> None
      | Some (d, s1) \<Rightarrow> map_option (\<lambda>(ds, s2). (d # ds, s2)) (fragment_run srt ok junk ps s1))"

definition piece_packet :: "bytes list \<Rightarrow> nat \<times> (nat \<times> bytes) option \<Rightarrow> (nat \<times> bytes) option \<times> nat \<times> bool" where
  "piece_packet xs = (\<lambda>(i, l3). (l3, length (concat (take i xs)), Suc i < length xs))"

lemma fragment_step_piece:
  assumes "pieces_ok xs" "frag_inv xs proto seen s" "i < length xs" "captures l3 (xs ! i)"
    "hash_sorts ipfrag_sort srt" "\<forall>n. ok n"
  shows "\<exists>s'. fragment_step srt ok junk l3 (length (concat (take i xs))) (Suc i < length xs) s =
      Some (if insert i seen = {..<length xs} then Some (concat xs) else None, s') \<and>
    frag_inv xs proto (insert i seen) s'"
proof -
  obtain s1 where s1: "update_ipfrag_reassemble_stream l3 (length (concat (take i xs))) (Suc i < length xs) s = Some (0, s1)"
    "frag_inv xs proto (insert i seen) s1" "\<not> is_sorted s1"
    using update_fragment [OF assms(1-4)] by blast
  obtain r c l s' where "get_next_ip_reassembled srt ok junk None s1 = Some (r, c, l, if r = 1 then proto else 0, s')"
    "frag_inv xs proto (insert i seen) s'"
    "if insert i seen = {..<length xs} then r = 1 \<and> mem_read (block_mem junk c) 0 l = concat xs else r = 0"
    using get_next_fragment [OF assms(1) s1(2,3) assms(5,6)] by blast
  with s1(1) show ?thesis by (auto simp: fragment_step_def split: if_splits)
qed

lemma fragment_run_pieces:
  assumes "pieces_ok xs" "frag_inv xs proto seen s" "\<forall>(i, l3) \<in> set ps. i < length xs \<and> captures l3 (xs ! i)"
    "hash_sorts ipfrag_sort srt" "\<forall>n. ok n"
  shows "\<exists>s'. fragment_run srt ok junk (map (piece_packet xs) ps) s =
    Some (map (\<lambda>k. if seen \<union> fst ` set (take (Suc k) ps) = {..<length xs} then Some (concat xs) else None)
            [0..<length ps], s')"
  using assms(2,3)
proof (induction ps arbitrary: s seen)
  case (Cons p ps)
  obtain i l3 where p: "p = (i, l3)" by (cases p)
  obtain s1 where s1: "fragment_step srt ok junk l3 (length (concat (take i xs))) (Suc i < length xs) s =
      Some (if insert i seen = {..<length xs} then Some (concat xs) else None, s1)"
    "frag_inv xs proto (insert i seen) s1"
    using fragment_step_piece [OF assms(1) Cons.prems(1) _ _ assms(4,5)] Cons.prems(2) p by fastforce
  from Cons.IH [OF s1(2)] Cons.prems(2) obtain s' where "fragment_run srt ok junk (map (piece_packet xs) ps) s1 =
    Some (map (\<lambda>k. if insert i seen \<union> fst ` set (take (Suc k) ps) = {..<length xs} then Some (concat xs) else None)
            [0..<length ps], s')" by auto
  then show ?case
    using s1(1) p by (simp add: piece_packet_def upt_conv_Cons map_Suc_upt [symmetric] comp_def del: upt_Suc)
qed simp

text \<open>C35. IP datagrams are reassembled correctly: whatever the number of pieces a datagram of at most
  65535 bytes was cut into, in whatever order the fragments arrive and however often each is
  repeated, the datagram is returned, whole and unchanged, exactly from the moment when every
  fragment has arrived. Until then the caller is told that the datagram is incomplete; nothing is
  written past the block that is allocated for it and no assertion fails.\<close>

theorem ip_reassembly:
  assumes "hash_sorts ipfrag_sort srt" "\<forall>n. ok n" "pieces_ok xs"
    "\<forall>(i, l3) \<in> set ps. i < length xs \<and> captures l3 (xs ! i)"
  shows "\<exists>s. fragment_run srt ok junk (map (piece_packet xs) ps) (create_new_ipfrag_reassemble_stream sid proto) =
    Some (map (\<lambda>k. if fst ` set (take (Suc k) ps) = {..<length xs} then Some (concat xs) else None)
            [0..<length ps], s)"
proof -
  have "frag_inv xs proto {} (create_new_ipfrag_reassemble_stream sid proto)"
    by (simp add: frag_inv_def create_new_ipfrag_reassemble_stream_def)
  from fragment_run_pieces [OF assms(3) this assms(4,1,2)] show ?thesis by simp
qed

text \<open>A header without options, and a capture of a fragment.\<close>

definition ex_ip_header :: "nat \<Rightarrow> bytes" where
  "ex_ip_header n = [0x45, 0] @ be_bytes 2 (20 + n) @ replicate 16 0"

definition ex_capture :: "bytes \<Rightarrow> (nat \<times> bytes) option" where
  "ex_capture p = Some (TRACE_ETHERTYPE_IP, ex_ip_header (length p) @ p)"

definition ex_ipid :: ip_streamid where
  "ex_ipid = \<lparr> si_srcip = [10, 0, 0, 1], si_destip = [10, 0, 0, 2], si_ipid = 7, si_ipfamily = AF_INET \<rparr>"

lemma ex_capture_captures: "length p < 65000 \<Longrightarrow> captures (ex_capture p) p"
  by (simp add: ex_capture_def captures_def ex_ip_header_def ip_len_def ip_hl_def be_nat_be_bytes)

theorem ip_reassembly_witness:
  "\<exists>s. fragment_run (hash_isort ipfrag_sort) (\<lambda>_. True) (\<lambda>_. 0)
     (map (piece_packet [[1, 2], [3], [4, 5]])
        [(2, ex_capture [4, 5]), (0, ex_capture [1, 2]), (2, ex_capture [4, 5]), (1, ex_capture [3])])
     (create_new_ipfrag_reassemble_stream ex_ipid 17) =
   Some ([None, None, None, Some [1, 2, 3, 4, 5]], s)"
proof -
  let ?xs = "[[1, 2], [3], [4, 5]] :: bytes list"
  let ?ps = "[(2 :: nat, ex_capture [4, 5]), (0, ex_capture [1, 2]), (2, ex_capture [4, 5]), (1, ex_capture [3])]"
  have three: "{..<length ?xs} = {0, 1, 2}" by auto
  have sets: "{2} \<noteq> {0, 1, 2 :: nat}" "{2, 0} \<noteq> {0, 1, 2 :: nat}" "{2, 0, 2, 1} = {0, 1, 2 :: nat}" by auto
  have res: "map (\<lambda>k. if fst ` set (take (Suc k) ?ps) = {0, 1, 2} then Some (concat ?xs) else None) [0..<4] =
      [None, None, None, Some [1, 2, 3, 4, 5]]"
    using sets by (simp add: upt_conv_Cons insert_commute)
  have "\<exists>s. fragment_run (hash_isort ipfrag_sort) (\<lambda>_. True) (\<lambda>_. 0) (map (piece_packet ?xs) ?ps)
      (create_new_ipfrag_reassemble_stream ex_ipid 17) =
    Some (map (\<lambda>k. if fst ` set (take (Suc k) ?ps) = {..<length ?xs} then Some (concat ?xs) else None)
      [0..<length ?ps], s)"
    by (intro ip_reassembly [OF hash_isort_sorts]) (auto simp: pieces_ok_def ex_capture_captures)
  moreover have "length ?ps = 4" by simp
  ultimately show ?thesis unfolding three res by (simp only: res)
qed

text \<open>C36. A datagram with overlapping fragments stops the program: as soon as a fragment has arrived that
  starts inside the first one, asking whether the datagram is complete fails an assertion, in the
  SIP parser as well as in the packet threads.\<close>

theorem overlapping_fragments_abort:
  assumes "hash_sorts ipfrag_sort srt" "\<forall>n. ok n" "captures a p" "captures b q"
    "0 < off" "off < length p" "length p < 65536" "q \<noteq> []" "length q < 65536"
  shows "\<exists>s1 s2. update_ipfrag_reassemble_stream a 0 True (create_new_ipfrag_reassemble_stream sid proto) = Some (0, s1) \<and>
    update_ipfrag_reassemble_stream b off moreflag s1 = Some (0, s2) \<and>
    is_ip_reassembled srt s2 = None \<and> get_next_ip_reassembled srt ok junk None s2 = None"
proof -
  let ?s = "create_new_ipfrag_reassemble_stream sid proto"
  let ?f = "\<lparr> fg_fragoff = 0, fg_length = length p, fg_content = p \<rparr>"
  let ?g = "\<lparr> fg_fragoff = off, fg_length = length q, fg_content = q \<rparr>"
  have p: "p \<noteq> []" using assms(6) by auto
  have no_frags: "is_fragments ?s = []" by (simp add: create_new_ipfrag_reassemble_stream_def)
  obtain s1 where s1: "update_ipfrag_reassemble_stream a 0 True ?s = Some (0, s1)" "is_fragments s1 = [?f]"
    using update_carried [OF assms(3) p assms(7) _ refl, of True 0 ?s False] no_frags
    by (simp add: hash_add_def)
  obtain s2 where s2: "update_ipfrag_reassemble_stream b off moreflag s1 = Some (0, s2)"
    "is_fragments s2 = [?f, ?g]" "\<not> is_sorted s2"
    using update_carried [OF assms(4,8,9) _ refl, of moreflag off s1 False] s1(2) assms(5)
    by (simp add: hash_add_def hash_find_def)
  have "srt [?f, ?g] = [?f, ?g]"
    using assms(5) by (intro hash_sorts_key [OF assms(1)]) (auto simp: hash_ok_def ipfrag_sort_def)
  then have sorted: "sort_fragments srt s2 = s2 \<lparr> is_fragments := [?f, ?g], is_sorted := True \<rparr>"
    using s2 by (simp add: sort_fragments_def)
  have "off < u16_of (int (length p))" using assms(6,7) by (simp add: u16_of_nat)
  then have "is_ip_reassembled srt s2 = None" "get_next_ip_reassembled srt ok junk None s2 = None"
    using assms(2) by (simp_all add: is_ip_reassembled_def get_next_ip_reassembled_def sorted Let_def)
  with s1(1) s2(1) show ?thesis by blast
qed

theorem overlapping_fragments_abort_witness:
  "\<exists>s1 s2. update_ipfrag_reassemble_stream (ex_capture [1, 2]) 0 True
      (create_new_ipfrag_reassemble_stream ex_ipid 17) = Some (0, s1) \<and>
    update_ipfrag_reassemble_stream (ex_capture [3]) 1 False s1 = Some (0, s2) \<and>
    is_ip_reassembled (hash_isort ipfrag_sort) s2 = None \<and>
    get_next_ip_reassembled (hash_isort ipfrag_sort) (\<lambda>_. True) (\<lambda>_. 0) None s2 = None"
  by (intro overlapping_fragments_abort [OF hash_isort_sorts, of _ _ "[1, 2]" _ "[3]"])
    (simp_all add: ex_capture_captures)

end
