(* ===== verification/TCP_Reassembly.thy ===== *)
theory TCP_Reassembly
  imports IP_Reassembly
begin

text \<open>
  Reassembly of SIP over TCP, \<^verbatim>\<open>src/src/collector/reassembler.c\<close>: sequence number comparison, the end of
  a SIP message, the segments of a stream, the messages taken from it, and the table of streams.

  An entry of a \<^verbatim>\<open>uthash\<close> table is found by the hash of its key and then by comparing the key. The
  segments are keyed by their sequence number, which is changed in place when a message uses a part
  of a segment; a segment therefore also carries the key it was hashed with, and the hash function
  is an argument.
\<close>

subsection \<open>Sequence numbers\<close>

text \<open>A conversion of an \<^verbatim>\<open>unsigned int\<close> to \<^verbatim>\<open>int\<close>.\<close>

definition seq_cmp :: "u32 \<Rightarrow> u32 \<Rightarrow> int" where
  "seq_cmp seq_a seq_b =
     (if seq_a = seq_b then 0
      else if seq_a > seq_b then sint (seq_a - seq_b)
      else sint (- 1 - ((seq_b - seq_a) - 1)))"

subsection \<open>SIP messages\<close>

text \<open>\<^verbatim>\<open>memmem\<close>: the offset of the first occurrence.\<close>

fun memmem :: "bytes \<Rightarrow> bytes \<Rightarrow> nat option" where
  "memmem [] needle = (if needle = [] then Some 0 else None)"
| "memmem (b # bs) needle =
     (if take (length needle) (b # bs) = needle then Some 0 else map_option Suc (memmem bs needle))"

definition SINGLE_CRLF :: bytes where
  "SINGLE_CRLF = [0x0d, 0x0a]"

definition SIP_END_SEQUENCE :: bytes where
  "SIP_END_SEQUENCE = [0x0d, 0x0a, 0x0d, 0x0a]"

definition SIP_CONTENT_LENGTH_FIELD :: bytes where
  "SIP_CONTENT_LENGTH_FIELD = lit ''Content-Length: ''"

text \<open>\<^verbatim>\<open>strtoul\<close> with base 10: white space, a sign, digits. The result for a negative number is its
  64-bit complement, which as an addend to a pointer moves backwards; the model keeps the sign. The
  values here have at most 11 digits.\<close>

definition is_space :: "u8 \<Rightarrow> bool" where
  "is_space b \<longleftrightarrow> b = 32 \<or> 9 \<le> b \<and> b \<le> 13"

definition is_digit :: "u8 \<Rightarrow> bool" where
  "is_digit b \<longleftrightarrow> 48 \<le> b \<and> b \<le> 57"

definition digits_value :: "bytes \<Rightarrow> int" where
  "digits_value ds = foldl (\<lambda>n d. 10 * n + (uint d - 48)) 0 ds"

definition strtoul :: "bytes \<Rightarrow> int" where
  "strtoul s =
     (case dropWhile is_space s of
        [] \<Rightarrow> 0
      | c # cs \<Rightarrow>
          if c = 45 then - digits_value (takeWhile is_digit cs)
          else if c = 43 then digits_value (takeWhile is_digit cs)
          else digits_value (takeWhile is_digit (c # cs)))"

text \<open>\<^term>\<open>None\<close>: the assertion on the length of the field fails. Otherwise the offset of the byte after
  the first message, or nothing if the message is not complete.\<close>

definition find_sip_message_end :: "bytes \<Rightarrow> int option option" where
  "find_sip_message_end content =
     (case memmem content SIP_END_SEQUENCE of
        None \<Rightarrow> Some None
      | Some hdrend \<Rightarrow>
          let crlf = hdrend + length SIP_END_SEQUENCE in
          (case memmem content SIP_CONTENT_LENGTH_FIELD of
             None \<Rightarrow> Some None
           | Some clengthfield \<Rightarrow>
               let clengthstart = clengthfield + length SIP_CONTENT_LENGTH_FIELD in
               (case memmem (drop clengthstart content) SINGLE_CRLF of
                  None \<Rightarrow> Some None
                | Some n \<Rightarrow>
                    if n \<ge> 12 then None
                    else let clenval = strtoul (take n (drop clengthstart content)) in
                      if int crlf + clenval > int (length content) then Some None
                      else Some (Some (int crlf + clenval)))))"

subsection \<open>Streams\<close>

record reass_segment =
  sg_seqno :: u32
  sg_offset :: nat
  sg_length :: nat
  sg_content :: bytes
  sg_hashed :: u32

datatype tcp_state = TCP_STATE_OPENING | TCP_STATE_ESTAB | TCP_STATE_CLOSING

record tcp_stream_id =
  st_srcip :: bytes
  st_destip :: bytes
  st_srcport :: nat
  st_destport :: nat
  st_ipfamily :: int

record reass_stream =
  ts_streamid :: tcp_stream_id
  ts_lastts :: u32
  ts_expectedseqno :: u32
  ts_segments :: "reass_segment list"
  ts_sorted :: bool
  ts_established :: tcp_state

record tcp_reassembler =
  tr_knownstreams :: "reass_stream list"
  tr_nextpurge :: u32

definition tcpseg_sort :: "reass_segment \<Rightarrow> reass_segment \<Rightarrow> int" where
  "tcpseg_sort a b = seq_cmp (sg_seqno a) (sg_seqno b)"

definition create_new_tcp_reassembler :: tcp_reassembler where
  "create_new_tcp_reassembler = \<lparr> tr_knownstreams = [], tr_nextpurge = 0 \<rparr>"

definition create_new_tcp_reassemble_stream :: "tcp_stream_id \<Rightarrow> u32 \<Rightarrow> reass_stream" where
  "create_new_tcp_reassemble_stream streamid synseq =
     \<lparr> ts_streamid = streamid, ts_lastts = 0, ts_expectedseqno = synseq + 1, ts_segments = [],
       ts_sorted = False, ts_established = TCP_STATE_OPENING \<rparr>"

definition purge_inactive_tcp_streams :: "u32 \<Rightarrow> tcp_reassembler \<Rightarrow> tcp_reassembler" where
  "purge_inactive_tcp_streams ts reass =
     (if tr_nextpurge reass = 0 then reass \<lparr> tr_nextpurge := ts + 300 \<rparr>
      else if ts < tr_nextpurge reass then reass
      else reass \<lparr> tr_knownstreams :=
             filter (\<lambda>s. \<not> (if ts_established s \<noteq> TCP_STATE_ESTAB
                           then ts_lastts s < tr_nextpurge reass - 300
                           else ts_lastts s < tr_nextpurge reass - 1800)) (tr_knownstreams reass),
             tr_nextpurge := ts + 300 \<rparr>)"

text \<open>\<^verbatim>\<open>HASH_FIND\<close> compares the length and the bytes of two keys. The key of a stream is its identifier;
  \<^verbatim>\<open>get_tcp_reassemble_stream\<close> searches for the bytes of the pointer to one.\<close>

datatype stream_key = Streamid_key tcp_stream_id | Pointer_key u64

record tcp_flags =
  tf_syn :: bool
  tf_fin :: bool
  tf_rst :: bool
  tf_seq :: u32

text \<open>\<^term>\<open>addr\<close>: the pointer. The result is the stream that is returned, and the table.\<close>

definition get_tcp_reassemble_stream ::
  "u64 \<Rightarrow> tcp_stream_id \<Rightarrow> tcp_flags \<Rightarrow> u32 \<Rightarrow> nat \<Rightarrow> tcp_reassembler \<Rightarrow>
   reass_stream option \<times> tcp_reassembler" where
  "get_tcp_reassemble_stream addr sid tcp tv_sec tcprem reass =
     (case hash_find (\<lambda>s. Streamid_key (ts_streamid s)) (Pointer_key addr) (tr_knownstreams reass) of
        Some existing \<Rightarrow>
          let e1 = (if tcprem > 0 \<and> \<not> tf_syn tcp \<and> ts_established existing = TCP_STATE_OPENING
                    then existing \<lparr> ts_established := TCP_STATE_ESTAB \<rparr> else existing);
              e2 = (if ts_established e1 = TCP_STATE_ESTAB \<and> (tf_fin tcp \<or> tf_rst tcp)
                    then e1 \<lparr> ts_established := TCP_STATE_CLOSING \<rparr> else e1);
              e3 = e2 \<lparr> ts_lastts := tv_sec \<rparr>
          in (Some e3, purge_inactive_tcp_streams tv_sec
                (reass \<lparr> tr_knownstreams := hash_update (\<lambda>s. Streamid_key (ts_streamid s)) (Pointer_key addr)
                           (\<lambda>_. e3) (tr_knownstreams reass) \<rparr>))
      | None \<Rightarrow>
          if tf_rst tcp then (None, reass)
          else let new = (if tf_syn tcp then create_new_tcp_reassemble_stream sid (ntohl (tf_seq tcp))
                          else (create_new_tcp_reassemble_stream sid (ntohl (tf_seq tcp) - 1))
                                 \<lparr> ts_established :=
                                     if tf_fin tcp then TCP_STATE_CLOSING else TCP_STATE_ESTAB \<rparr>)
                         \<lparr> ts_lastts := tv_sec \<rparr>;
                   reass1 = purge_inactive_tcp_streams tv_sec reass
               in (Some new, reass1 \<lparr> tr_knownstreams := hash_add new (tr_knownstreams reass1) \<rparr>))"

text \<open>A segment is found by the hash value it was added with and by its present key.\<close>

definition find_segment :: "(u32 \<Rightarrow> u32) \<Rightarrow> u32 \<Rightarrow> reass_segment list \<Rightarrow> reass_segment option" where
  "find_segment hv seqno segs = List.find (\<lambda>s. hv (sg_hashed s) = hv seqno \<and> sg_seqno s = seqno) segs"

text \<open>\<^term>\<open>None\<close>: an assertion fails, or the function calls itself with the same arguments forever, as it
  does at a segment of length 0. The result is the return value and the stream.\<close>

function update_tcp_reassemble_stream ::
  "(u32 \<Rightarrow> u32) \<Rightarrow> bytes \<Rightarrow> u32 \<Rightarrow> reass_stream \<Rightarrow> (int \<times> reass_stream) option" where
  "update_tcp_reassemble_stream hv content seqno stream =
     (case find_segment hv seqno (ts_segments stream) of
        Some existing \<Rightarrow>
          if length content = sg_length existing then Some (-1, stream)
          else if length content > sg_length existing
          then (if sg_length existing = 0 then None
                else update_tcp_reassemble_stream hv (drop (sg_length existing) content)
                       (seqno + of_nat (sg_length existing)) stream)
          else Some (0, stream)
      | None \<Rightarrow>
          if seq_cmp seqno (ts_expectedseqno stream) < 0 then Some (-1, stream)
          else (case find_sip_message_end content of
                  None \<Rightarrow> None
                | Some endptr \<Rightarrow>
                    if seq_cmp seqno (ts_expectedseqno stream) = 0 \<and> endptr = Some (int (length content))
                    then Some (1, stream \<lparr> ts_expectedseqno :=
                           ts_expectedseqno stream + of_nat (length content) \<rparr>)
                    else Some (0, stream \<lparr> ts_segments := hash_add
                           \<lparr> sg_seqno = seqno, sg_offset = 0, sg_length = length content,
                             sg_content = content, sg_hashed = seqno \<rparr> (ts_segments stream),
                           ts_sorted := False \<rparr>)))"
  by pat_completeness auto

termination
  by (relation "measure (\<lambda>(hv, content, _, _). length content)") auto

declare update_tcp_reassemble_stream.simps [simp del]

text \<open>The loop over the sorted segments: the segments that are left, the bytes used, the sequence number
  expected, the block, \<^verbatim>\<open>*len\<close>, and how it ended. The loop has removed every segment that it went past.\<close>

datatype tcp_outcome = Tcp_more | Tcp_message nat | Tcp_no_memory

fun next_tcp_loop ::
  "(nat \<Rightarrow> bool) \<Rightarrow> mem \<Rightarrow> reass_segment list \<Rightarrow> nat \<Rightarrow> nat \<Rightarrow> u32 \<Rightarrow> block \<Rightarrow> nat \<Rightarrow>
   (tcp_outcome \<times> reass_segment list \<times> nat \<times> u32 \<times> block \<times> nat) option" where
  "next_tcp_loop ok junk [] contused checked expseqno content len =
     Some (Tcp_more, [], contused, expseqno, content, len)"
| "next_tcp_loop ok junk (seg # segs) contused checked expseqno content len =
     (if seq_cmp (sg_seqno seg) expseqno < 0
      then next_tcp_loop ok junk segs contused checked expseqno content len
      else if seq_cmp (sg_seqno seg) expseqno > 0
      then Some (Tcp_more, seg # segs, contused, expseqno, content, len)
      else
        let size = contused + sg_length seg * 2;
            grow = (content = None \<or> len < contused + sg_length seg);
            len1 = (if grow then u16_of (int size) else len)
        in if grow \<and> \<not> ok size
           then Some (Tcp_no_memory, seg # segs, contused, expseqno, None, len1)
           else case (if grow then Some (size, block_mem junk content) else content) of
             None \<Rightarrow> None
           | Some (n, m) \<Rightarrow>
               if n < contused + sg_length seg then None
               else let m1 = mem_write m contused (take (sg_length seg) (drop (sg_offset seg) (sg_content seg)));
                        content1 = Some (n, m1)
                    in case find_sip_message_end
                              (mem_read m1 checked (u16_of (int contused - int checked + int (sg_length seg)))) of
                         None \<Rightarrow> None
                       | Some (Some e) \<Rightarrow>
                           let used = int checked + e - int contused in
                           if used > int (sg_length seg) \<or> used \<le> 0 then None
                           else Some (Tcp_message (nat used),
                             (if used = int (sg_length seg) then segs
                              else seg \<lparr> sg_seqno := sg_seqno seg + of_int used,
                                         sg_offset := u16_of (int (sg_offset seg) + used),
                                         sg_length := sg_length seg - nat used \<rparr> # segs),
                             contused, expseqno, content1, u16_of (int contused + used))
                       | Some None \<Rightarrow>
                           let contused1 = u16_of (int contused + int (sg_length seg)) in
                           next_tcp_loop ok junk segs contused1 contused1
                             (expseqno + of_nat (sg_length seg)) content1 len1)"

declare next_tcp_loop.simps(2) [simp del]

text \<open>\<^term>\<open>srt\<close> is \<^verbatim>\<open>HASH_SORT\<close> with \<^const>\<open>tcpseg_sort\<close>. The result is the return value, the block, \<^verbatim>\<open>*len\<close>
  and the stream.\<close>

definition get_next_tcp_reassembled ::
  "(u32 \<Rightarrow> u32) \<Rightarrow> (reass_segment list \<Rightarrow> reass_segment list) \<Rightarrow> (nat \<Rightarrow> bool) \<Rightarrow> mem \<Rightarrow> block \<Rightarrow> nat \<Rightarrow>
   reass_stream \<Rightarrow> (int \<times> block \<times> nat \<times> reass_stream) option" where
  "get_next_tcp_reassembled hv srt ok junk content len stream =
     (let stream1 = (if ts_sorted stream then stream
                     else stream \<lparr> ts_segments := srt (ts_segments stream), ts_sorted := True \<rparr>)
      in case next_tcp_loop ok junk (ts_segments stream1) 0 0 (ts_expectedseqno stream1) content len of
           None \<Rightarrow> None
         | Some (outcome, segs, contused, expseqno, content1, len1) \<Rightarrow>
             let stream2 = stream1 \<lparr> ts_segments := segs \<rparr> in
             (case outcome of
                Tcp_no_memory \<Rightarrow> Some (-1, content1, len1, stream2)
              | Tcp_message used \<Rightarrow>
                  Some (1, content1, len1,
                    stream2 \<lparr> ts_expectedseqno := ts_expectedseqno stream2 + of_nat used \<rparr>)
              | Tcp_more \<Rightarrow>
                  if contused > 0 \<or> expseqno > ts_expectedseqno stream2
                  then map_option (\<lambda>(_, stream3). (0, content1, 0, stream3))
                         (update_tcp_reassemble_stream hv (mem_read (block_mem junk content1) 0 contused)
                            (ts_expectedseqno stream2) stream2)
                  else Some (0, content1, 0, stream2)))"

subsection \<open>Lemmas\<close>

lemma seq_cmp_sint: "seq_cmp a b = sint (a - b)"
proof -
  have "- 1 - ((b - a) - 1) = a - b" by simp
  then show ?thesis by (simp add: seq_cmp_def)
qed

lemma tcpseg_sort_same [simp]: "tcpseg_sort a a = 0"
  by (simp add: tcpseg_sort_def seq_cmp_def)

lemma seq_cmp_same [simp]: "seq_cmp a a = 0"
  by (simp add: seq_cmp_def)

lemma memmem_bound: "memmem xs needle = Some i \<Longrightarrow> i + length needle \<le> length xs"
proof (induction xs arbitrary: i)
  case (Cons y zs)
  then show ?case
    by (cases "take (length needle) (y # zs) = needle")
      (auto simp del: take_Suc_Cons dest: arg_cong [of _ _ length] split: if_splits)
qed (simp split: if_splits)

lemma take_append_le: "n \<le> length xs \<Longrightarrow> take n (xs @ ys) = take n xs"
  by simp

lemma memmem_append: "memmem xs needle = Some i \<Longrightarrow> memmem (xs @ ys) needle = Some i"
proof (induction xs arbitrary: i)
  case Nil
  then show ?case by (cases ys) (auto split: if_splits)
next
  case (Cons x xs)
  have "length needle \<le> length (x # xs)" using memmem_bound [OF Cons.prems] by simp
  from take_append_le [OF this, of ys] have "take (length needle) (x # xs @ ys) = take (length needle) (x # xs)"
    by (simp only: append_Cons)
  with Cons show ?case by (auto simp del: take_Suc_Cons split: if_splits)
qed

text \<open>The end of a complete message does not depend on what follows it.\<close>

lemma find_sip_message_end_append:
  assumes "find_sip_message_end m = Some (Some e)"
  shows "find_sip_message_end (m @ rest) = Some (Some e)"
proof -
  obtain h c n where h: "memmem m SIP_END_SEQUENCE = Some h" and c: "memmem m SIP_CONTENT_LENGTH_FIELD = Some c"
    and n: "memmem (drop (c + length SIP_CONTENT_LENGTH_FIELD) m) SINGLE_CRLF = Some n" "n < 12"
    and e: "int h + 4 + strtoul (take n (drop (c + length SIP_CONTENT_LENGTH_FIELD) m)) = e" "e \<le> int (length m)"
    using assms by (auto simp: find_sip_message_end_def Let_def SIP_END_SEQUENCE_def not_le split: option.splits if_splits)
  let ?s = "c + length SIP_CONTENT_LENGTH_FIELD"
  have s: "?s \<le> length m" using memmem_bound [OF c] by simp
  have nl: "n \<le> length m - ?s" using memmem_bound [OF n(1)] by simp
  have take: "take n (drop ?s (m @ rest)) = take n (drop ?s m)" using s nl by simp
  have drop: "drop ?s (m @ rest) = drop ?s m @ rest" using s by simp
  have n': "memmem (drop ?s (m @ rest)) SINGLE_CRLF = Some n"
    unfolding drop by (rule memmem_append [OF n(1)])
  have "\<not> int h + 4 + strtoul (take n (drop ?s m)) > int (length (m @ rest))" using e by simp
  then show ?thesis
    unfolding find_sip_message_end_def memmem_append [OF h, of rest] memmem_append [OF c, of rest] Let_def option.case
      n' take using n(2) e(1) by (simp add: SIP_END_SEQUENCE_def algebra_simps)
qed

text \<open>A complete message.\<close>

definition sip_complete :: "bytes \<Rightarrow> bool" where
  "sip_complete m \<longleftrightarrow> find_sip_message_end m = Some (Some (int (length m)))"

lemma sip_complete_nonempty: "sip_complete m \<Longrightarrow> m \<noteq> []"
  by (auto simp: sip_complete_def find_sip_message_end_def SIP_END_SEQUENCE_def)

definition len_ok :: "nat \<Rightarrow> block \<Rightarrow> bool" where
  "len_ok len content \<longleftrightarrow> (case content of None \<Rightarrow> True | Some (n, _) \<Rightarrow> len \<le> n)"

lemma hash_sorts_single: "hash_sorts cmp srt \<Longrightarrow> cmp x x \<le> 0 \<Longrightarrow> srt [x] = [x]"
  by (auto simp: hash_sorts_def cmp_order_def dest!: spec [of _ "[x]"])

lemma hash_sorts_pair:
  assumes "hash_sorts cmp srt" "cmp x y \<le> 0" "\<not> cmp y x \<le> 0" "cmp x x \<le> 0" "cmp y y \<le> 0"
  shows "srt [x, y] = [x, y]"
proof -
  have "cmp_order cmp (set [x, y])" using assms(2-5) by (auto simp: cmp_order_def)
  with assms(1) have srt: "mset (srt [x, y]) = {#x, y#}" "sorted_wrt (\<lambda>a b. cmp a b \<le> 0) (srt [x, y])"
    by (auto simp: hash_sorts_def)
  have "length (srt [x, y]) = 2" using arg_cong [OF srt(1), of size] by simp
  then obtain u v where uv: "srt [x, y] = [u, v]" by (auto simp: numeral_2_eq_2 length_Suc_conv)
  with srt assms(3) show ?thesis by (auto simp: add_eq_conv_diff split: if_splits)
qed

text \<open>One turn of the loop: the bytes of the segment are appended to the block, and only these bytes are
  searched for the end of a message.\<close>

lemma next_tcp_loop_turn:
  assumes "sg_seqno seg = expseqno" "area = take (sg_length seg) (drop (sg_offset seg) (sg_content seg))"
    "length area = sg_length seg" "u + sg_length seg < 65536" "\<forall>n. ok n" "len_ok len content"
    "pre = mem_read (block_mem junk content) 0 u"
  shows "\<exists>n m len1. u + sg_length seg \<le> n \<and> len1 \<le> n \<and> mem_read m 0 (u + sg_length seg) = pre @ area \<and>
    next_tcp_loop ok junk (seg # segs) u u expseqno content len =
      (case find_sip_message_end area of
         None \<Rightarrow> None
       | Some None \<Rightarrow> next_tcp_loop ok junk segs (u + sg_length seg) (u + sg_length seg)
                         (expseqno + of_nat (sg_length seg)) (Some (n, m)) len1
       | Some (Some e) \<Rightarrow>
           if e > int (sg_length seg) \<or> e \<le> 0 then None
           else Some (Tcp_message (nat e),
             (if e = int (sg_length seg) then segs
              else seg \<lparr> sg_seqno := sg_seqno seg + of_int e, sg_offset := u16_of (int (sg_offset seg) + e),
                         sg_length := sg_length seg - nat e \<rparr> # segs),
             u, expseqno, Some (n, m), u16_of (int u + e)))"
proof -
  define grow where "grow \<longleftrightarrow> content = None \<or> len < u + sg_length seg"
  let ?len = "if grow then u16_of (int (u + sg_length seg * 2)) else len"
  obtain n m where nm: "(if grow then Some (u + sg_length seg * 2, block_mem junk content) else content) = Some (n, m)"
    "u + sg_length seg \<le> n" "?len \<le> n" "m = block_mem junk content"
  proof (cases grow)
    case True
    then show ?thesis
      using u16_of_le [of "u + sg_length seg * 2"]
      by (intro that [of "u + sg_length seg * 2" "block_mem junk content"]) simp_all
  next
    case False
    then obtain n m where "content = Some (n, m)" by (auto simp: grow_def)
    with False assms(6) show ?thesis
      by (intro that [of n m]) (auto simp: grow_def len_ok_def block_mem_def)
  qed
  have app: "mem_read (mem_write m u area) 0 (u + sg_length seg) = pre @ area"
    using assms(3,7) nm(4) by (intro mem_read_append_write) simp_all
  have area: "mem_read (mem_write m u area) u (sg_length seg) = area"
    using mem_read_write [of m u area] assms(3) by simp
  have u16: "u16_of (int (sg_length seg)) = sg_length seg" "u16_of (int u + int (sg_length seg)) = u + sg_length seg"
    using assms(4) u16_of_nat [of "u + sg_length seg"] by (simp_all add: u16_of_nat)
  have "next_tcp_loop ok junk (seg # segs) u u expseqno content len =
      (case find_sip_message_end area of
         None \<Rightarrow> None
       | Some None \<Rightarrow> next_tcp_loop ok junk segs (u + sg_length seg) (u + sg_length seg)
                         (expseqno + of_nat (sg_length seg)) (Some (n, mem_write m u area)) ?len
       | Some (Some e) \<Rightarrow>
           if e > int (sg_length seg) \<or> e \<le> 0 then None
           else Some (Tcp_message (nat e),
             (if e = int (sg_length seg) then segs
              else seg \<lparr> sg_seqno := sg_seqno seg + of_int e, sg_offset := u16_of (int (sg_offset seg) + e),
                         sg_length := sg_length seg - nat e \<rparr> # segs),
             u, expseqno, Some (n, mem_write m u area), u16_of (int u + e)))"
    using assms(1,5) nm(1,2) area u16
    by (simp add: next_tcp_loop.simps(2) Let_def flip: assms(2) grow_def split: option.split)
  with nm(2,3) app show ?thesis by blast
qed

lemma next_tcp_loop_message:
  assumes "sg_seqno seg = expseqno" "area = take (sg_length seg) (drop (sg_offset seg) (sg_content seg))"
    "length area = sg_length seg" "u + sg_length seg < 65536" "find_sip_message_end area = Some (Some (int e))"
    "0 < e" "e \<le> sg_length seg" "\<forall>n. ok n" "len_ok len content" "pre = mem_read (block_mem junk content) 0 u"
  shows "\<exists>n m. next_tcp_loop ok junk (seg # segs) u u expseqno content len =
      Some (Tcp_message e,
        (if e = sg_length seg then segs
         else seg \<lparr> sg_seqno := sg_seqno seg + of_nat e, sg_offset := u16_of (int (sg_offset seg) + int e),
                    sg_length := sg_length seg - e \<rparr> # segs), u, expseqno, Some (n, m), u + e) \<and>
    u + e \<le> n \<and> mem_read m 0 (u + e) = pre @ take e area"
proof -
  obtain n m len1 where nm: "u + sg_length seg \<le> n" "len1 \<le> n" "mem_read m 0 (u + sg_length seg) = pre @ area"
    and loop: "next_tcp_loop ok junk (seg # segs) u u expseqno content len =
      Some (Tcp_message e,
        (if e = sg_length seg then segs
         else seg \<lparr> sg_seqno := sg_seqno seg + of_nat e, sg_offset := u16_of (int (sg_offset seg) + int e),
                    sg_length := sg_length seg - e \<rparr> # segs), u, expseqno, Some (n, m), u16_of (int u + int e))"
    using next_tcp_loop_turn [OF assms(1-4,8-10), of segs] assms(5-7) by auto
  have "u16_of (int u + int e) = u + e" using u16_of_nat [of "u + e"] assms(4,7) by simp
  moreover have "mem_read m 0 (u + e) = take (u + e) (pre @ area)"
    using mem_read_take [of "u + e" "u + sg_length seg" m 0] nm(3) assms(7) by simp
  moreover have "length pre = u" using assms(10) by simp
  ultimately show ?thesis using loop nm(1) assms(7) by auto
qed

lemma next_tcp_loop_part:
  assumes "sg_seqno seg = expseqno" "area = take (sg_length seg) (drop (sg_offset seg) (sg_content seg))"
    "length area = sg_length seg" "u + sg_length seg < 65536" "find_sip_message_end area = Some None"
    "\<forall>n. ok n" "len_ok len content" "pre = mem_read (block_mem junk content) 0 u"
  shows "\<exists>n m len1. next_tcp_loop ok junk (seg # segs) u u expseqno content len =
      next_tcp_loop ok junk segs (u + sg_length seg) (u + sg_length seg)
        (expseqno + of_nat (sg_length seg)) (Some (n, m)) len1 \<and>
    len_ok len1 (Some (n, m)) \<and> pre @ area = mem_read (block_mem junk (Some (n, m))) 0 (u + sg_length seg)"
  using next_tcp_loop_turn [OF assms(1-4,6-8), of segs] unfolding assms(5) option.case len_ok_def block_mem_def
  by (simp only: prod.case option.case) metis

text \<open>What the parser does after a packet was added: it asks for messages until there is none. The
  number of calls is bounded by \<^term>\<open>k\<close>; \<^term>\<open>None\<close> when that is not enough or the program stops.\<close>

fun drain ::
  "(u32 \<Rightarrow> u32) \<Rightarrow> (reass_segment list \<Rightarrow> reass_segment list) \<Rightarrow> (nat \<Rightarrow> bool) \<Rightarrow> mem \<Rightarrow> nat \<Rightarrow> block \<Rightarrow> nat \<Rightarrow>
   reass_stream \<Rightarrow> (bytes list \<times> reass_stream) option" where
  "drain hv srt ok junk 0 content len stream = None"
| "drain hv srt ok junk (Suc k) content len stream =
     (case get_next_tcp_reassembled hv srt ok junk content len stream of
        None \<Rightarrow> None
      | Some (ret, content1, len1, stream1) \<Rightarrow>
          if ret = 1
          then map_option (\<lambda>(ms, s). (mem_read (block_mem junk content1) 0 len1 # ms, s))
                 (drain hv srt ok junk k content1 len1 stream1)
          else Some ([], stream1))"

definition holds_messages :: "u32 \<Rightarrow> bytes \<Rightarrow> bytes list \<Rightarrow> reass_stream \<Rightarrow> bool" where
  "holds_messages seqno pre ms stream \<longleftrightarrow>
     length (pre @ concat ms) < 65536 \<and> ts_expectedseqno stream = seqno + of_nat (length pre) \<and>
     ts_segments stream =
       (if ms = [] then []
        else [\<lparr> sg_seqno = seqno + of_nat (length pre), sg_offset = length pre, sg_length = length (concat ms),
                sg_content = pre @ concat ms, sg_hashed = seqno \<rparr>])"

lemma get_next_message:
  assumes "holds_messages seqno pre (m # ms) stream" "\<forall>m \<in> set (m # ms). sip_complete m" "\<forall>n. ok n" "len_ok len content"
    "hash_sorts tcpseg_sort srt"
  shows "\<exists>content' stream'. get_next_tcp_reassembled hv srt ok junk content len stream =
      Some (1, content', length m, stream') \<and> mem_read (block_mem junk content') 0 (length m) = m \<and>
    len_ok (length m) content' \<and> holds_messages seqno (pre @ m) ms stream'"
proof -
  let ?seg = "\<lparr> sg_seqno = seqno + of_nat (length pre), sg_offset = length pre, sg_length = length (concat (m # ms)),
                sg_content = pre @ concat (m # ms), sg_hashed = seqno \<rparr>"
  have len: "length pre + length m + length (concat ms) < 65536" and seg: "ts_segments stream = [?seg]"
    and expd: "ts_expectedseqno stream = seqno + of_nat (length pre)"
    using assms(1) by (simp_all add: holds_messages_def)
  have m: "m \<noteq> []" "find_sip_message_end (concat (m # ms)) = Some (Some (int (length m)))"
    using assms(2) sip_complete_nonempty [of m] find_sip_message_end_append [of m _ "concat ms"]
    by (simp_all add: sip_complete_def)
  have used_all: "length m = length (concat (m # ms)) \<longleftrightarrow> ms = []"
    using assms(2) sip_complete_nonempty by (cases ms) auto
  have sorted: "srt [?seg] = [?seg]"
    by (intro hash_sorts_single [OF assms(5)]) (simp add: tcpseg_sort_def)
  obtain n mm where loop: "next_tcp_loop ok junk [?seg] 0 0 (ts_expectedseqno stream) content len =
      Some (Tcp_message (length m),
        (if length m = sg_length ?seg then []
         else [?seg \<lparr> sg_seqno := sg_seqno ?seg + of_nat (length m),
                    sg_offset := u16_of (int (sg_offset ?seg) + int (length m)),
                    sg_length := sg_length ?seg - length m \<rparr>]), 0, ts_expectedseqno stream, Some (n, mm), length m)"
    "length m \<le> n" "mem_read mm 0 (length m) = take (length m) (concat (m # ms))"
    using next_tcp_loop_message [OF _ refl _ _ _ _ _ assms(3,4) refl,
        of ?seg "ts_expectedseqno stream" 0 "length m" junk "[]"] len m expd by auto
  let ?stream = "stream \<lparr> ts_segments := if ms = [] then [] else
      [\<lparr> sg_seqno = seqno + of_nat (length (pre @ m)), sg_offset = length (pre @ m), sg_length = length (concat ms),
         sg_content = (pre @ m) @ concat ms, sg_hashed = seqno \<rparr>],
    ts_expectedseqno := seqno + of_nat (length (pre @ m)), ts_sorted := True \<rparr>"
  have off: "u16_of (int (length pre) + int (length m)) = length pre + length m"
    using u16_of_nat [of "length pre + length m"] len by simp
  have "get_next_tcp_reassembled hv srt ok junk content len stream = Some (1, Some (n, mm), length m, ?stream)"
    using loop(1) seg sorted expd off used_all
    by (simp add: get_next_tcp_reassembled_def Let_def add.assoc)
  moreover have "holds_messages seqno (pre @ m) ms ?stream"
    using len by (simp add: holds_messages_def)
  ultimately show ?thesis
    using loop(2,3) by (intro exI [of _ "Some (n, mm)"] exI [of _ ?stream]) (simp add: block_mem_def len_ok_def)
qed

lemma drain_messages:
  assumes "holds_messages seqno pre ms stream" "\<forall>m \<in> set ms. sip_complete m" "\<forall>n. ok n" "len_ok len content"
    "hash_sorts tcpseg_sort srt"
  shows "\<exists>stream'. drain hv srt ok junk (Suc (length ms)) content len stream = Some (ms, stream') \<and>
    holds_messages seqno (pre @ concat ms) [] stream'"
  using assms(1,2,4)
proof (induction ms arbitrary: pre stream content len)
  case Nil
  have "srt [] = []" using assms(5) by (auto simp: hash_sorts_def cmp_order_def dest!: spec [of _ "[]"])
  with Nil show ?case
    by (auto simp: holds_messages_def get_next_tcp_reassembled_def Let_def)
next
  case (Cons m ms)
  obtain content' stream' where step: "get_next_tcp_reassembled hv srt ok junk content len stream =
      Some (1, content', length m, stream')" "mem_read (block_mem junk content') 0 (length m) = m"
    "len_ok (length m) content'" "holds_messages seqno (pre @ m) ms stream'"
    using get_next_message [OF Cons.prems(1,2) assms(3) Cons.prems(3) assms(5)] by blast
  then show ?case using Cons.IH [OF step(4) _ step(3)] Cons.prems(2) by auto
qed

lemma sint_of_nat: "n < 2 ^ 31 \<Longrightarrow> sint (of_nat n :: u32) = int n"
  "n < 2 ^ 31 \<Longrightarrow> sint (- of_nat n :: u32) = - int n"
  using int_word_sint [of "int n", where 'a = 32] int_word_sint [of "- int n", where 'a = 32] by simp_all

lemma seq_cmp_add: "n < 2 ^ 31 \<Longrightarrow> seq_cmp (s + of_nat n) s = int n"
  by (simp add: seq_cmp_sint sint_of_nat)

text \<open>Two segments that continue a stream one after the other, and the loop over them.\<close>

definition two_segments :: "u32 \<Rightarrow> bytes \<Rightarrow> bytes \<Rightarrow> reass_stream \<Rightarrow> bool" where
  "two_segments seqno a b stream \<longleftrightarrow>
     ts_expectedseqno stream = seqno \<and> \<not> ts_sorted stream \<and>
     ts_segments stream =
       [\<lparr> sg_seqno = seqno, sg_offset = 0, sg_length = length a, sg_content = a, sg_hashed = seqno \<rparr>,
        \<lparr> sg_seqno = seqno + of_nat (length a), sg_offset = 0, sg_length = length b, sg_content = b,
          sg_hashed = seqno + of_nat (length a) \<rparr>]"

lemma update_two_segments:
  assumes "find_sip_message_end a = Some None" "find_sip_message_end b = Some eb" "a \<noteq> []" "b \<noteq> []"
    "length a + length b < 65536" "ts_segments stream = []" "ts_expectedseqno stream = seqno"
  shows "\<exists>s1 s2. update_tcp_reassemble_stream hv a seqno stream = Some (0, s1) \<and>
    update_tcp_reassemble_stream hv b (seqno + of_nat (length a)) s1 = Some (0, s2) \<and> two_segments seqno a b s2"
proof -
  let ?s1 = "stream \<lparr> ts_segments := [\<lparr> sg_seqno = seqno, sg_offset = 0, sg_length = length a, sg_content = a,
      sg_hashed = seqno \<rparr>], ts_sorted := False \<rparr>"
  have cmp: "seq_cmp (seqno + of_nat (length a)) seqno = int (length a)"
    using assms(5) by (intro seq_cmp_add) simp
  then have ne: "seqno + of_nat (length a) \<noteq> seqno" using assms(3) by auto
  have "update_tcp_reassemble_stream hv a seqno stream = Some (0, ?s1)"
    using assms by (simp add: update_tcp_reassemble_stream.simps find_segment_def hash_add_def)
  moreover have "\<exists>s2. update_tcp_reassemble_stream hv b (seqno + of_nat (length a)) ?s1 = Some (0, s2) \<and>
      two_segments seqno a b s2"
    using assms(2,3,7) cmp ne
    by (simp add: update_tcp_reassemble_stream.simps find_segment_def hash_add_def two_segments_def)
  ultimately show ?thesis by blast
qed

lemma two_segments_loop:
  assumes nonempty: "a \<noteq> []" and "two_segments seqno a b stream" "find_sip_message_end a = Some None" "length a + length b < 65536"
    "\<forall>n. ok n" "hash_sorts tcpseg_sort srt" "len_ok len content"
  shows "\<exists>content' len'. next_tcp_loop ok junk (srt (ts_segments stream)) 0 0 seqno content len =
      next_tcp_loop ok junk [\<lparr> sg_seqno = seqno + of_nat (length a), sg_offset = 0, sg_length = length b,
          sg_content = b, sg_hashed = seqno + of_nat (length a) \<rparr>] (length a) (length a)
        (seqno + of_nat (length a)) content' len' \<and>
    len_ok len' content' \<and> a = mem_read (block_mem junk content') 0 (length a)"
proof -
  let ?a = "\<lparr> sg_seqno = seqno, sg_offset = 0, sg_length = length a, sg_content = a, sg_hashed = seqno \<rparr>"
  let ?b = "\<lparr> sg_seqno = seqno + of_nat (length a), sg_offset = 0, sg_length = length b, sg_content = b,
    sg_hashed = seqno + of_nat (length a) \<rparr>"
  have "tcpseg_sort ?a ?b = - int (length a)" "tcpseg_sort ?b ?a = int (length a)"
    using assms(4) by (simp_all add: tcpseg_sort_def seq_cmp_sint sint_of_nat)
  then have "srt [?a, ?b] = [?a, ?b]"
    using nonempty by (intro hash_sorts_pair [OF assms(6)]) simp_all
  with assms(2) have "srt (ts_segments stream) = [?a, ?b]" by (simp add: two_segments_def)
  then show ?thesis
    using next_tcp_loop_part [OF _ refl _ _ _ assms(5,7) refl, of ?a seqno 0 junk "[?b]"] assms(3,4)
    by auto
qed

subsection \<open>Properties\<close>

text \<open>C37. The comparison of sequence numbers is the reference one, the 32-bit difference read as a signed
  number, although it is computed by cases: numbers that are less than half the range apart are
  ordered correctly also where they wrap around.\<close>

theorem seq_cmp_equiv:
  "seq_cmp a b = sint (a - b) \<and> (n < 2 ^ 31 \<longrightarrow> seq_cmp (b + of_nat n) b = int n \<and> seq_cmp b (b + of_nat n) = - int n)"
  by (simp add: seq_cmp_sint sint_of_nat)

theorem seq_cmp_equiv_witness:
  "seq_cmp (0xFFFFFFFF + of_nat 2) 0xFFFFFFFF = 2 \<and> seq_cmp 0xFFFFFFFF (0xFFFFFFFF + of_nat 2) = - 2"
  using seq_cmp_equiv [where n = 2 and b = "0xFFFFFFFF"] by simp

text \<open>C38. Pipelined SIP messages are all delivered: when a segment that continues the stream contains
  several complete messages, adding it and then asking for messages until there is none returns
  exactly these messages, in order, and leaves a stream that expects the byte after the last.\<close>

theorem pipelined_messages:
  assumes "\<forall>m \<in> set ms. sip_complete m" "2 \<le> length ms" "length (concat ms) < 65536" "\<forall>n. ok n"
    "hash_sorts tcpseg_sort srt" "len_ok len content" "ts_segments stream = []" "ts_expectedseqno stream = seqno"
  shows "\<exists>s1 s2. update_tcp_reassemble_stream hv (concat ms) seqno stream = Some (0, s1) \<and>
    drain hv srt ok junk (Suc (length ms)) content len s1 = Some (ms, s2) \<and>
    ts_segments s2 = [] \<and> ts_expectedseqno s2 = seqno + of_nat (length (concat ms))"
proof -
  obtain m ms' where ms: "ms = m # ms'" "ms' \<noteq> []"
    using assms(2) by (cases ms; cases "tl ms") auto
  have "find_sip_message_end (concat ms) = Some (Some (int (length m)))"
    using assms(1) ms(1) find_sip_message_end_append [of m _ "concat ms'"] by (simp add: sip_complete_def)
  moreover have "length m \<noteq> length (concat ms)"
    using assms(1) ms sip_complete_nonempty by (cases ms') auto
  ultimately obtain s1 where s1: "update_tcp_reassemble_stream hv (concat ms) seqno stream = Some (0, s1)"
    "holds_messages seqno [] ms s1"
    using assms(3,7,8) ms
    by (auto simp: update_tcp_reassemble_stream.simps find_segment_def hash_add_def holds_messages_def)
  from drain_messages [OF s1(2) assms(1,4,6,5)] s1(1) show ?thesis
    by (auto simp: holds_messages_def)
qed

text \<open>A message, and a connection.\<close>

definition ex_sip :: bytes where
  "ex_sip = lit ''Content-Length: 0'' @ SIP_END_SEQUENCE"

definition ex_tcp_stream :: reass_stream where
  "ex_tcp_stream = create_new_tcp_reassemble_stream
     \<lparr> st_srcip = [10, 0, 0, 1], st_destip = [10, 0, 0, 2], st_srcport = 5060, st_destport = 5060,
       st_ipfamily = AF_INET \<rparr> 6"

lemmas sip_eval = ex_sip_def lit_def find_sip_message_end_def SIP_END_SEQUENCE_def SIP_CONTENT_LENGTH_FIELD_def
  SINGLE_CRLF_def strtoul_def digits_value_def is_space_def is_digit_def Let_def

lemma ex_sip_complete: "sip_complete ex_sip"
  by (simp add: sip_complete_def sip_eval)

lemma ex_sip_parts:
  "find_sip_message_end (take 9 ex_sip) = Some None" "find_sip_message_end (drop 9 ex_sip) = Some None"
  by (simp_all add: sip_eval)

theorem pipelined_messages_witness:
  "\<exists>s1 s2. update_tcp_reassemble_stream id (ex_sip @ ex_sip) 7 ex_tcp_stream = Some (0, s1) \<and>
    drain id (hash_isort tcpseg_sort) (\<lambda>_. True) (\<lambda>_. 0) 3 None 0 s1 = Some ([ex_sip, ex_sip], s2) \<and>
    ts_segments s2 = [] \<and> ts_expectedseqno s2 = 49"
proof -
  have len: "length ex_sip = 21" by (simp add: ex_sip_def lit_def SIP_END_SEQUENCE_def)
  have "\<exists>s1 s2. update_tcp_reassemble_stream id (concat [ex_sip, ex_sip]) 7 ex_tcp_stream = Some (0, s1) \<and>
    drain id (hash_isort tcpseg_sort) (\<lambda>_. True) (\<lambda>_. 0) (Suc (length [ex_sip, ex_sip])) None 0 s1 = Some ([ex_sip, ex_sip], s2) \<and>
    ts_segments s2 = [] \<and> ts_expectedseqno s2 = 7 + of_nat (length (concat [ex_sip, ex_sip]))"
    by (intro pipelined_messages hash_isort_sorts)
      (simp_all add: ex_sip_complete len len_ok_def ex_tcp_stream_def create_new_tcp_reassemble_stream_def)
  then show ?thesis by (simp add: len numeral_3_eq_3 del: drain.simps)
qed



text \<open>When the end of the message is found in the second segment, the message is returned, but the
  stream is moved forward only by the second segment: the segment that follows is never reached.\<close>

theorem split_message_stalls:
  assumes "find_sip_message_end a = Some None" "sip_complete b" "find_sip_message_end c = Some ec"
    "a \<noteq> []" "length a + length b < 65536" "\<forall>n. ok n" "hash_sorts tcpseg_sort srt" "len_ok len content"
    "ts_segments stream = []" "ts_expectedseqno stream = seqno"
  shows "\<exists>s1 s2 s3 s4 s5 content' content''. update_tcp_reassemble_stream hv a seqno stream = Some (0, s1) \<and>
    update_tcp_reassemble_stream hv b (seqno + of_nat (length a)) s1 = Some (0, s2) \<and>
    get_next_tcp_reassembled hv srt ok junk content len s2 = Some (1, content', length a + length b, s3) \<and>
    mem_read (block_mem junk content') 0 (length a + length b) = a @ b \<and>
    update_tcp_reassemble_stream hv c (seqno + of_nat (length a + length b)) s3 = Some (0, s4) \<and>
    get_next_tcp_reassembled hv srt ok junk content' (length a + length b) s4 = Some (0, content'', 0, s5) \<and>
    ts_segments s4 \<noteq> [] \<and> ts_segments s5 = ts_segments s4"
proof -
  have b: "b \<noteq> []" "find_sip_message_end b = Some (Some (int (length b)))"
    using assms(2) sip_complete_nonempty by (auto simp: sip_complete_def)
  obtain s1 s2 where s12: "update_tcp_reassemble_stream hv a seqno stream = Some (0, s1)"
      "update_tcp_reassemble_stream hv b (seqno + of_nat (length a)) s1 = Some (0, s2)"
    and two: "two_segments seqno a b s2"
    using update_two_segments [OF assms(1) b(2) assms(4) b(1) assms(5,9,10)] by blast
  let ?b = "\<lparr> sg_seqno = seqno + of_nat (length a), sg_offset = 0, sg_length = length b, sg_content = b,
    sg_hashed = seqno + of_nat (length a) \<rparr>"
  obtain k l where part: "next_tcp_loop ok junk (srt (ts_segments s2)) 0 0 seqno content len =
      next_tcp_loop ok junk [?b] (length a) (length a) (seqno + of_nat (length a)) k l"
    "len_ok l k" "a = mem_read (block_mem junk k) 0 (length a)"
    using two_segments_loop [OF assms(4) two assms(1,5-8), of junk] by blast
  obtain n m where msg: "next_tcp_loop ok junk [?b] (length a) (length a) (seqno + of_nat (length a)) k l =
      Some (Tcp_message (length b), [], length a, seqno + of_nat (length a), Some (n, m), length a + length b)"
    "mem_read m 0 (length a + length b) = a @ b"
    using next_tcp_loop_message [OF _ refl _ _ _ _ _ assms(6) part(2,3), of ?b "seqno + of_nat (length a)" "length b" "[]"]
      assms(5) b by auto
  let ?s3 = "s2 \<lparr> ts_segments := [], ts_sorted := True, ts_expectedseqno := seqno + of_nat (length b) \<rparr>"
  have s3: "get_next_tcp_reassembled hv srt ok junk content len s2 = Some (1, Some (n, m), length a + length b, ?s3)"
    using part(1) msg(1) two by (simp add: get_next_tcp_reassembled_def two_segments_def Let_def)
  let ?c = "\<lparr> sg_seqno = seqno + of_nat (length a + length b), sg_offset = 0, sg_length = length c, sg_content = c,
    sg_hashed = seqno + of_nat (length a + length b) \<rparr>"
  let ?s4 = "?s3 \<lparr> ts_segments := [?c], ts_sorted := False \<rparr>"
  have gap: "seq_cmp (seqno + of_nat (length a + length b)) (seqno + of_nat (length b)) = int (length a)"
    using assms(5) by (simp add: seq_cmp_sint sint_of_nat)
  then have s4: "update_tcp_reassemble_stream hv c (seqno + of_nat (length a + length b)) ?s3 = Some (0, ?s4)"
    using assms(3,4) by (simp add: update_tcp_reassemble_stream.simps find_segment_def hash_add_def)
  have "srt [?c] = [?c]" by (intro hash_sorts_single [OF assms(7)]) simp
  then have "get_next_tcp_reassembled hv srt ok junk (Some (n, m)) (length a + length b) ?s4 =
      Some (0, Some (n, m), 0, ?s4 \<lparr> ts_sorted := True \<rparr>)"
    using gap assms(4) by (simp add: get_next_tcp_reassembled_def next_tcp_loop.simps(2) Let_def)
  with s12 s3 s4 msg(2) show ?thesis
    by (intro exI [of _ s1] exI [of _ s2] exI [of _ ?s3] exI [of _ ?s4] exI [of _ "?s4 \<lparr> ts_sorted := True \<rparr>"]
        exI [of _ "Some (n, m)"]) (simp add: block_mem_def)
qed

text \<open>C40. The packets of a connection are never put together: the table of streams is searched for a pointer
  instead of the identifier it points to, so that every packet, except a reset, starts a stream of
  its own, whatever is in the table.\<close>

theorem tcp_stream_unknown:
  assumes "\<not> tf_rst tcp"
  shows "\<exists>stream r'. get_tcp_reassemble_stream addr sid tcp tv_sec tcprem r = (Some stream, r') \<and>
    ts_segments stream = [] \<and>
    ts_expectedseqno stream = (if tf_syn tcp then ntohl (tf_seq tcp) + 1 else ntohl (tf_seq tcp)) \<and>
    tr_knownstreams r' = tr_knownstreams (purge_inactive_tcp_streams tv_sec r) @ [stream]"
proof -
  have "hash_find (\<lambda>s. Streamid_key (ts_streamid s)) (Pointer_key addr) (tr_knownstreams r) = None"
    by (simp add: hash_find_None)
  with assms show ?thesis
    by (simp add: get_tcp_reassemble_stream_def Let_def hash_add_def create_new_tcp_reassemble_stream_def)
qed

theorem tcp_stream_unknown_witness:
  "\<exists>stream r'. get_tcp_reassemble_stream 4096 (ts_streamid ex_tcp_stream)
      \<lparr> tf_syn = False, tf_fin = False, tf_rst = False, tf_seq = htonl 28 \<rparr> 5 100
      \<lparr> tr_knownstreams = [ex_tcp_stream \<lparr> ts_expectedseqno := 28 \<rparr>], tr_nextpurge = 300 \<rparr> = (Some stream, r') \<and>
    tr_knownstreams r' = [ex_tcp_stream \<lparr> ts_expectedseqno := 28 \<rparr>, stream]"
  using tcp_stream_unknown [of "\<lparr> tf_syn = False, tf_fin = False, tf_rst = False, tf_seq = htonl 28 \<rparr>" 4096
      "ts_streamid ex_tcp_stream" 5 100 "\<lparr> tr_knownstreams = [ex_tcp_stream \<lparr> ts_expectedseqno := 28 \<rparr>], tr_nextpurge = 300 \<rparr>"]
  by (auto simp: purge_inactive_tcp_streams_def)

end
