(* ===== verification/Patricia.thy ===== *)
theory Patricia
  imports Intercept_Types
begin

text \<open>
  The Patricia tree that finds the intercepts of a packet by its addresses,
  \<^verbatim>\<open>src/extlib/libpatricia/patricia.c\<close>: prefixes, the bit operations on addresses, exact and best
  match, insertion and removal.

  A pointer to a node is a place in the tree: the subtree of the node and the path to the head, which
  represents the \<^verbatim>\<open>parent\<close> pointers. Reference counts of prefixes and the count of nodes, which only
  serve freeing and debugging, are left out. The assertions that the tree and the prefix exist and that
  the prefix is not longer than the addresses of the tree are conditions of the lemmas. \<^term>\<open>None\<close> as a
  result of an operation on places: another assertion fails or a null pointer is dereferenced.
\<close>

subsection \<open>Prefixes\<close>

record prefix =
  px_family :: int
  px_bitlen :: nat
  px_add :: bytes

definition PATRICIA_MAXBITS :: nat where
  "PATRICIA_MAXBITS = 128"

definition BIT_TEST :: "u8 \<Rightarrow> u8 \<Rightarrow> bool" where
  "BIT_TEST f b \<longleftrightarrow> f AND b \<noteq> 0"

text \<open>The test of bit \<^term>\<open>i\<close> of an address.\<close>

definition addr_bit :: "bytes \<Rightarrow> nat \<Rightarrow> bool" where
  "addr_bit addr i = BIT_TEST (addr ! (i div 8)) (drop_bit (i mod 8) 0x80)"

definition comp_with_mask :: "bytes \<Rightarrow> bytes \<Rightarrow> nat \<Rightarrow> bool" where
  "comp_with_mask addr dest msk \<longleftrightarrow>
     take (msk div 8) addr = take (msk div 8) dest \<and>
     (let n = msk div 8; m = push_bit (8 - msk mod 8) (- 1) in
      msk mod 8 = 0 \<or> (addr ! n) AND m = (dest ! n) AND m)"

text \<open>The reading of an IPv4 address, which may have fewer than four parts. The result is the return
  value and the address.\<close>

definition isdigit :: "u8 \<Rightarrow> bool" where
  "isdigit c \<longleftrightarrow> 48 \<le> c \<and> c \<le> 57"

fun pton_digits :: "int \<Rightarrow> bytes \<Rightarrow> (int \<times> bytes) option" where
  "pton_digits val [] = Some (val, [])"
| "pton_digits val (c # cs) =
     (if isdigit c
      then let val1 = val * 10 + (uint c - 48) in
        if val1 > 255 then None else pton_digits val1 cs
      else Some (val, c # cs))"

lemma pton_digits_length: "pton_digits val cs = Some (v, cs') \<Longrightarrow> length cs' \<le> length cs"
proof (induction cs arbitrary: val)
  case (Cons c cs)
  then show ?case by (force simp: Let_def split: if_splits)
qed simp

function my_inet_pton_loop :: "nat \<Rightarrow> bytes \<Rightarrow> bytes \<Rightarrow> int \<times> bytes" where
  "my_inet_pton_loop i [] xp = (-1, xp)"
| "my_inet_pton_loop i (c # cs) xp =
     (if \<not> isdigit c then (-1, xp)
      else (case pton_digits 0 (c # cs) of
              None \<Rightarrow> (0, xp)
            | Some (val, []) \<Rightarrow> (1, xp[i := of_int val])
            | Some (val, c' # cs') \<Rightarrow>
                if c' = 0 then (1, xp[i := of_int val])
                else if c' \<noteq> 46 then (0, xp)
                else if i \<ge> 3 then (0, xp)
                else my_inet_pton_loop (Suc i) cs' (xp[i := of_int val])))"
  by pat_completeness auto

termination
  by (relation "measure (\<lambda>(i, cs, xp). length cs)") (auto dest!: pton_digits_length simp del: pton_digits.simps)

definition my_inet_pton :: "bytes \<Rightarrow> (int \<times> bytes)" where
  "my_inet_pton src = my_inet_pton_loop 0 src [0, 0, 0, 0]"

definition New_Prefix :: "int \<Rightarrow> bytes \<Rightarrow> int \<Rightarrow> prefix option" where
  "New_Prefix family dest bitlen =
     (if family = AF_INET6
      then Some \<lparr> px_family = family, px_bitlen = nat (if bitlen \<ge> 0 then bitlen else 128), px_add = take 16 dest \<rparr>
      else if family = AF_INET
      then Some \<lparr> px_family = family, px_bitlen = nat (if bitlen \<ge> 0 then bitlen else 32), px_add = take 4 dest \<rparr>
      else None)"

text \<open>The number at the start of a string.\<close>

definition isspace :: "u8 \<Rightarrow> bool" where
  "isspace c \<longleftrightarrow> c = 32 \<or> 9 \<le> c \<and> c \<le> 13"

fun digits_value :: "int \<Rightarrow> bytes \<Rightarrow> int" where
  "digits_value val [] = val"
| "digits_value val (c # cs) = (if isdigit c then digits_value (val * 10 + (uint c - 48)) cs else val)"

definition atol :: "bytes \<Rightarrow> int" where
  "atol s =
     (case dropWhile isspace s of
        [] \<Rightarrow> 0
      | c # cs \<Rightarrow> if c = 45 then - digits_value 0 cs else if c = 43 then digits_value 0 cs else digits_value 0 (c # cs))"

text \<open>\<^term>\<open>inet_pton\<close>: the conversion of an IPv6 address by the system's library. A negative length is a
  huge \<^verbatim>\<open>u_long\<close>. The string has no NUL. The assertion that the part before the slash is shorter than
  \<^verbatim>\<open>MAXLINE\<close> holds for the ranges that the collector reads.\<close>

definition range_bitlen :: "int \<Rightarrow> bytes \<Rightarrow> int" where
  "range_bitlen maxbitlen s =
     (if 47 \<in> set s
      then let n = atol (drop (Suc (length (takeWhile (\<lambda>c. c \<noteq> 47) s))) s) in
        if n < 0 \<or> n > maxbitlen then maxbitlen else n
      else maxbitlen)"

definition ascii2prefix ::
  "(bytes \<Rightarrow> bytes option) \<Rightarrow> int \<Rightarrow> cstr option \<Rightarrow> prefix option" where
  "ascii2prefix inet_pton family string =
     (case string of
        None \<Rightarrow> None
      | Some s \<Rightarrow>
          let family1 = (if family = 0 then if 58 \<in> set s then AF_INET6 else AF_INET else family);
              maxbitlen = (if family1 = AF_INET then 32 else if family1 = AF_INET6 then 128 else 0);
              addr = takeWhile (\<lambda>c. c \<noteq> 47) s;
              bitlen = range_bitlen maxbitlen s
          in if family1 = AF_INET
             then (case my_inet_pton addr of
                     (result, sin) \<Rightarrow> if result \<le> 0 then None else New_Prefix AF_INET sin bitlen)
             else if family1 = AF_INET6
             then (case inet_pton addr of None \<Rightarrow> None | Some sin6 \<Rightarrow> New_Prefix AF_INET6 sin6 bitlen)
             else None)"

subsection \<open>The tree\<close>

datatype 'd patricia_node =
  Null
| Node (node_bit: nat) (node_prefix: "prefix option") (node_l: "'d patricia_node") (node_r: "'d patricia_node")
    (node_data: "'d option")

text \<open>One step of a path towards the head: whether the place is the right child, and the rest of the
  parent.\<close>

datatype 'd crumb =
  Crumb (cr_right: bool) (cr_bit: nat) (cr_prefix: "prefix option") (cr_data: "'d option") (cr_other: "'d patricia_node")

type_synonym 'd place = "'d patricia_node \<times> 'd crumb list"

fun up :: "'d patricia_node \<Rightarrow> 'd crumb \<Rightarrow> 'd patricia_node" where
  "up n (Crumb rt b p d other) = (if rt then Node b p other n d else Node b p n other d)"

text \<open>The head of the tree that contains a place.\<close>

fun plug :: "'d patricia_node \<Rightarrow> 'd crumb list \<Rightarrow> 'd patricia_node" where
  "plug n [] = n"
| "plug n (c # cs) = plug (up n c) cs"

subsection \<open>Searching\<close>

text \<open>The loops that go down by the bits of the address; the second one also collects the places with a
  prefix that it passes.\<close>

fun exact_loop :: "bytes \<Rightarrow> nat \<Rightarrow> 'd patricia_node \<Rightarrow> 'd crumb list \<Rightarrow> 'd place option" where
  "exact_loop addr bitlen Null path = None"
| "exact_loop addr bitlen (Node b p l r d) path =
     (if b < bitlen
      then if addr_bit addr b
           then exact_loop addr bitlen r (Crumb True b p d l # path)
           else exact_loop addr bitlen l (Crumb False b p d r # path)
      else Some (Node b p l r d, path))"

definition patricia_search_exact :: "'d patricia_node \<Rightarrow> prefix \<Rightarrow> 'd place option" where
  "patricia_search_exact head pfx =
     (case exact_loop (px_add pfx) (px_bitlen pfx) head [] of
        None \<Rightarrow> None
      | Some (node, path) \<Rightarrow>
          (case node_prefix node of
             None \<Rightarrow> None
           | Some p \<Rightarrow>
               if node_bit node > px_bitlen pfx then None
               else if comp_with_mask (px_add p) (px_add pfx) (px_bitlen pfx) then Some (node, path)
               else None))"

fun best_loop :: "bytes \<Rightarrow> nat \<Rightarrow> 'd patricia_node \<Rightarrow> 'd crumb list \<Rightarrow> 'd place list \<Rightarrow> 'd place option \<times> 'd place list" where
  "best_loop addr bitlen Null path stack = (None, stack)"
| "best_loop addr bitlen (Node b p l r d) path stack =
     (if b < bitlen
      then let stack1 = (if p \<noteq> None then (Node b p l r d, path) # stack else stack) in
        if addr_bit addr b
        then best_loop addr bitlen r (Crumb True b p d l # path) stack1
        else best_loop addr bitlen l (Crumb False b p d r # path) stack1
      else (Some (Node b p l r d, path), stack))"

definition patricia_search_best2 :: "'d patricia_node \<Rightarrow> prefix \<Rightarrow> bool \<Rightarrow> 'd place option" where
  "patricia_search_best2 head pfx inclusive =
     (case best_loop (px_add pfx) (px_bitlen pfx) head [] [] of
        (final_node, stack) \<Rightarrow>
          let stack1 = (case final_node of
                          Some (node, path) \<Rightarrow> if inclusive \<and> node_prefix node \<noteq> None then (node, path) # stack else stack
                        | None \<Rightarrow> stack)
          in List.find (\<lambda>(node, path). case node_prefix node of
                 Some p \<Rightarrow> comp_with_mask (px_add p) (px_add pfx) (px_bitlen p) | None \<Rightarrow> False) stack1)"

subsection \<open>Insertion\<close>

text \<open>The loop that goes down to a node with a prefix.\<close>

fun lookup_loop :: "nat \<Rightarrow> bytes \<Rightarrow> nat \<Rightarrow> 'd patricia_node \<Rightarrow> 'd crumb list \<Rightarrow> 'd place option" where
  "lookup_loop maxbits addr bitlen Null path = None"
| "lookup_loop maxbits addr bitlen (Node b p l r d) path =
     (if b < bitlen \<or> p = None
      then if b < maxbits \<and> addr_bit addr b
           then if r = Null then Some (Node b p l r d, path)
                else lookup_loop maxbits addr bitlen r (Crumb True b p d l # path)
           else if l = Null then Some (Node b p l r d, path)
                else lookup_loop maxbits addr bitlen l (Crumb False b p d r # path)
      else Some (Node b p l r d, path))"

text \<open>The first bit that is different: the loop over the bits of a byte, the loop over the bytes.\<close>

function differ_in_byte :: "u8 \<Rightarrow> nat \<Rightarrow> nat" where
  "differ_in_byte r j = (if j \<ge> 8 then 8 else if BIT_TEST r (drop_bit j 0x80) then j else differ_in_byte r (Suc j))"
  by pat_completeness auto

termination
  by (relation "measure (\<lambda>(r, j). 8 - j)") auto

function differ_loop :: "bytes \<Rightarrow> bytes \<Rightarrow> nat \<Rightarrow> nat \<Rightarrow> nat \<Rightarrow> nat" where
  "differ_loop addr test_addr check_bit i differ_bit =
     (if i * 8 < check_bit
      then let r = (addr ! i) XOR (test_addr ! i) in
        if r = 0 then differ_loop addr test_addr check_bit (Suc i) ((i + 1) * 8)
        else i * 8 + differ_in_byte r 0
      else differ_bit)"
  by pat_completeness auto

termination
  by (relation "measure (\<lambda>(addr, test_addr, check_bit, i, _). check_bit - i)") auto

declare differ_in_byte.simps [simp del] differ_loop.simps [simp del]

definition differ_bit :: "bytes \<Rightarrow> bytes \<Rightarrow> nat \<Rightarrow> nat" where
  "differ_bit addr test_addr check_bit = min check_bit (differ_loop addr test_addr check_bit 0 0)"

text \<open>The loop that goes up.\<close>

fun climb :: "nat \<Rightarrow> 'd patricia_node \<Rightarrow> 'd crumb list \<Rightarrow> 'd place" where
  "climb differ node [] = (node, [])"
| "climb differ node (c # path) = (if cr_bit c \<ge> differ then climb differ (up node c) path else (node, c # path))"

text \<open>The place that is returned has the prefix; it is in the changed tree.\<close>

definition patricia_lookup :: "nat \<Rightarrow> 'd patricia_node \<Rightarrow> prefix \<Rightarrow> 'd place option" where
  "patricia_lookup maxbits head pfx =
     (let bitlen = px_bitlen pfx; addr = px_add pfx;
          new_node = (\<lambda>l r. Node bitlen (Some pfx) l r None)
      in if head = Null then Some (new_node Null Null, [])
         else (case lookup_loop maxbits addr bitlen head [] of
           None \<Rightarrow> None
         | Some (stop, stop_path) \<Rightarrow>
             (case node_prefix stop of
                None \<Rightarrow> None
              | Some test \<Rightarrow>
                  let test_addr = px_add test;
                      differ = differ_bit addr test_addr (min (node_bit stop) bitlen)
                  in (case climb differ stop stop_path of
                        (Null, _) \<Rightarrow> None
                      | (Node b p l r d, path) \<Rightarrow>
                          if differ = bitlen \<and> b = bitlen
                          then if p \<noteq> None then Some (Node b p l r d, path)
                               else if d \<noteq> None then None
                               else Some (Node b (Some pfx) l r d, path)
                          else if b = differ
                          then if b < maxbits \<and> addr_bit addr b
                               then if r \<noteq> Null then None
                                    else Some (new_node Null Null, Crumb True b p d l # path)
                               else if l \<noteq> Null then None
                                    else Some (new_node Null Null, Crumb False b p d r # path)
                          else if bitlen = differ
                          then if bitlen < maxbits \<and> addr_bit test_addr bitlen
                               then Some (new_node Null (Node b p l r d), path)
                               else Some (new_node (Node b p l r d) Null, path)
                          else if differ < maxbits \<and> addr_bit addr differ
                          then Some (new_node Null Null, Crumb True differ None None (Node b p l r d) # path)
                          else Some (new_node Null Null, Crumb False differ None None (Node b p l r d) # path)))))"

subsection \<open>Removal\<close>

text \<open>The new head.\<close>

definition patricia_remove :: "'d place \<Rightarrow> 'd patricia_node option" where
  "patricia_remove pl =
     (case pl of
        (Null, _) \<Rightarrow> None
      | (Node b p l r d, path) \<Rightarrow>
          if l \<noteq> Null \<and> r \<noteq> Null then Some (plug (Node b None l r None) path)
          else if l = Null \<and> r = Null
          then (case path of
                  [] \<Rightarrow> Some Null
                | Crumb rt pb pp pd child # ppath \<Rightarrow>
                    if pp \<noteq> None then Some (plug (up Null (Crumb rt pb pp pd child)) ppath)
                    else if child = Null then None
                    else Some (plug child ppath))
          else Some (plug (if r \<noteq> Null then r else l) path))"

subsection \<open>Bits of addresses\<close>

lemma less_8_cases: "n < 8 \<Longrightarrow> n = 0 \<or> n = 1 \<or> n = 2 \<or> n = 3 \<or> n = 4 \<or> n = 5 \<or> n = 6 \<or> n = (7 :: nat)"
  by linarith

lemma drop_bit_128:
  assumes "j < 8"
  shows "drop_bit j (0x80 :: u8) = push_bit (7 - j) 1"
  using less_8_cases [OF assms] by (elim disjE) simp_all

lemma BIT_TEST_bit: "j < 8 \<Longrightarrow> BIT_TEST x (drop_bit j 0x80) = bit x (7 - j)"
  by (simp only: BIT_TEST_def drop_bit_128 bit_iff_and_push_bit_not_eq_0)

lemma addr_bit_eq: "addr_bit addr i = bit (addr ! (i div 8)) (7 - i mod 8)"
  by (simp add: addr_bit_def BIT_TEST_bit)

text \<open>Two bytes with the same bits.\<close>

lemma byte_eq_iff: "x = (y :: u8) \<longleftrightarrow> (\<forall>j < 8. bit x (7 - j) = bit y (7 - j))"
proof
  assume eq: "\<forall>j < 8. bit x (7 - j) = bit y (7 - j)"
  have "bit x n = bit y n" if "n < 8" for n
    using eq [rule_format, of "7 - n"] that by simp
  then show "x = y" by (simp add: bit_eq_iff)
qed simp

lemma masked_byte_eq_iff:
  assumes "0 < r" "r < 8"
  shows "x AND push_bit (8 - r) (- 1) = (y :: u8) AND push_bit (8 - r) (- 1) \<longleftrightarrow>
    (\<forall>j < r. bit x (7 - j) = bit y (7 - j))"
proof -
  have "bit (z AND push_bit (8 - r) (- 1)) (7 - j) = (j < r \<and> bit z (7 - j))" if "j < 8" for j and z :: u8
    using that assms by (auto simp: bit_simps)
  then have "x AND push_bit (8 - r) (- 1) = y AND push_bit (8 - r) (- 1) \<longleftrightarrow>
      (\<forall>j < 8. (j < r \<and> bit x (7 - j)) = (j < r \<and> bit y (7 - j)))"
    unfolding byte_eq_iff by metis
  also have "\<dots> \<longleftrightarrow> (\<forall>j < r. bit x (7 - j) = bit y (7 - j))"
    using assms(2) by (meson less_trans)
  finally show ?thesis .
qed

lemma take_eq_iff_nth:
  "length xs = length ys \<Longrightarrow> take n xs = take n ys \<longleftrightarrow> (\<forall>i < min n (length xs). xs ! i = ys ! i)"
  by (auto simp: list_eq_iff_nth_eq)

lemma all_less_add: "(\<forall>i < a + b. P i) \<longleftrightarrow> (\<forall>i < a. P i) \<and> (\<forall>j < (b :: nat). P (a + j))"
proof (intro iffI conjI allI impI)
  fix i assume P: "(\<forall>i < a. P i) \<and> (\<forall>j < b. P (a + j))" and "i < a + b"
  then show "P i" by (cases "i < a") (auto dest: spec [of _ "i - a"])
qed auto

lemma comp_with_mask_iff:
  assumes "msk \<le> 8 * length addr" "msk \<le> 8 * length dest"
  shows "comp_with_mask addr dest msk \<longleftrightarrow> (\<forall>i < msk. addr_bit addr i = addr_bit dest i)"
proof -
  let ?n = "msk div 8" and ?r = "msk mod 8"
  have "take ?n addr = take ?n dest \<longleftrightarrow> (\<forall>i < ?n. addr ! i = dest ! i)"
    using assms by (auto simp: list_eq_iff_nth_eq min_def)
  also have "\<dots> \<longleftrightarrow> (\<forall>i < ?n * 8. addr_bit addr i = addr_bit dest i)"
  proof
    assume "\<forall>i < ?n. addr ! i = dest ! i"
    then show "\<forall>i < ?n * 8. addr_bit addr i = addr_bit dest i"
      by (simp add: addr_bit_eq less_mult_imp_div_less)
  next
    assume eq: "\<forall>i < ?n * 8. addr_bit addr i = addr_bit dest i"
    have "bit (addr ! i) (7 - j) = bit (dest ! i) (7 - j)" if "i < ?n" "j < 8" for i j
    proof -
      have "i * 8 + j < ?n * 8" using that by linarith
      then show ?thesis using eq that(2) by (auto simp: addr_bit_eq dest!: spec [of _ "i * 8 + j"])
    qed
    then show "\<forall>i < ?n. addr ! i = dest ! i" by (simp add: byte_eq_iff)
  qed
  finally have bytes: "take ?n addr = take ?n dest \<longleftrightarrow> (\<forall>i < ?n * 8. addr_bit addr i = addr_bit dest i)" .
  have rest: "(?r = 0 \<or> (addr ! ?n) AND push_bit (8 - ?r) (- 1) = (dest ! ?n) AND push_bit (8 - ?r) (- 1)) \<longleftrightarrow>
      (\<forall>j < ?r. addr_bit addr (?n * 8 + j) = addr_bit dest (?n * 8 + j))"
    using masked_byte_eq_iff [of ?r "addr ! ?n" "dest ! ?n"] by (auto simp: addr_bit_eq)
  have split: "(\<forall>i < msk. P i) \<longleftrightarrow> (\<forall>i < ?n * 8. P i) \<and> (\<forall>j < ?r. P (?n * 8 + j))" for P
    using all_less_add [of "?n * 8" ?r P] by simp
  show ?thesis
    unfolding comp_with_mask_def Let_def bytes rest split ..
qed

lemma differ_in_byte_spec:
  assumes "\<forall>i < j. \<not> bit r (7 - i)" "r \<noteq> 0" "j \<le> 8"
  shows "differ_in_byte r j < 8 \<and> bit r (7 - differ_in_byte r j) \<and> (\<forall>i < differ_in_byte r j. \<not> bit r (7 - i))"
  using assms
proof (induction r j rule: differ_in_byte.induct)
  case (1 r j)
  show ?case
  proof (cases "j = 8")
    case True
    then have "r = 0" using 1(2) by (subst byte_eq_iff) simp
    with 1(3) show ?thesis by simp
  next
    case False
    then have j: "j < 8" "\<not> j \<ge> 8" using 1(4) by simp_all
    show ?thesis
    proof (cases "bit r (7 - j)")
      case True
      then have "differ_in_byte r j = j" using j by (simp add: differ_in_byte.simps [of r j] BIT_TEST_bit)
      with True j 1(2) show ?thesis by simp
    next
      case False
      with 1(2) have "\<forall>i < Suc j. \<not> bit r (7 - i)" by (simp add: less_Suc_eq)
      then have "differ_in_byte r (Suc j) < 8 \<and> bit r (7 - differ_in_byte r (Suc j)) \<and>
          (\<forall>i < differ_in_byte r (Suc j). \<not> bit r (7 - i))"
        using j False by (intro 1(1)) (simp_all add: BIT_TEST_bit 1(3))
      moreover have "differ_in_byte r j = differ_in_byte r (Suc j)"
        using False j by (simp add: differ_in_byte.simps [of r j] BIT_TEST_bit)
      ultimately show ?thesis by simp
    qed
  qed
qed

lemma differ_loop_spec:
  assumes "\<forall>k < i * 8. addr_bit a k = addr_bit b k"
  shows "(\<forall>k < min chk (differ_loop a b chk i (i * 8)). addr_bit a k = addr_bit b k) \<and>
    (differ_loop a b chk i (i * 8) < chk \<longrightarrow>
       addr_bit a (differ_loop a b chk i (i * 8)) \<noteq> addr_bit b (differ_loop a b chk i (i * 8)))"
  using assms
proof (induction "chk - i" arbitrary: i rule: less_induct)
  case less
  show ?case
  proof (cases "i * 8 < chk")
    case True
    show ?thesis
    proof (cases "a ! i = b ! i")
      case eq: True
      have "addr_bit a k = addr_bit b k" if "k < Suc i * 8" for k
      proof (cases "k < i * 8")
        case False
        then have "k div 8 = i" using that by simp
        with eq show ?thesis by (simp add: addr_bit_eq)
      qed (use less.prems in simp)
      moreover have "chk - Suc i < chk - i" using True by simp
      ultimately show ?thesis
        using less.hyps [of "Suc i"] True eq by (subst (1 2 3 4) differ_loop.simps) (simp add: Let_def add.commute)
    next
      case ne: False
      let ?r = "a ! i XOR b ! i"
      let ?d = "differ_in_byte ?r 0"
      have r: "?r \<noteq> 0" using ne by (auto simp: bit_eq_iff bit_simps)
      have d: "?d < 8" "bit ?r (7 - ?d)" "\<And>j. j < ?d \<Longrightarrow> \<not> bit ?r (7 - j)"
        using differ_in_byte_spec [of 0 ?r] r by auto
      have loop: "differ_loop a b chk i (i * 8) = i * 8 + ?d"
        using True r by (subst differ_loop.simps) (simp add: Let_def)
      have "addr_bit a (i * 8 + j) = addr_bit b (i * 8 + j) \<longleftrightarrow> \<not> bit ?r (7 - j)" if "j < 8" for j
        using that by (simp add: addr_bit_eq bit_xor_iff)
      with d have "addr_bit a (i * 8 + ?d) \<noteq> addr_bit b (i * 8 + ?d)"
        "\<And>j. j < ?d \<Longrightarrow> addr_bit a (i * 8 + j) = addr_bit b (i * 8 + j)" by auto
      moreover have "addr_bit a k = addr_bit b k" if "k < i * 8 + ?d" for k
        using that less.prems calculation(2) [of "k - i * 8"] by (cases "k < i * 8") auto
      ultimately show ?thesis unfolding loop by simp
    qed
  next
    case False
    with less.prems show ?thesis by (subst (1 2 3 4) differ_loop.simps) simp
  qed
qed

text \<open>What the search for the first different bit computes.\<close>

lemma differ_bit_spec:
  "differ_bit a b chk \<le> chk" "\<forall>k < differ_bit a b chk. addr_bit a k = addr_bit b k"
  "differ_bit a b chk < chk \<Longrightarrow> addr_bit a (differ_bit a b chk) \<noteq> addr_bit b (differ_bit a b chk)"
  using differ_loop_spec [of 0 a b chk] by (auto simp: differ_bit_def min_def split: if_splits)

subsection \<open>The invariant\<close>

text \<open>The bits of a prefix, and the entries of a tree: the nodes that have a prefix, with their data.\<close>

definition pkey :: "prefix \<Rightarrow> bool list" where
  "pkey p = map (addr_bit (px_add p)) [0..<px_bitlen p]"

definition own :: "prefix option \<Rightarrow> 'd option \<Rightarrow> (bool list \<times> 'd option) set" where
  "own p d = (case p of None \<Rightarrow> {} | Some q \<Rightarrow> {(pkey q, d)})"

fun pents :: "'d patricia_node \<Rightarrow> (bool list \<times> 'd option) set" where
  "pents Null = {}"
| "pents (Node b p l r d) = own p d \<union> pents l \<union> pents r"

definition okeys :: "prefix option \<Rightarrow> bool list set" where
  "okeys p = (case p of None \<Rightarrow> {} | Some q \<Rightarrow> {pkey q})"

lemma fst_own [simp]: "fst ` own p d = okeys p"
  by (simp add: own_def okeys_def split: option.split)

definition pkeys :: "'d patricia_node \<Rightarrow> bool list set" where
  "pkeys t = fst ` pents t"

lemma pkeys_simps [simp]:
  "pkeys Null = {}" "pkeys (Node b p l r d) = okeys p \<union> pkeys l \<union> pkeys r"
  by (simp_all add: pkeys_def image_Un)

lemma pkeysI: "(k, x) \<in> pents t \<Longrightarrow> k \<in> pkeys t"
  by (force simp: pkeys_def)

lemma pkeysE: "k \<in> pkeys t \<Longrightarrow> \<exists>x. (k, x) \<in> pents t"
  by (force simp: pkeys_def)

definition agree :: "nat \<Rightarrow> bool list set \<Rightarrow> bool" where
  "agree b K \<longleftrightarrow> (\<forall>k \<in> K. \<forall>k' \<in> K. take b k = take b k')"

definition side :: "nat \<Rightarrow> bool \<Rightarrow> bool list set \<Rightarrow> bool" where
  "side b rt K \<longleftrightarrow> (\<forall>k \<in> K. b < length k \<and> k ! b = rt)"

text \<open>The prefix of a node has as many bits as the node says; a node without one has two children.\<close>

definition prefix_ok :: "nat \<Rightarrow> nat \<Rightarrow> prefix option \<Rightarrow> 'd option \<Rightarrow> bool \<Rightarrow> bool" where
  "prefix_ok M b p d two \<longleftrightarrow>
     (case p of Some q \<Rightarrow> px_bitlen q = b \<and> M \<le> 8 * length (px_add q) | None \<Rightarrow> two \<and> d = None)"

definition below :: "nat \<Rightarrow> 'd patricia_node \<Rightarrow> bool" where
  "below b n \<longleftrightarrow> n \<noteq> Null \<longrightarrow> b < node_bit n"

fun pwf :: "nat \<Rightarrow> 'd patricia_node \<Rightarrow> bool" where
  "pwf M Null \<longleftrightarrow> True"
| "pwf M (Node b p l r d) \<longleftrightarrow>
     b \<le> M \<and> prefix_ok M b p d (l \<noteq> Null \<and> r \<noteq> Null) \<and> below b l \<and> below b r \<and>
     side b False (pkeys l) \<and> side b True (pkeys r) \<and> agree b (pkeys (Node b p l r d)) \<and> pwf M l \<and> pwf M r"

text \<open>The same for a path: \<^term>\<open>B\<close> is the bit of the node at its end, \<^term>\<open>K\<close> the keys of the subtree there.\<close>

fun pathwf :: "nat \<Rightarrow> nat \<Rightarrow> bool list set \<Rightarrow> 'd crumb list \<Rightarrow> bool" where
  "pathwf M B K [] \<longleftrightarrow> True"
| "pathwf M B K (Crumb rt b p d other # path) \<longleftrightarrow>
     b \<le> M \<and> b < B \<and> prefix_ok M b p d (other \<noteq> Null) \<and> below b other \<and> pwf M other \<and>
     side b rt K \<and> side b (\<not> rt) (pkeys other) \<and> agree b (K \<union> pkeys other \<union> okeys p) \<and>
     pathwf M b (K \<union> pkeys other \<union> okeys p) path"

fun path_ents :: "'d crumb list \<Rightarrow> (bool list \<times> 'd option) set" where
  "path_ents [] = {}"
| "path_ents (Crumb rt b p d other # path) = own p d \<union> pents other \<union> path_ents path"

lemma pkeys_up: "pkeys (up n (Crumb rt b p d other)) = pkeys n \<union> pkeys other \<union> okeys p"
  by auto

lemma pents_up: "pents (up n (Crumb rt b p d other)) = pents n \<union> (own p d \<union> pents other)"
  by auto

lemma pents_plug: "pents (plug n path) = pents n \<union> path_ents path"
proof (induction path arbitrary: n)
  case (Cons c path)
  then show ?case by (cases c) auto
qed simp

lemma pwf_up:
  "n \<noteq> Null \<Longrightarrow> pwf M (up n (Crumb rt b p d other)) \<longleftrightarrow>
    pwf M n \<and> pathwf M (node_bit n) (pkeys n) [Crumb rt b p d other]"
  by (auto simp: below_def Un_ac)

lemma up_not_Null [simp]: "up n c \<noteq> Null" "node_bit (up n c) = cr_bit c"
  by (cases c; simp)+

lemma pwf_plug: "n \<noteq> Null \<Longrightarrow> pwf M (plug n path) \<longleftrightarrow> pwf M n \<and> pathwf M (node_bit n) (pkeys n) path"
proof (induction path arbitrary: n)
  case (Cons c path)
  obtain rt b p d other where c: "c = Crumb rt b p d other" by (cases c)
  have "pwf M (plug (up n c) path) \<longleftrightarrow> pwf M (up n c) \<and> pathwf M (node_bit (up n c)) (pkeys (up n c)) path"
    by (rule Cons.IH) simp
  with Cons.prems show ?case unfolding c pwf_up [OF Cons.prems] pkeys_up by simp
qed simp

lemma pents_nonempty: "pwf M n \<Longrightarrow> n \<noteq> Null \<Longrightarrow> pents n \<noteq> {}"
  by (induction n) (auto simp: prefix_ok_def own_def split: option.splits)

lemma length_pkey [simp]: "length (pkey p) = px_bitlen p"
  by (simp add: pkey_def)

lemma agreeD: "agree b K \<Longrightarrow> k \<in> K \<Longrightarrow> k' \<in> K \<Longrightarrow> take b k = take b k'"
  unfolding agree_def by blast

lemma agree_mono: "agree b K \<Longrightarrow> K' \<subseteq> K \<Longrightarrow> agree b K'"
  unfolding agree_def by blast

lemma agree_insert: "agree b K \<Longrightarrow> k0 \<in> K \<Longrightarrow> take b k = take b k0 \<Longrightarrow> agree b (insert k K)"
  unfolding agree_def by (metis insert_iff)

lemma side_mono: "side b rt K \<Longrightarrow> K' \<subseteq> K \<Longrightarrow> side b rt K'"
  unfolding side_def by blast

lemma sideD: "side b rt K \<Longrightarrow> k \<in> K \<Longrightarrow> b < length k \<and> k ! b = rt"
  by (simp add: side_def)

lemma side_disjoint: "side b rt K \<Longrightarrow> side b (\<not> rt) K' \<Longrightarrow> k \<in> K \<Longrightarrow> k \<notin> K'"
  using sideD by blast

lemma side_okeys: "side b rt K \<Longrightarrow> prefix_ok M b p d two \<Longrightarrow> k \<in> K \<Longrightarrow> k \<notin> okeys p"
  using sideD [of b rt K k] by (auto simp: prefix_ok_def okeys_def split: option.splits)

text \<open>A subtree may be replaced by one with fewer keys, or by one with a key that has the bits which the
  path asks for.\<close>

definition path_above :: "nat \<Rightarrow> 'd crumb list \<Rightarrow> bool" where
  "path_above B path \<longleftrightarrow> path = [] \<or> cr_bit (hd path) < B"

lemma pathwf_above: "pathwf M B K path \<Longrightarrow> path_above B path"
  by (cases path; cases "hd path") (auto simp: path_above_def)

lemma pathwf_subset:
  "pathwf M B K path \<Longrightarrow> K' \<subseteq> K \<Longrightarrow> path_above B' path \<Longrightarrow> pathwf M B' K' path"
proof (induction path arbitrary: B K B' K')
  case (Cons c path)
  obtain rt b p d other where c: "c = Crumb rt b p d other" by (cases c)
  have sub: "K' \<union> pkeys other \<union> okeys p \<subseteq> K \<union> pkeys other \<union> okeys p" using Cons.prems(2) by blast
  have "pathwf M b (K \<union> pkeys other \<union> okeys p) path" using Cons.prems(1) c by simp
  moreover from this have "path_above b path" by (rule pathwf_above)
  ultimately have "pathwf M b (K' \<union> pkeys other \<union> okeys p) path" using Cons.IH sub by blast
  then show ?case
    using Cons.prems c agree_mono [OF _ sub] side_mono [OF _ Cons.prems(2)] by (auto simp: path_above_def)
qed simp

lemma pathwf_bits: "pathwf M B K path \<Longrightarrow> c \<in> set path \<Longrightarrow> cr_bit c < B"
proof (induction path arbitrary: B K)
  case (Cons c' path)
  then show ?case by (cases c') (auto dest: less_trans)
qed simp

lemma take_eq_nth:
  assumes "take e k = take e k'" "b < e" "b < length k" "b < length k'"
  shows "k ! b = k' ! b"
  using assms by (metis nth_take)

lemma take_eq_shorter: "take e k = take e k' \<Longrightarrow> b \<le> e \<Longrightarrow> take b k = take b k'"
  by (metis min.absorb1 take_take)

lemma pathwf_insert:
  assumes "pathwf M B K path" "k0 \<in> K" "take e k = take e k0" "e \<le> length k" "\<forall>c \<in> set path. cr_bit c < e"
    "path_above B' path"
  shows "pathwf M B' (insert k K) path"
  using assms
proof (induction path arbitrary: B K B')
  case (Cons c path)
  obtain rt b p d other where c: "c = Crumb rt b p d other" by (cases c)
  let ?K = "K \<union> pkeys other \<union> okeys p"
  have wf: "pathwf M b ?K path" "side b rt K" "agree b ?K" using Cons.prems(1) c by simp_all
  have b: "b < e" using Cons.prems(5) c by simp
  have "pathwf M b (insert k ?K) path"
    using Cons.IH [OF wf(1) _ Cons.prems(3,4) _ pathwf_above [OF wf(1)]] Cons.prems(2,5) by simp
  moreover have "b < length k0" "k0 ! b = rt" using wf(2) Cons.prems(2) by (auto simp: side_def)
  then have "k ! b = rt" using take_eq_nth [OF Cons.prems(3) b] b Cons.prems(4) by simp
  then have "side b rt (insert k K)" using wf(2) b Cons.prems(4) by (simp add: side_def)
  moreover have "take b k = take b k0" using take_eq_shorter [OF Cons.prems(3)] b by simp
  with wf(3) have "agree b (insert k ?K)" using Cons.prems(2) by (intro agree_insert [of b ?K k0]) simp_all
  ultimately show ?case using Cons.prems(1,6) c by (simp add: path_above_def)
qed simp

lemma path_disjoint: "pathwf M B K path \<Longrightarrow> k \<in> K \<Longrightarrow> k \<notin> fst ` path_ents path"
proof (induction path arbitrary: B K)
  case (Cons c path)
  obtain rt b p d other where c: "c = Crumb rt b p d other" by (cases c)
  have wf: "pathwf M b (K \<union> pkeys other \<union> okeys p) path" "side b rt K" "side b (\<not> rt) (pkeys other)"
      "prefix_ok M b p d (other \<noteq> Null)"
    using Cons.prems(1) c by simp_all
  have "k \<notin> fst ` path_ents path" using Cons.IH [OF wf(1)] Cons.prems(2) by blast
  moreover have "k \<notin> pkeys other" by (rule side_disjoint [OF wf(2,3) Cons.prems(2)])
  moreover have "k \<notin> okeys p" by (rule side_okeys [OF wf(2,4) Cons.prems(2)])
  ultimately show ?case using c by (simp add: image_Un pkeys_def)
qed simp

lemma own_disjoint:
  assumes "pwf M (Node b p l r d)" "k \<in> okeys p"
  shows "k \<notin> pkeys l \<and> k \<notin> pkeys r"
  using assms side_okeys unfolding pwf.simps by metis

lemma children_disjoint:
  assumes "pwf M (Node b p l r d)" "k \<in> pkeys l"
  shows "k \<notin> pkeys r"
  using assms side_disjoint [of b False "pkeys l" "pkeys r"] by auto

lemma own_iff: "(k, x) \<in> own p d \<longleftrightarrow> k \<in> okeys p \<and> x = d"
  by (auto simp: own_def okeys_def split: option.splits)

lemma pents_unique: "pwf M t \<Longrightarrow> (k, x) \<in> pents t \<Longrightarrow> (k, y) \<in> pents t \<Longrightarrow> x = y"
proof (induction t)
  case (Node b p l r d)
  have "pwf M l" "pwf M r" using Node.prems(1) by simp_all
  with Node.IH Node.prems(2,3) own_disjoint [OF Node.prems(1), of k] children_disjoint [OF Node.prems(1), of k]
  show ?case by (simp only: pents.simps Un_iff own_iff) (use pkeysI in blast)
qed simp

subsection \<open>Insertion is correct\<close>

text \<open>Where the loop that goes down stops.\<close>

definition stops_at :: "nat \<Rightarrow> bytes \<Rightarrow> nat \<Rightarrow> 'd patricia_node \<Rightarrow> 'd crumb list \<Rightarrow> 'd place \<Rightarrow> bool" where
  "stops_at M addr bl n path pl \<longleftrightarrow>
     (\<exists>ext b q l r d. pl = (Node b (Some q) l r d, ext @ path) \<and>
       plug (Node b (Some q) l r d) (ext @ path) = plug n path \<and>
       (\<forall>c \<in> set ext. cr_right c = (cr_bit c < M \<and> addr_bit addr (cr_bit c))) \<and>
       (b < bl \<longrightarrow> (if b < M \<and> addr_bit addr b then r else l) = Null))"

lemma stops_at_child:
  assumes "stops_at M addr bl child (crumb # path) pl" "plug child (crumb # path) = plug n path"
    "cr_right crumb = (cr_bit crumb < M \<and> addr_bit addr (cr_bit crumb))"
  shows "stops_at M addr bl n path pl"
proof -
  obtain ext b q l r d where pl: "pl = (Node b (Some q) l r d, ext @ crumb # path)"
      "plug (Node b (Some q) l r d) (ext @ crumb # path) = plug child (crumb # path)"
      "\<forall>c \<in> set ext. cr_right c = (cr_bit c < M \<and> addr_bit addr (cr_bit c))"
      "b < bl \<longrightarrow> (if b < M \<and> addr_bit addr b then r else l) = Null"
    using assms(1) unfolding stops_at_def by blast
  have "pl = (Node b (Some q) l r d, (ext @ [crumb]) @ path)" using pl(1) by simp
  moreover have "plug (Node b (Some q) l r d) ((ext @ [crumb]) @ path) = plug n path" using pl(2) assms(2) by simp
  moreover have "\<forall>c \<in> set (ext @ [crumb]). cr_right c = (cr_bit c < M \<and> addr_bit addr (cr_bit c))"
    using pl(3) assms(3) by simp
  ultimately show ?thesis using pl(4) unfolding stops_at_def by blast
qed

lemma lookup_loop_props:
  "pwf M n \<Longrightarrow> n \<noteq> Null \<Longrightarrow> \<exists>pl. lookup_loop M addr bl n path = Some pl \<and> stops_at M addr bl n path pl"
proof (induction n arbitrary: path)
  case (Node b p l r d)
  define dir where "dir \<longleftrightarrow> b < M \<and> addr_bit addr b"
  define child where "child = (if dir then r else l)"
  define crumb where "crumb = Crumb dir b p d (if dir then l else r)"
  have wf: "pwf M child" "p = None \<Longrightarrow> child \<noteq> Null"
    using Node.prems(1) by (auto simp: child_def prefix_ok_def)
  show ?case
  proof (cases "(b < bl \<or> p = None) \<and> child \<noteq> Null")
    case True
    obtain pl where "lookup_loop M addr bl child (crumb # path) = Some pl"
        "stops_at M addr bl child (crumb # path) pl"
      using True wf(1) Node.IH [where path = "crumb # path"] unfolding child_def by metis
    moreover have "lookup_loop M addr bl (Node b p l r d) path = lookup_loop M addr bl child (crumb # path)"
      using True by (auto simp: child_def crumb_def dir_def)
    moreover have "plug child (crumb # path) = plug (Node b p l r d) path"
      by (simp add: child_def crumb_def)
    moreover have "cr_right crumb = (cr_bit crumb < M \<and> addr_bit addr (cr_bit crumb))"
      by (simp add: crumb_def dir_def)
    ultimately show ?thesis using stops_at_child by metis
  next
    case False
    then obtain q where q: "p = Some q" using wf(2) by auto
    have "lookup_loop M addr bl (Node b p l r d) path = Some (Node b p l r d, path)"
      using False q by (auto simp: child_def dir_def split: if_splits)
    moreover have "b < bl \<longrightarrow> (if b < M \<and> addr_bit addr b then r else l) = Null"
      using False by (auto simp: child_def dir_def)
    ultimately show ?thesis unfolding q stops_at_def by fastforce
  qed
qed simp

lemma climb_props:
  assumes "climb e n path = (n', path')" "n \<noteq> Null"
  shows "\<exists>pre. path = pre @ path' \<and> (\<forall>c \<in> set pre. e \<le> cr_bit c) \<and> path_above e path' \<and>
    plug n' path' = plug n path \<and> pkeys n \<subseteq> pkeys n' \<and> n' \<noteq> Null \<and>
    (pre = [] \<longrightarrow> n' = n) \<and> (pre \<noteq> [] \<longrightarrow> (\<exists>m. n' = up m (last pre) \<and> pkeys n \<subseteq> pkeys m))"
  using assms
proof (induction e n path arbitrary: n' path' rule: climb.induct)
  case (2 e n c path)
  show ?case
  proof (cases "e \<le> cr_bit c")
    case True
    then have "climb e (up n c) path = (n', path')" using "2.prems"(1) by simp
    from "2.IH" [OF True this] obtain pre where pre: "path = pre @ path'" "\<forall>c \<in> set pre. e \<le> cr_bit c" "path_above e path'"
      "plug n' path' = plug (up n c) path" "pkeys (up n c) \<subseteq> pkeys n'" "n' \<noteq> Null"
      "pre = [] \<longrightarrow> n' = up n c" "pre \<noteq> [] \<longrightarrow> (\<exists>m. n' = up m (last pre) \<and> pkeys (up n c) \<subseteq> pkeys m)" by auto
    have sub: "pkeys n \<subseteq> pkeys (up n c)" by (cases c) auto
    show ?thesis
    proof (intro exI [of _ "c # pre"] conjI)
      show "c # pre \<noteq> [] \<longrightarrow> (\<exists>m. n' = up m (last (c # pre)) \<and> pkeys n \<subseteq> pkeys m)"
      proof (cases "pre = []")
        case False
        then obtain m where "n' = up m (last pre)" "pkeys (up n c) \<subseteq> pkeys m" using pre(8) by blast
        moreover have "pkeys n \<subseteq> pkeys m" using sub \<open>pkeys (up n c) \<subseteq> pkeys m\<close> by (rule subset_trans)
        ultimately show ?thesis using False by (intro impI exI [of _ m] conjI) simp_all
      qed (use pre(7) in auto)
    qed (use pre sub True in auto)
  next
    case False
    then show ?thesis using "2.prems" by (intro exI [of _ "[]"]) (auto simp: path_above_def)
  qed
qed (auto simp: path_above_def)

text \<open>The place that an insertion has to return: it has the prefix, its tree is well formed, and the
  entries are those from before and the new one.\<close>

definition inserted :: "nat \<Rightarrow> 'd patricia_node \<Rightarrow> prefix \<Rightarrow> 'd place \<Rightarrow> bool" where
  "inserted M t pfx pl \<longleftrightarrow>
     (\<exists>q l r d path. pl = (Node (px_bitlen pfx) (Some q) l r d, path) \<and> pkey q = pkey pfx \<and>
       pwf M (plug (Node (px_bitlen pfx) (Some q) l r d) path) \<and>
       pents (plug (Node (px_bitlen pfx) (Some q) l r d) path) =
         (if pkey pfx \<in> pkeys t then pents t else insert (pkey pfx, None) (pents t)))"

lemma inserted_new:
  assumes "pwf M (Node (px_bitlen pfx) (Some pfx) l r None)"
    "pathwf M (px_bitlen pfx) (insert (pkey pfx) (pkeys l \<union> pkeys r)) path"
    "pents t = pents l \<union> pents r \<union> path_ents path"
  shows "inserted M t pfx (Node (px_bitlen pfx) (Some pfx) l r None, path)"
proof -
  let ?n = "Node (px_bitlen pfx) (Some pfx) l r None"
  have keys: "pkeys ?n = insert (pkey pfx) (pkeys l \<union> pkeys r)" by (simp add: okeys_def)
  have "pwf M (plug ?n path)" using assms(1,2) keys by (simp add: pwf_plug)
  moreover have "pkey pfx \<notin> pkeys l" "pkey pfx \<notin> pkeys r"
    using own_disjoint [OF assms(1), of "pkey pfx"] by (auto simp: okeys_def)
  moreover have "pkey pfx \<notin> fst ` path_ents path" using path_disjoint [OF assms(2)] by simp
  ultimately show ?thesis
    using assms(3) unfolding inserted_def by (auto simp: pents_plug own_def pkeys_def image_Un)
qed

lemma pkeys_length: "pwf M (Node b p l r d) \<Longrightarrow> k \<in> pkeys (Node b p l r d) \<Longrightarrow> b \<le> length k"
  using sideD [of b False "pkeys l" k] sideD [of b True "pkeys r" k]
  by (auto simp: okeys_def prefix_ok_def split: option.splits)

lemma agree_shorter: "agree b K \<Longrightarrow> e \<le> b \<Longrightarrow> agree e K"
  unfolding agree_def using take_eq_shorter by blast

text \<open>All keys of a node have the same bits before its own.\<close>

lemma side_node:
  assumes "pwf M (Node b p l r d)" "k0 \<in> pkeys (Node b p l r d)" "e < b"
  shows "side e (k0 ! e) (pkeys (Node b p l r d))"
proof -
  have "e < length k \<and> k ! e = k0 ! e" if k: "k \<in> pkeys (Node b p l r d)" for k
  proof -
    have len: "e < length k" "e < length k0"
      using pkeys_length [OF assms(1) k] pkeys_length [OF assms(1,2)] assms(3) by simp_all
    have "take b k = take b k0" using assms(1,2) k unfolding pwf.simps agree_def by blast
    with len take_eq_nth [of b k k0 e] assms(3) show ?thesis by simp
  qed
  then show ?thesis by (simp only: side_def) blast
qed

lemma nth_pkey: "i < px_bitlen p \<Longrightarrow> pkey p ! i = addr_bit (px_add p) i"
  by (simp add: pkey_def)

lemma take_pkey_eq:
  "e \<le> px_bitlen p \<Longrightarrow> e \<le> px_bitlen q \<Longrightarrow>
   take e (pkey p) = take e (pkey q) \<longleftrightarrow> (\<forall>i < e. addr_bit (px_add p) i = addr_bit (px_add q) i)"
  by (auto simp: list_eq_iff_nth_eq nth_pkey)

text \<open>The situation after the loops: the node \<^term>\<open>n\<close> at the place, a key \<^term>\<open>k0\<close> in its subtree, and the
  number \<^term>\<open>e\<close> of bits that the prefix has in common with it.\<close>

definition meets :: "nat \<Rightarrow> 'd patricia_node \<Rightarrow> 'd crumb list \<Rightarrow> prefix \<Rightarrow> bool list \<Rightarrow> nat \<Rightarrow> bool" where
  "meets M n path pfx k0 e \<longleftrightarrow>
     n \<noteq> Null \<and> pwf M n \<and> pathwf M (node_bit n) (pkeys n) path \<and> path_above e path \<and> k0 \<in> pkeys n \<and>
     take e (pkey pfx) = take e k0 \<and> e \<le> px_bitlen pfx \<and> e \<le> node_bit n \<and> px_bitlen pfx \<le> M \<and>
     M \<le> 8 * length (px_add pfx)"

lemma meets_path:
  assumes "meets M n path pfx k0 e" "path_above B path"
  shows "pathwf M B (insert (pkey pfx) (pkeys n)) path"
proof -
  have wf: "pathwf M (node_bit n) (pkeys n) path" and above: "path_above e path" and k0: "k0 \<in> pkeys n"
    and e: "take e (pkey pfx) = take e k0" "e \<le> px_bitlen pfx"
    using assms(1) by (simp_all add: meets_def)
  have "pathwf M e {} path" by (rule pathwf_subset [OF wf _ above]) simp
  then have "\<forall>c \<in> set path. cr_bit c < e" using pathwf_bits by blast
  with e show ?thesis by (intro pathwf_insert [OF wf k0 e(1) _ _ assms(2)]) simp_all
qed

lemma meets_agree:
  assumes "meets M n path pfx k0 e"
  shows "agree e (insert (pkey pfx) (pkeys n))"
proof -
  have "agree (node_bit n) (pkeys n)" using assms by (cases n) (auto simp: meets_def)
  then have "agree e (pkeys n)" using agree_shorter assms by (auto simp: meets_def)
  then show ?thesis using assms by (intro agree_insert) (auto simp: meets_def)
qed

lemma pathwf_mono_bit: "path_above e path \<Longrightarrow> e \<le> B \<Longrightarrow> path_above B path"
  by (auto simp: path_above_def)

lemma insert_glue:
  assumes "meets M (Node b None l r d) path pfx k0 b" "b = px_bitlen pfx" "pents t = pents (plug (Node b None l r d) path)"
  shows "inserted M t pfx (Node b (Some pfx) l r d, path)"
proof -
  have wf: "pwf M (Node b None l r d)" "M \<le> 8 * length (px_add pfx)" "path_above b path"
    using assms(1) by (simp_all add: meets_def)
  have d: "d = None" using wf(1) by (simp add: prefix_ok_def)
  have "pwf M (Node (px_bitlen pfx) (Some pfx) l r None)"
    using wf(1,2) meets_agree [OF assms(1)] assms(2) by (simp add: prefix_ok_def okeys_def)
  moreover have "pathwf M (px_bitlen pfx) (insert (pkey pfx) (pkeys l \<union> pkeys r)) path"
    using meets_path [OF assms(1) wf(3)] assms(2) by (simp add: okeys_def)
  moreover have "pents t = pents l \<union> pents r \<union> path_ents path"
    using assms(3) by (simp add: pents_plug own_def)
  ultimately show ?thesis using inserted_new [of M pfx l r path t] d assms(2) by simp
qed

lemma insert_child:
  assumes "meets M (Node b p l r d) path pfx k0 b" "b < px_bitlen pfx" "rt = addr_bit (px_add pfx) b"
    "(if rt then r else l) = Null" "other = (if rt then l else r)" "pents t = pents (plug (Node b p l r d) path)"
  shows "inserted M t pfx (Node (px_bitlen pfx) (Some pfx) Null Null None, Crumb rt b p d other # path)"
proof -
  have wf: "pwf M (Node b p l r d)" "M \<le> 8 * length (px_add pfx)" "path_above b path" "px_bitlen pfx \<le> M"
    using assms(1) by (simp_all add: meets_def)
  have keys: "pkeys (Node b p l r d) = pkeys other \<union> okeys p" "pents (Node b p l r d) = own p d \<union> pents other"
    using assms(4,5) by (auto split: if_splits)
  have "prefix_ok M b p d (other \<noteq> Null)"
    using wf(1) assms(4) by (cases rt) (auto simp: prefix_ok_def split: option.splits)
  moreover have "below b other" "pwf M other" "side b (\<not> rt) (pkeys other)"
    using wf(1) assms(5) by (auto split: if_splits)
  moreover have "side b rt {pkey pfx}" using assms(2,3) by (simp add: side_def nth_pkey)
  moreover have "agree b (insert (pkey pfx) (pkeys other \<union> okeys p))"
    using meets_agree [OF assms(1)] keys(1) by simp
  moreover have "pathwf M b (insert (pkey pfx) (pkeys other \<union> okeys p)) path"
    using meets_path [OF assms(1) wf(3)] keys(1) by simp
  ultimately have "pathwf M (px_bitlen pfx) {pkey pfx} (Crumb rt b p d other # path)"
    using assms(2) wf(4) by simp
  moreover have "pwf M (Node (px_bitlen pfx) (Some pfx) Null Null None)"
    using wf(2,4) by (simp add: prefix_ok_def below_def side_def agree_def okeys_def)
  moreover have "pents t = path_ents (Crumb rt b p d other # path)"
    using assms(6) keys(2) by (simp add: pents_plug)
  ultimately show ?thesis by (intro inserted_new) simp_all
qed

lemma insert_parent:
  assumes "meets M (Node b p l r d) path pfx k0 e" "e = px_bitlen pfx" "e < b" "rt = k0 ! e"
    "pents t = pents (plug (Node b p l r d) path)"
  shows "inserted M t pfx (Node (px_bitlen pfx) (Some pfx) (if rt then Null else Node b p l r d)
    (if rt then Node b p l r d else Null) None, path)"
proof -
  let ?n = "Node b p l r d"
  have wf: "pwf M ?n" "M \<le> 8 * length (px_add pfx)" "path_above e path" "px_bitlen pfx \<le> M" "k0 \<in> pkeys ?n"
    using assms(1) by (simp_all add: meets_def)
  have side: "side e rt (pkeys ?n)" using side_node [OF wf(1,5) assms(3)] assms(4) by simp
  have agree: "agree e (insert (pkey pfx) (pkeys ?n))" by (rule meets_agree [OF assms(1)])
  have "pwf M (Node (px_bitlen pfx) (Some pfx) (if rt then Null else ?n) (if rt then ?n else Null) None)"
    using wf side agree assms(2,3)
    by (cases rt) (simp_all add: prefix_ok_def below_def side_def okeys_def)
  moreover have "pathwf M e (insert (pkey pfx) (pkeys ?n)) path" by (rule meets_path [OF assms(1) wf(3)])
  ultimately show ?thesis
    using assms(2,5) by (intro inserted_new) (cases rt; auto simp: pents_plug)+
qed

lemma insert_fork:
  assumes "meets M (Node b p l r d) path pfx k0 e" "e < px_bitlen pfx" "e < b" "rt = addr_bit (px_add pfx) e"
    "k0 ! e = (\<not> rt)" "pents t = pents (plug (Node b p l r d) path)"
  shows "inserted M t pfx (Node (px_bitlen pfx) (Some pfx) Null Null None, Crumb rt e None None (Node b p l r d) # path)"
proof -
  let ?n = "Node b p l r d"
  have wf: "pwf M ?n" "M \<le> 8 * length (px_add pfx)" "path_above e path" "px_bitlen pfx \<le> M" "k0 \<in> pkeys ?n"
    using assms(1) by (simp_all add: meets_def)
  have "side e (\<not> rt) (pkeys ?n)" using side_node [OF wf(1,5) assms(3)] assms(5) by simp
  moreover have "side e rt {pkey pfx}" using assms(2,4) by (simp add: side_def nth_pkey)
  moreover have "agree e (insert (pkey pfx) (pkeys ?n))" by (rule meets_agree [OF assms(1)])
  moreover have "pathwf M e (insert (pkey pfx) (pkeys ?n)) path" by (rule meets_path [OF assms(1) wf(3)])
  ultimately have "pathwf M (px_bitlen pfx) {pkey pfx} (Crumb rt e None None ?n # path)"
    using wf(1,4) assms(2,3) by (simp add: prefix_ok_def below_def okeys_def)
  moreover have "pwf M (Node (px_bitlen pfx) (Some pfx) Null Null None)"
    using wf(2,4) by (simp add: prefix_ok_def below_def side_def agree_def okeys_def)
  moreover have "pents t = path_ents (Crumb rt e None None ?n # path)"
    using assms(6) by (simp add: pents_plug own_def)
  ultimately show ?thesis by (intro inserted_new) simp_all
qed

lemma insert_found:
  assumes "meets M (Node b (Some q) l r d) path pfx k0 b" "b = px_bitlen pfx"
    "t = plug (Node b (Some q) l r d) path"
  shows "inserted M t pfx (Node b (Some q) l r d, path)"
proof -
  let ?n = "Node b (Some q) l r d"
  have wf: "pwf M ?n" "pathwf M b (pkeys ?n) path" using assms(1) by (simp_all add: meets_def)
  have "take b (pkey pfx) = take b (pkey q)"
    by (rule agreeD [OF meets_agree [OF assms(1)]]) (simp_all add: okeys_def)
  moreover have "px_bitlen q = b" using wf(1) by (simp add: prefix_ok_def)
  ultimately have key: "pkey q = pkey pfx" using assms(2) by simp
  have "pwf M (plug ?n path)" using wf by (simp add: pwf_plug)
  moreover have "pkey pfx \<in> pkeys t"
    using assms(3) key by (simp add: pkeys_def pents_plug own_def image_Un)
  ultimately show ?thesis
    unfolding inserted_def assms(2) [symmetric] using key assms(3)
    by (intro exI [of _ q] exI [of _ l] exI [of _ r] exI [of _ d] exI [of _ path]) simp
qed

lemma stops_at_head:
  assumes "stops_at M addr bl t [] (s, sp)"
  shows "plug s sp = t \<and> (\<forall>c \<in> set sp. cr_right c = (cr_bit c < M \<and> addr_bit addr (cr_bit c))) \<and>
    (\<exists>b q l r d. s = Node b (Some q) l r d \<and> (b < bl \<longrightarrow> (if b < M \<and> addr_bit addr b then r else l) = Null))"
proof -
  obtain ext b q l r d where "(s, sp) = (Node b (Some q) l r d, ext @ [])"
      "plug (Node b (Some q) l r d) (ext @ []) = plug t []"
      "\<forall>c \<in> set ext. cr_right c = (cr_bit c < M \<and> addr_bit addr (cr_bit c))"
      "b < bl \<longrightarrow> (if b < M \<and> addr_bit addr b then r else l) = Null"
    using assms unfolding stops_at_def by blast
  then show ?thesis by simp
qed

lemma side_up: "pwf M (up m (Crumb rt b p d other)) \<Longrightarrow> side b rt (pkeys m)"
  by (cases rt) simp_all

text \<open>The place where the upward loop ends meets the prefix; if it went up, the bit there is not the
  one where the prefix and the key part.\<close>

lemma climb_stays:
  assumes wf: "pwf M n" and bits: "px_bitlen pfx \<le> M" "px_bitlen q = bs"
    and dirs: "\<forall>c \<in> set pre. cr_right c = (cr_bit c < M \<and> addr_bit (px_add pfx) (cr_bit c))"
    and e: "e = differ_bit (px_add pfx) (px_add q) (min bs (px_bitlen pfx))"
    and up: "pre \<noteq> []" "n = up m (last pre)" "pkey q \<in> pkeys m" and same: "node_bit n = e"
  shows "\<not> e < px_bitlen pfx"
proof
  assume less: "e < px_bitlen pfx"
  obtain rt b p d other where c: "last pre = Crumb rt b p d other" by (cases "last pre")
  have b: "b = e" using same up(2) c by (simp split: if_splits)
  have "side e rt (pkeys m)" using wf side_up unfolding up(2) c b by blast
  from sideD [OF this up(3)] have q: "pkey q ! e = rt" "e < bs" using bits(2) by simp_all
  have "rt = addr_bit (px_add pfx) e"
    using bspec [OF dirs last_in_set [OF up(1)]] c b less bits(1) by simp
  moreover have "addr_bit (px_add pfx) e \<noteq> addr_bit (px_add q) e"
    using differ_bit_spec(3) [of "px_add pfx" "px_add q" "min bs (px_bitlen pfx)"] q(2) less
    unfolding e [symmetric] by simp
  moreover have "pkey q ! e = addr_bit (px_add q) e" using q(2) bits(2) by (simp add: nth_pkey)
  ultimately show False using q(1) by simp
qed

lemma lookup_meets:
  assumes wf: "pwf M t" and bits: "px_bitlen pfx \<le> M" "M \<le> 8 * length (px_add pfx)"
    and stop: "stops_at M (px_add pfx) (px_bitlen pfx) t [] (Node bs (Some q) ls rs ds, sp)"
    and e: "e = differ_bit (px_add pfx) (px_add q) (min bs (px_bitlen pfx))"
    and up: "climb e (Node bs (Some q) ls rs ds) sp = (n, path)"
  shows "meets M n path pfx (pkey q) e \<and> plug n path = t \<and> px_bitlen q = bs \<and>
    (node_bit n = e \<and> e < px_bitlen pfx \<longrightarrow> n = Node bs (Some q) ls rs ds)"
proof -
  let ?s = "Node bs (Some q) ls rs ds"
  have plug: "plug ?s sp = t" and dirs: "\<forall>c \<in> set sp. cr_right c = (cr_bit c < M \<and> addr_bit (px_add pfx) (cr_bit c))"
    using stops_at_head [OF stop] by blast+
  have "pwf M (plug ?s sp)" using wf plug by simp
  then have "pwf M ?s" using pwf_plug [of ?s M sp] by blast
  then have bs: "px_bitlen q = bs" by (simp add: prefix_ok_def)
  have le: "e \<le> bs" "e \<le> px_bitlen pfx"
    using differ_bit_spec(1) [of "px_add pfx" "px_add q" "min bs (px_bitlen pfx)"] unfolding e [symmetric] by simp_all
  have take: "take e (pkey pfx) = take e (pkey q)"
    using differ_bit_spec(2) [of "px_add pfx" "px_add q" "min bs (px_bitlen pfx)"] le bs
    unfolding e [symmetric] by (subst take_pkey_eq) simp_all
  obtain pre where pre: "sp = pre @ path" "\<forall>c \<in> set pre. e \<le> cr_bit c" "path_above e path" "plug n path = plug ?s sp"
      "pkeys ?s \<subseteq> pkeys n" "n \<noteq> Null" "pre = [] \<longrightarrow> n = ?s"
      "pre \<noteq> [] \<longrightarrow> (\<exists>m. n = up m (last pre) \<and> pkeys ?s \<subseteq> pkeys m)"
    using climb_props [OF up] by blast
  have "pwf M (plug n path)" using wf plug pre(4) by simp
  then have wfn: "pwf M n" "pathwf M (node_bit n) (pkeys n) path" using pwf_plug [OF pre(6)] by blast+
  have q: "pkey q \<in> pkeys ?s" by (simp add: okeys_def)
  have bit: "e \<le> node_bit n"
  proof (cases "pre = []")
    case False
    then obtain m where "n = up m (last pre)" using pre(8) by blast
    then show ?thesis using bspec [OF pre(2) last_in_set [OF False]] by simp
  qed (use pre(7) le(1) in simp)
  have "n = ?s" if same: "node_bit n = e" "e < px_bitlen pfx"
  proof (rule ccontr)
    assume "n \<noteq> ?s"
    then have ne: "pre \<noteq> []" using pre(7) by blast
    then obtain m where m: "n = up m (last pre)" "pkey q \<in> pkeys m" using pre(8) q by blast
    have "\<forall>c \<in> set pre. cr_right c = (cr_bit c < M \<and> addr_bit (px_add pfx) (cr_bit c))"
      using dirs pre(1) by simp
    from climb_stays [OF wfn(1) bits(1) bs this e ne m same(1)] same(2) show False ..
  qed
  moreover have "meets M n path pfx (pkey q) e"
    unfolding meets_def using pre(3,6) wfn subsetD [OF pre(5) q] take le(2) bit bits by blast
  ultimately show ?thesis using pre(4) plug bs by simp
qed

lemma patricia_lookup_unfold:
  assumes "t \<noteq> Null" "lookup_loop M (px_add pfx) (px_bitlen pfx) t [] = Some (stop, sp)" "node_prefix stop = Some q"
    "e = differ_bit (px_add pfx) (px_add q) (min (node_bit stop) (px_bitlen pfx))"
    "climb e stop sp = (Node b p l r d, path)"
  shows "patricia_lookup M t pfx =
    (if e = px_bitlen pfx \<and> b = px_bitlen pfx
     then if p \<noteq> None then Some (Node b p l r d, path)
          else if d \<noteq> None then None
          else Some (Node b (Some pfx) l r d, path)
     else if b = e
     then if b < M \<and> addr_bit (px_add pfx) b
          then if r \<noteq> Null then None
               else Some (Node (px_bitlen pfx) (Some pfx) Null Null None, Crumb True b p d l # path)
          else if l \<noteq> Null then None
               else Some (Node (px_bitlen pfx) (Some pfx) Null Null None, Crumb False b p d r # path)
     else if px_bitlen pfx = e
     then if px_bitlen pfx < M \<and> addr_bit (px_add q) (px_bitlen pfx)
          then Some (Node (px_bitlen pfx) (Some pfx) Null (Node b p l r d) None, path)
          else Some (Node (px_bitlen pfx) (Some pfx) (Node b p l r d) Null None, path)
     else if e < M \<and> addr_bit (px_add pfx) e
     then Some (Node (px_bitlen pfx) (Some pfx) Null Null None, Crumb True e None None (Node b p l r d) # path)
     else Some (Node (px_bitlen pfx) (Some pfx) Null Null None, Crumb False e None None (Node b p l r d) # path))"
  unfolding patricia_lookup_def Let_def if_not_P [OF assms(1)] assms(2,3) option.case prod.case
    assms(4) [symmetric] assms(5) patricia_node.case ..

text \<open>An insertion returns a place with the prefix in a well-formed tree that has one entry more, or
  the same ones if the prefix was there.\<close>

lemma patricia_lookup_correct:
  assumes wf: "pwf M t" and bits: "px_bitlen pfx \<le> M" "M \<le> 8 * length (px_add pfx)"
  shows "\<exists>pl. patricia_lookup M t pfx = Some pl \<and> inserted M t pfx pl"
proof (cases "t = Null")
  case True
  have "pwf M (Node (px_bitlen pfx) (Some pfx) Null Null None)"
    using bits by (simp add: prefix_ok_def below_def side_def agree_def okeys_def)
  then have "inserted M t pfx (Node (px_bitlen pfx) (Some pfx) Null Null None, [])"
    by (rule inserted_new) (simp_all add: True)
  then show ?thesis by (simp add: patricia_lookup_def True)
next
  case False
  obtain s sp where loop: "lookup_loop M (px_add pfx) (px_bitlen pfx) t [] = Some (s, sp)"
    and stop: "stops_at M (px_add pfx) (px_bitlen pfx) t [] (s, sp)"
    using lookup_loop_props [OF wf False, of "px_add pfx" "px_bitlen pfx" "[]"] by (metis surj_pair)
  obtain bs q ls rs ds where s: "s = Node bs (Some q) ls rs ds"
    and child: "bs < px_bitlen pfx \<longrightarrow> (if bs < M \<and> addr_bit (px_add pfx) bs then rs else ls) = Null"
    using stops_at_head [OF stop] by blast
  define e where "e = differ_bit (px_add pfx) (px_add q) (min bs (px_bitlen pfx))"
  obtain n path where up: "climb e s sp = (n, path)" by (metis surj_pair)
  have m: "meets M n path pfx (pkey q) e" "plug n path = t" "px_bitlen q = bs"
      "node_bit n = e \<and> e < px_bitlen pfx \<longrightarrow> n = s"
    using lookup_meets [OF wf bits stop [unfolded s] e_def up [unfolded s]] s by simp_all
  obtain b p l r d where n: "n = Node b p l r d" using m(1) by (cases n) (simp_all add: meets_def)
  have wfn: "pwf M n" "e \<le> b" "e \<le> px_bitlen pfx" "pkey q \<in> pkeys n"
    using m(1) n by (simp_all add: meets_def)
  have bM: "b \<le> M" using wfn(1) n by simp
  have ents: "pents t = pents (plug (Node b p l r d) path)" using m(2) n by simp
  have s': "node_prefix s = Some q" "e = differ_bit (px_add pfx) (px_add q) (min (node_bit s) (px_bitlen pfx))"
    by (simp_all add: s e_def)
  note lookup = patricia_lookup_unfold [OF False loop s' up [unfolded n]]
  note meets = m(1) [unfolded n]
  show ?thesis
  proof (cases "e = px_bitlen pfx \<and> b = px_bitlen pfx")
    case eq: True
    show ?thesis
    proof (cases p)
      case None
      have "d = None" using wfn(1) n None by (simp add: prefix_ok_def)
      moreover have "inserted M t pfx (Node b (Some pfx) l r d, path)"
        using insert_glue [of M b l r d path pfx "pkey q" t] meets ents eq None by simp
      ultimately show ?thesis unfolding lookup using eq None by simp
    next
      case (Some q')
      then have "inserted M t pfx (Node b p l r d, path)"
        using insert_found [of M b q' l r d path pfx "pkey q" t] meets m(2) n eq by simp
      then show ?thesis unfolding lookup using eq Some by simp
    qed
  next
    case ne: False
    show ?thesis
    proof (cases "b = e")
      case be: True
      then have less: "b < px_bitlen pfx" using ne wfn(3) by simp
      then have "n = s" using m(4) be n by simp
      then have "(if addr_bit (px_add pfx) b then r else l) = Null" using child less bits(1) n s by (simp split: if_splits)
      from insert_child [OF meets [folded be] less refl this refl ents]
      have "inserted M t pfx (Node (px_bitlen pfx) (Some pfx) Null Null None,
          Crumb (addr_bit (px_add pfx) b) b p d (if addr_bit (px_add pfx) b then l else r) # path)" by simp
      with \<open>(if addr_bit (px_add pfx) b then r else l) = Null\<close> less bits(1) show ?thesis
        unfolding lookup using ne be by (cases "addr_bit (px_add pfx) b") simp_all
    next
      case False
      then have eb: "e < b" using wfn(2) by simp
      have "b \<le> bs" using pkeys_length [of M b p l r d "pkey q"] wfn(1,4) n m(3) by simp
      then have ebs: "e < bs" "pkey q ! e = addr_bit (px_add q) e" using eb m(3) by (simp_all add: nth_pkey)
      show ?thesis
      proof (cases "px_bitlen pfx = e")
        case True
        have "inserted M t pfx (Node (px_bitlen pfx) (Some pfx) (if pkey q ! e then Null else Node b p l r d)
            (if pkey q ! e then Node b p l r d else Null) None, path)"
          by (rule insert_parent [OF meets True [symmetric] eb refl ents])
        then show ?thesis unfolding lookup using ne False True eb bM ebs(2) by (cases "pkey q ! e") simp_all
      next
        case ne': False
        then have less: "e < px_bitlen pfx" using wfn(3) by simp
        have "addr_bit (px_add pfx) e \<noteq> addr_bit (px_add q) e"
          using differ_bit_spec(3) [of "px_add pfx" "px_add q" "min bs (px_bitlen pfx)"] ebs(1) less
          unfolding e_def [symmetric] by simp
        then have "pkey q ! e = (\<not> addr_bit (px_add pfx) e)" using ebs(2) by simp
        from insert_fork [OF meets less eb refl this ents] show ?thesis
          unfolding lookup using ne False ne' less bits(1) by (cases "addr_bit (px_add pfx) e") simp_all
      qed
    qed
  qed
qed

subsection \<open>Searching is correct\<close>

text \<open>A prefix contains an address when its bits are the first ones of the address.\<close>

definition covers :: "bool list \<Rightarrow> bool list \<Rightarrow> bool" where
  "covers k host \<longleftrightarrow> take (length k) host = k"

text \<open>The exact search ends in the place of the prefix.\<close>

lemma exact_loop_place:
  "exact_loop addr bl n path = Some (m, mp) \<Longrightarrow> m \<noteq> Null \<and> plug m mp = plug n path \<and> bl \<le> node_bit m"
proof (induction n arbitrary: path)
  case (Node b p l r d)
  then show ?case by (cases "b < bl"; cases "addr_bit addr b") auto
qed simp

lemma pkey_bitlen: "pkey p = pkey q \<Longrightarrow> px_bitlen p = px_bitlen q"
  by (metis length_pkey)

lemma exact_loop_finds:
  assumes "pwf M n" "pkey pfx \<in> pkeys n"
  shows "\<exists>q l r d mp. exact_loop (px_add pfx) (px_bitlen pfx) n path = Some (Node (px_bitlen pfx) (Some q) l r d, mp) \<and>
    pkey q = pkey pfx"
  using assms
proof (induction n arbitrary: path)
  case (Node b p l r d)
  have wf: "pwf M l" "pwf M r" "side b False (pkeys l)" "side b True (pkeys r)" "prefix_ok M b p d (l \<noteq> Null \<and> r \<noteq> Null)"
    using Node.prems(1) by simp_all
  consider "pkey pfx \<in> okeys p" | "pkey pfx \<in> pkeys l" | "pkey pfx \<in> pkeys r" using Node.prems(2) by auto
  then show ?case
  proof cases
    case 1
    then obtain q where q: "p = Some q" "pkey q = pkey pfx" by (auto simp: okeys_def split: option.splits)
    then have "px_bitlen pfx = b" using wf(5) pkey_bitlen [OF q(2)] by (simp add: prefix_ok_def)
    with q show ?thesis by simp
  next
    case 2
    from sideD [OF wf(3) 2] have "b < px_bitlen pfx" "\<not> addr_bit (px_add pfx) b" using nth_pkey by auto
    with Node.IH(1) [OF wf(1) 2] show ?thesis by simp
  next
    case 3
    from sideD [OF wf(4) 3] have "b < px_bitlen pfx" "addr_bit (px_add pfx) b" using nth_pkey by auto
    with Node.IH(2) [OF wf(2) 3] show ?thesis by simp
  qed
qed simp

lemma comp_with_mask_key:
  assumes "px_bitlen p \<le> 8 * length (px_add p)" "px_bitlen p \<le> 8 * length (px_add pfx)" "px_bitlen p \<le> px_bitlen pfx"
  shows "comp_with_mask (px_add p) (px_add pfx) (px_bitlen p) \<longleftrightarrow> covers (pkey p) (pkey pfx)"
  unfolding comp_with_mask_iff [OF assms(1,2)] covers_def
  using take_pkey_eq [of "px_bitlen p" pfx p] assms(3) by auto

text \<open>The place that an exact search has to return.\<close>

definition place_of :: "nat \<Rightarrow> 'd patricia_node \<Rightarrow> prefix \<Rightarrow> 'd place \<Rightarrow> bool" where
  "place_of M t pfx pl \<longleftrightarrow>
     (\<exists>q l r d path. pl = (Node (px_bitlen pfx) (Some q) l r d, path) \<and> pkey q = pkey pfx \<and>
        plug (Node (px_bitlen pfx) (Some q) l r d) path = t)"

lemma search_exact_found:
  assumes wf: "pwf M t" and bits: "px_bitlen pfx \<le> M" "M \<le> 8 * length (px_add pfx)" and key: "pkey pfx \<in> pkeys t"
  shows "\<exists>pl. patricia_search_exact t pfx = Some pl \<and> place_of M t pfx pl"
proof -
  obtain q l r d mp where loop: "exact_loop (px_add pfx) (px_bitlen pfx) t [] = Some (Node (px_bitlen pfx) (Some q) l r d, mp)"
    and q: "pkey q = pkey pfx"
    using exact_loop_finds [OF wf key, of "[]"] by blast
  let ?n = "Node (px_bitlen pfx) (Some q) l r d"
  have plug: "plug ?n mp = t" using exact_loop_place [OF loop] by simp
  then have "pwf M ?n" using pwf_plug [of ?n M mp] wf by simp
  then have len: "px_bitlen q = px_bitlen pfx" "M \<le> 8 * length (px_add q)" by (simp_all add: prefix_ok_def)
  have "comp_with_mask (px_add q) (px_add pfx) (px_bitlen q)"
    using comp_with_mask_key [of q pfx] len bits q by (simp add: covers_def)
  then have "patricia_search_exact t pfx = Some (?n, mp)"
    using loop len(1) by (simp add: patricia_search_exact_def)
  with plug q show ?thesis unfolding place_of_def by blast
qed

lemma search_exact_place:
  assumes wf: "pwf M t" and bits: "px_bitlen pfx \<le> M" "M \<le> 8 * length (px_add pfx)"
    and found: "patricia_search_exact t pfx = Some pl"
  shows "place_of M t pfx pl"
proof -
  obtain m mp where pl: "pl = (m, mp)" by (cases pl)
  have loop: "exact_loop (px_add pfx) (px_bitlen pfx) t [] = Some (m, mp)"
    using found pl by (auto simp: patricia_search_exact_def split: option.splits if_splits)
  then obtain q where q: "node_prefix m = Some q" "\<not> node_bit m > px_bitlen pfx"
      "comp_with_mask (px_add q) (px_add pfx) (px_bitlen pfx)"
    using found by (auto simp: patricia_search_exact_def split: option.splits if_splits)
  have m: "m \<noteq> Null" "plug m mp = t" "px_bitlen pfx \<le> node_bit m" using exact_loop_place [OF loop] by simp_all
  then obtain l r d where n: "m = Node (px_bitlen pfx) (Some q) l r d" using q(1,2) by (cases m) auto
  have "pwf M m" using pwf_plug [OF m(1), of M mp] wf m(2) by simp
  then have len: "px_bitlen q = px_bitlen pfx" "M \<le> 8 * length (px_add q)" using n by (simp_all add: prefix_ok_def)
  have "covers (pkey q) (pkey pfx)" using comp_with_mask_key [of q pfx] len bits q(3) by simp
  then have "pkey q = pkey pfx" using len(1) by (simp add: covers_def)
  with pl n m(2) show ?thesis unfolding place_of_def by blast
qed

lemma place_of_key: "place_of M t pfx pl \<Longrightarrow> pkey pfx \<in> pkeys t"
  unfolding place_of_def by (auto simp: pkeys_def pents_plug own_def image_Un)

text \<open>The exact search finds a prefix if and only if it is an entry.\<close>

lemma search_exact_iff:
  assumes "pwf M t" "px_bitlen pfx \<le> M" "M \<le> 8 * length (px_add pfx)"
  shows "patricia_search_exact t pfx \<noteq> None \<longleftrightarrow> pkey pfx \<in> pkeys t"
  using search_exact_found [OF assms] search_exact_place [OF assms] place_of_key by (metis not_None_eq)

subsection \<open>The best match\<close>

text \<open>The entries at a place and above it: what a client sees that follows the \<^verbatim>\<open>parent\<close> pointers.\<close>

fun crumb_ents :: "'d crumb list \<Rightarrow> (bool list \<times> 'd option) set" where
  "crumb_ents [] = {}"
| "crumb_ents (Crumb rt b p d other # path) = own p d \<union> crumb_ents path"

definition chain_ents :: "'d place \<Rightarrow> (bool list \<times> 'd option) set" where
  "chain_ents pl = own (node_prefix (fst pl)) (node_data (fst pl)) \<union> crumb_ents (snd pl)"

definition prefix_match :: "prefix \<Rightarrow> 'd place \<Rightarrow> bool" where
  "prefix_match pfx pl = (case node_prefix (fst pl) of
     Some p \<Rightarrow> comp_with_mask (px_add p) (px_add pfx) (px_bitlen p) | None \<Rightarrow> False)"

text \<open>The same search by recursion: the deepest match on the way of the address.\<close>

fun deepest :: "prefix \<Rightarrow> 'd patricia_node \<Rightarrow> 'd crumb list \<Rightarrow> 'd place option" where
  "deepest pfx Null path = None"
| "deepest pfx (Node b p l r d) path =
     (let this = (if prefix_match pfx (Node b p l r d, path) then Some (Node b p l r d, path) else None) in
      if b < px_bitlen pfx
      then (case (if addr_bit (px_add pfx) b then deepest pfx r (Crumb True b p d l # path)
                  else deepest pfx l (Crumb False b p d r # path)) of
              Some pl \<Rightarrow> Some pl
            | None \<Rightarrow> this)
      else this)"

definition best_stack :: "'d place option \<times> 'd place list \<Rightarrow> 'd place list" where
  "best_stack res = (case fst res of
     Some (node, path) \<Rightarrow> if node_prefix node \<noteq> None then (node, path) # snd res else snd res
   | None \<Rightarrow> snd res)"

lemma find_best_stack:
  "List.find (prefix_match pfx) (best_stack (best_loop (px_add pfx) (px_bitlen pfx) n path stack)) =
     (case deepest pfx n path of Some pl \<Rightarrow> Some pl | None \<Rightarrow> List.find (prefix_match pfx) stack)"
proof (induction n arbitrary: path stack)
  case (Node b p l r d)
  have skip: "List.find (prefix_match pfx) (if p \<noteq> None then (Node b p l r d, path) # stack else stack) =
      (if prefix_match pfx (Node b p l r d, path) then Some (Node b p l r d, path)
       else List.find (prefix_match pfx) stack)" for stack
    by (auto simp: prefix_match_def)
  show ?case
  proof (cases "b < px_bitlen pfx")
    case True
    define stack' where "stack' = (if p \<noteq> None then (Node b p l r d, path) # stack else stack)"
    define self where "self = (if prefix_match pfx (Node b p l r d, path) then Some (Node b p l r d, path) else None)"
    have find: "List.find (prefix_match pfx) stack' = (case self of Some pl \<Rightarrow> Some pl | None \<Rightarrow> List.find (prefix_match pfx) stack)"
      using skip [of stack] by (simp add: stack'_def self_def)
    show ?thesis
    proof (cases "addr_bit (px_add pfx) b")
      case bit: True
      let ?path = "Crumb True b p d l # path"
      have loop: "best_loop (px_add pfx) (px_bitlen pfx) (Node b p l r d) path stack =
          best_loop (px_add pfx) (px_bitlen pfx) r ?path stack'"
        using True bit by (simp add: stack'_def)
      have deep: "deepest pfx (Node b p l r d) path = (case deepest pfx r ?path of Some pl \<Rightarrow> Some pl | None \<Rightarrow> self)"
        using True bit by (simp add: self_def split: option.split)
      show ?thesis unfolding loop deep Node.IH(2) find by (cases "deepest pfx r ?path") simp_all
    next
      case bit: False
      let ?path = "Crumb False b p d r # path"
      have loop: "best_loop (px_add pfx) (px_bitlen pfx) (Node b p l r d) path stack =
          best_loop (px_add pfx) (px_bitlen pfx) l ?path stack'"
        using True bit by (simp add: stack'_def)
      have deep: "deepest pfx (Node b p l r d) path = (case deepest pfx l ?path of Some pl \<Rightarrow> Some pl | None \<Rightarrow> self)"
        using True bit by (simp add: self_def split: option.split)
      show ?thesis unfolding loop deep Node.IH(1) find by (cases "deepest pfx l ?path") simp_all
    qed
  next
    case False
    then show ?thesis by (cases p) (simp_all add: best_stack_def prefix_match_def [of pfx "(Node b p l r d, path)" for p])
  qed
qed (simp add: best_stack_def)

lemma search_best_deepest: "patricia_search_best2 t pfx True = deepest pfx t []"
proof -
  have match: "(\<lambda>(node, path). case node_prefix node of
      Some p \<Rightarrow> comp_with_mask (px_add p) (px_add pfx) (px_bitlen p) | None \<Rightarrow> False) = prefix_match pfx"
    by (auto simp: fun_eq_iff prefix_match_def)
  have "patricia_search_best2 t pfx True =
      List.find (prefix_match pfx) (best_stack (best_loop (px_add pfx) (px_bitlen pfx) t [] []))"
    unfolding patricia_search_best2_def match
    by (simp add: best_stack_def split: prod.split option.split)
  then show ?thesis by (simp add: find_best_stack split: option.split)
qed

text \<open>The entries that contain the address.\<close>

definition covering :: "bool list \<Rightarrow> (bool list \<times> 'd option) set \<Rightarrow> (bool list \<times> 'd option) set" where
  "covering host E = {e \<in> E. covers (fst e) host}"

lemma covering_Un: "covering host (E \<union> F) = covering host E \<union> covering host F"
  by (auto simp: covering_def)

lemma covering_other_side:
  assumes "side b rt (fst ` E)" "b < length host" "host ! b = (\<not> rt)"
  shows "covering host E = {}"
proof -
  have False if "(k, x) \<in> E" "covers k host" for k x
  proof -
    have k: "b < length k" "k ! b = rt" using sideD [OF assms(1), of k] that(1) by force+
    have "take (length k) host ! b = host ! b" using k(1) by simp
    then show False using that(2) k(2) assms(3) by (simp add: covers_def)
  qed
  then show ?thesis by (auto simp: covering_def)
qed

lemma covers_take: "covers k host \<Longrightarrow> take b k = take b k' \<Longrightarrow> length k' = b \<Longrightarrow> b \<le> length k \<Longrightarrow> covers k' host"
  unfolding covers_def by (metis min.absorb1 take_all_iff le_refl take_take)

lemma prefix_match_covers:
  assumes "prefix_ok M b p d two" "b \<le> M" "px_bitlen pfx = M" "M \<le> 8 * length (px_add pfx)"
  shows "covering (pkey pfx) (own p d) = (if prefix_match pfx (Node b p l r d, path) then own p d else {})"
proof (cases p)
  case (Some q)
  then have "comp_with_mask (px_add q) (px_add pfx) (px_bitlen q) \<longleftrightarrow> covers (pkey q) (pkey pfx)"
    using assms by (intro comp_with_mask_key) (auto simp: prefix_ok_def)
  with Some show ?thesis by (auto simp: covering_def own_def prefix_match_def)
qed (simp add: covering_def own_def prefix_match_def)

lemma leaf_at_bottom: "pwf M (Node M p l r d) \<Longrightarrow> l = Null \<and> r = Null"
  by (cases l; cases r) (auto simp: below_def)

text \<open>A node above an entry that contains the address does so, too.\<close>

lemma covering_above:
  assumes "agree b K" "K = okeys p \<union> fst ` E" "prefix_ok M b p d two" "\<forall>k \<in> fst ` E. b \<le> length k"
    "covering host E \<noteq> {}"
  shows "covering host (own p d) = own p d"
proof (cases p)
  case (Some q)
  obtain k x where k: "(k, x) \<in> E" "covers k host" using assms(5) by (auto simp: covering_def)
  have "k \<in> K" "pkey q \<in> K" using k(1) assms(2) Some by (force simp: okeys_def)+
  then have "take b k = take b (pkey q)" by (rule agreeD [OF assms(1)])
  then have "covers (pkey q) host"
    using covers_take [OF k(2), of b "pkey q"] assms(3,4) k(1) Some by (force simp: prefix_ok_def)
  with Some show ?thesis by (auto simp: covering_def own_def)
qed (simp add: covering_def own_def)

text \<open>The best match and the nodes above it have exactly the entries that contain the address.\<close>

definition finds_covering :: "bool list \<Rightarrow> 'd patricia_node \<Rightarrow> 'd crumb list \<Rightarrow> 'd place option \<Rightarrow> bool" where
  "finds_covering host n path res =
     (case res of
        Some pl \<Rightarrow> chain_ents pl = covering host (pents n) \<union> crumb_ents path \<and> covering host (pents n) \<noteq> {}
      | None \<Rightarrow> covering host (pents n) = {})"

lemma deepest_covering:
  assumes "pwf M n" "px_bitlen pfx = M" "M \<le> 8 * length (px_add pfx)"
  shows "finds_covering (pkey pfx) n path (deepest pfx n path)"
  using assms(1)
proof (induction n arbitrary: path)
  case Null
  show ?case by (simp add: finds_covering_def covering_def)
next
  case (Node b p l r d)
  let ?self = "if prefix_match pfx (Node b p l r d, path) then Some (Node b p l r d, path) else None"
  have wf: "pwf M l" "pwf M r" "side b False (pkeys l)" "side b True (pkeys r)" "b \<le> M"
      "prefix_ok M b p d (l \<noteq> Null \<and> r \<noteq> Null)" "agree b (pkeys (Node b p l r d))"
    using Node.prems by simp_all
  have own: "covering (pkey pfx) (own p d) = (if prefix_match pfx (Node b p l r d, path) then own p d else {})"
    by (rule prefix_match_covers [OF wf(6,5) assms(2,3)])
  have self: "finds_covering (pkey pfx) (Node b p l r d) path ?self" if "covering (pkey pfx) (pents l \<union> pents r) = {}"
    using own that by (auto simp: finds_covering_def covering_Un chain_ents_def prefix_match_def own_def split: option.splits)
  show ?case
  proof (cases "b < px_bitlen pfx")
    case False
    then have "b = M" using wf(5) assms(2) by simp
    then have "l = Null" "r = Null" using leaf_at_bottom [of b p l r d] Node.prems by blast+
    then have "covering (pkey pfx) (pents l \<union> pents r) = {}" by (simp add: covering_def)
    moreover have "deepest pfx (Node b p l r d) path = ?self" using False by (simp add: Let_def)
    ultimately show ?thesis using self by (simp only:)
  next
    case True
    define rt where "rt = addr_bit (px_add pfx) b"
    define child where "child = (if rt then r else l)"
    define other where "other = (if rt then l else r)"
    define crumb where "crumb = Crumb rt b p d other"
    have IH: "finds_covering (pkey pfx) child (crumb # path) (deepest pfx child (crumb # path))"
      using Node.IH wf(1,2) by (simp add: child_def)
    have deep: "deepest pfx (Node b p l r d) path =
        (case deepest pfx child (crumb # path) of Some pl \<Rightarrow> Some pl | None \<Rightarrow> ?self)"
      using True by (simp add: Let_def child_def other_def crumb_def rt_def)
    have "side b (\<not> rt) (fst ` pents other)" using wf(3,4) by (simp add: other_def pkeys_def)
    then have no: "covering (pkey pfx) (pents other) = {}"
      by (rule covering_other_side) (simp_all add: nth_pkey rt_def True)
    have ents: "pents l \<union> pents r = pents child \<union> pents other" by (auto simp: child_def other_def)
    then have sub: "covering (pkey pfx) (pents l \<union> pents r) = covering (pkey pfx) (pents child)"
      using no by (simp add: covering_Un)
    show ?thesis
    proof (cases "deepest pfx child (crumb # path)")
      case None
      then show ?thesis using self sub IH deep by (simp add: finds_covering_def)
    next
      case (Some pl)
      have IH': "chain_ents pl = covering (pkey pfx) (pents child) \<union> (own p d \<union> crumb_ents path)"
          "covering (pkey pfx) (pents child) \<noteq> {}"
        using IH Some by (simp_all add: finds_covering_def crumb_def)
      have keys: "\<forall>k \<in> fst ` pents child. b \<le> length k"
        using wf(3,4) unfolding child_def pkeys_def side_def by (simp add: less_imp_le)
      have "agree b (okeys p \<union> fst ` pents child)"
        unfolding pkeys_def [symmetric] by (rule agree_mono [OF wf(7)]) (auto simp: child_def)
      then have "covering (pkey pfx) (own p d) = own p d"
        using covering_above [OF _ refl wf(6) keys IH'(2)] by blast
      then have "covering (pkey pfx) (pents (Node b p l r d)) = own p d \<union> covering (pkey pfx) (pents child)"
        using sub by (simp add: covering_Un Un_assoc)
      then show ?thesis using Some IH' deep by (simp add: finds_covering_def Un_ac)
    qed
  qed
qed

lemma search_best_covering:
  assumes "pwf M t" "px_bitlen pfx = M" "M \<le> 8 * length (px_add pfx)"
  shows "(case patricia_search_best2 t pfx True of Some pl \<Rightarrow> chain_ents pl | None \<Rightarrow> {}) =
    covering (pkey pfx) (pents t)"
  using deepest_covering [OF assms, of "[]"]
  by (auto simp: search_best_deepest finds_covering_def split: option.splits)

subsection \<open>Changing and removing entries\<close>

lemma pwf_data: "pwf M (Node b (Some q) l r d) \<longleftrightarrow> pwf M (Node b (Some q) l r d')"
  by (simp add: prefix_ok_def)

lemma place_entries:
  assumes "pwf M (plug (Node b (Some q) l r d) path)"
  shows "pents (plug (Node b (Some q) l r d) path) - {(pkey q, d)} = pents l \<union> pents r \<union> path_ents path"
    "pkey q \<notin> fst ` (pents l \<union> pents r \<union> path_ents path)"
proof -
  let ?n = "Node b (Some q) l r d"
  have wf: "pwf M ?n" "pathwf M b (pkeys ?n) path" using assms pwf_plug [of ?n M path] by simp_all
  have "pkey q \<in> pkeys ?n" by (simp add: okeys_def)
  then have "pkey q \<notin> fst ` path_ents path" using path_disjoint [OF wf(2)] by blast
  moreover have "pkey q \<notin> pkeys l" "pkey q \<notin> pkeys r"
    using own_disjoint [OF wf(1), of "pkey q"] by (simp_all add: okeys_def)
  ultimately show no: "pkey q \<notin> fst ` (pents l \<union> pents r \<union> path_ents path)"
    by (simp add: image_Un pkeys_def)
  have "pents (plug ?n path) = insert (pkey q, d) (pents l \<union> pents r \<union> path_ents path)"
    by (simp add: pents_plug own_def)
  moreover have "(pkey q, d) \<notin> pents l \<union> pents r \<union> path_ents path" using no by force
  ultimately show "pents (plug ?n path) - {(pkey q, d)} = pents l \<union> pents r \<union> path_ents path" by simp
qed

text \<open>An assignment to the \<^verbatim>\<open>data\<close> of a node.\<close>

definition set_data :: "'d place \<Rightarrow> 'd option \<Rightarrow> 'd patricia_node" where
  "set_data pl d' = (case pl of (Null, path) \<Rightarrow> plug Null path | (Node b p l r d, path) \<Rightarrow> plug (Node b p l r d') path)"

lemma set_data_correct:
  assumes "pwf M (plug (Node b (Some q) l r d) path)"
  shows "pwf M (set_data (Node b (Some q) l r d, path) d')"
    "pents (set_data (Node b (Some q) l r d, path) d') =
       insert (pkey q, d') (pents (plug (Node b (Some q) l r d) path) - {(pkey q, d)})"
proof -
  let ?n = "Node b (Some q) l r d" and ?n' = "Node b (Some q) l r d'"
  have "pwf M ?n" "pathwf M b (pkeys ?n) path" using assms pwf_plug [of ?n M path] by simp_all
  then have "pwf M ?n'" "pathwf M b (pkeys ?n') path" using pwf_data [of M b q l r d d'] by simp_all
  then show "pwf M (set_data (?n, path) d')" using pwf_plug [of ?n' M path] by (simp add: set_data_def)
  show "pents (set_data (?n, path) d') = insert (pkey q, d') (pents (plug ?n path) - {(pkey q, d)})"
    unfolding place_entries(1) [OF assms] by (simp add: set_data_def pents_plug own_def)
qed

lemma pwf_child_gone:
  assumes "pwf M (up n (Crumb rt b (Some q) d other))"
  shows "pwf M (up Null (Crumb rt b (Some q) d other))"
  using assms by (cases rt) (auto simp: prefix_ok_def below_def side_def intro: agree_mono)

lemma patricia_remove_correct:
  assumes wf: "pwf M (plug (Node b (Some q) l r d) path)"
  shows "\<exists>t'. patricia_remove (Node b (Some q) l r d, path) = Some t' \<and> pwf M t' \<and>
    pents t' = pents (plug (Node b (Some q) l r d) path) - {(pkey q, d)}"
proof -
  let ?n = "Node b (Some q) l r d"
  have n: "pwf M ?n" "pathwf M b (pkeys ?n) path" using wf pwf_plug [of ?n M path] by simp_all
  have above: "path_above b path" by (rule pathwf_above [OF n(2)])
  note rest = place_entries(1) [OF wf]
  consider (both) "l \<noteq> Null" "r \<noteq> Null" | (leaf) "l = Null" "r = Null"
    | (one) c where "c \<noteq> Null" "l = Null \<and> r = c \<or> l = c \<and> r = Null" by blast
  then show ?thesis
  proof cases
    case both
    let ?n' = "Node b None l r (None :: 'a option)"
    have sub: "pkeys ?n' \<subseteq> pkeys ?n" by (auto simp: okeys_def)
    have "agree b (pkeys ?n)" using n(1) by simp
    then have "agree b (pkeys ?n')" using sub by (rule agree_mono)
    then have "pwf M ?n'" using n(1) both by (simp add: prefix_ok_def)
    moreover have "pathwf M b (pkeys ?n') path" by (rule pathwf_subset [OF n(2) sub above])
    ultimately have "pwf M (plug ?n' path)" using pwf_plug [of ?n' M path] by simp
    then show ?thesis using both rest by (simp add: patricia_remove_def pents_plug own_def)
  next
    case one
    have sub: "pkeys c \<subseteq> pkeys ?n" using one(2) by auto
    have c: "pwf M c" "b < node_bit c" using n(1) one by (auto simp: below_def)
    then have "pathwf M (node_bit c) (pkeys c) path"
      using above by (intro pathwf_subset [OF n(2) sub]) (auto simp: path_above_def)
    then have "pwf M (plug c path)" using pwf_plug [OF one(1), of M path] c(1) by simp
    moreover have "patricia_remove (?n, path) = Some (plug c path)" using one by (auto simp: patricia_remove_def)
    moreover have "pents (plug c path) = pents l \<union> pents r \<union> path_ents path"
      using one(2) by (elim disjE conjE) (simp_all add: pents_plug)
    ultimately show ?thesis using rest by simp
  next
    case leaf
    show ?thesis
    proof (cases path)
      case Nil
      then show ?thesis using leaf rest by (simp add: patricia_remove_def)
    next
      case (Cons crumb ppath)
      obtain rt pb pp pd other where crumb: "crumb = Crumb rt pb pp pd other" by (cases crumb)
      have parent: "pwf M (up ?n crumb)" "pathwf M pb (pkeys (up ?n crumb)) ppath"
        using wf pwf_plug [of "up ?n crumb" M ppath] Cons crumb by (simp_all del: up.simps)
      show ?thesis
      proof (cases pp)
        case None
        have "prefix_ok M pb pp pd (other \<noteq> Null)" "below pb other" "pwf M other"
          using n(2) Cons crumb by simp_all
        then have other: "other \<noteq> Null" "pb < node_bit other" "pwf M other"
          using None by (simp_all add: prefix_ok_def below_def)
        have "pathwf M (node_bit other) (pkeys other) ppath"
          using pathwf_above [OF parent(2)] other(2) crumb
          by (intro pathwf_subset [OF parent(2)]) (auto simp: path_above_def)
        then have "pwf M (plug other ppath)" using pwf_plug [OF other(1)] other(3) by blast
        moreover have "patricia_remove (?n, path) = Some (plug other ppath)"
          using leaf Cons crumb None other(1) by (simp add: patricia_remove_def)
        ultimately show ?thesis using rest leaf Cons crumb None by (simp add: pents_plug own_def)
      next
        case (Some q')
        let ?p = "up Null crumb"
        have "pwf M ?p" using pwf_child_gone [of M ?n rt pb q' pd other] parent(1) crumb Some by (simp del: up.simps)
        moreover have "pathwf M pb (pkeys ?p) ppath"
          using crumb by (intro pathwf_subset [OF parent(2) _ pathwf_above [OF parent(2)]]) auto
        ultimately have "pwf M (plug ?p ppath)"
          using pwf_plug [of ?p M ppath] crumb by (simp del: up.simps)
        moreover have "patricia_remove (?n, path) = Some (plug ?p ppath)"
          using leaf Cons crumb Some by (simp add: patricia_remove_def del: up.simps)
        moreover have "pents (plug ?p ppath) = path_ents path"
          using Cons crumb by (auto simp: pents_plug)
        ultimately show ?thesis using rest leaf by simp
      qed
    qed
  qed
qed

subsection \<open>Prefixes that were read from a string\<close>

text \<open>The size of an address of the family in bits.\<close>

definition family_bits :: "int \<Rightarrow> nat" where
  "family_bits family = (if family = AF_INET then 32 else 128)"

lemma my_inet_pton_length: "length (snd (my_inet_pton_loop i src xp)) = length xp"
proof (induction i src xp rule: my_inet_pton_loop.induct)
  case (2 i c cs xp)
  then show ?case by (auto split: option.split list.split)
qed simp

text \<open>What the tree needs of the prefixes it is given.\<close>

definition prefix_fits :: "nat \<Rightarrow> prefix \<Rightarrow> bool" where
  "prefix_fits M pfx \<longleftrightarrow> px_bitlen pfx \<le> M \<and> M \<le> 8 * length (px_add pfx)"

lemma New_Prefix_fits:
  assumes "New_Prefix family dest bitlen = Some pfx" "bitlen \<le> int (family_bits family)"
    "family_bits family \<le> 8 * length dest"
  shows "px_family pfx = family \<and> prefix_fits (family_bits family) pfx"
  using assms
  by (auto simp: New_Prefix_def prefix_fits_def family_bits_def AF_INET_def AF_INET6_def split: if_splits)

lemma range_bitlen_le: "0 \<le> maxbitlen \<Longrightarrow> range_bitlen maxbitlen s \<le> maxbitlen"
  by (simp add: range_bitlen_def Let_def)

lemma ascii2prefix_v6:
  "58 \<in> set s \<Longrightarrow> ascii2prefix inet_pton 0 (Some s) =
    (case inet_pton (takeWhile (\<lambda>c. c \<noteq> 47) s) of
       None \<Rightarrow> None | Some sin6 \<Rightarrow> New_Prefix AF_INET6 sin6 (range_bitlen 128 s))"
  by (simp add: ascii2prefix_def AF_INET_def AF_INET6_def)

lemma ascii2prefix_v4:
  "58 \<notin> set s \<Longrightarrow> ascii2prefix inet_pton 0 (Some s) =
    (case my_inet_pton (takeWhile (\<lambda>c. c \<noteq> 47) s) of
       (result, sin) \<Rightarrow> if result \<le> 0 then None else New_Prefix AF_INET sin (range_bitlen 32 s))"
  by (simp add: ascii2prefix_def AF_INET_def AF_INET6_def)

text \<open>\<^term>\<open>inet_pton\<close> yields 16 bytes.\<close>

definition inet_pton_ok :: "(bytes \<Rightarrow> bytes option) \<Rightarrow> bool" where
  "inet_pton_ok inet_pton \<longleftrightarrow> (\<forall>a addr. inet_pton a = Some addr \<longrightarrow> length addr = 16)"

lemma ascii2prefix_fits:
  assumes "ascii2prefix inet_pton 0 (Some s) = Some pfx" "inet_pton_ok inet_pton"
  shows "px_family pfx = (if 58 \<in> set s then AF_INET6 else AF_INET) \<and> prefix_fits (family_bits (px_family pfx)) pfx"
proof (cases "58 \<in> set s")
  case True
  obtain addr where addr: "inet_pton (takeWhile (\<lambda>c. c \<noteq> 47) s) = Some addr"
      "New_Prefix AF_INET6 addr (range_bitlen 128 s) = Some pfx"
    using assms(1) unfolding ascii2prefix_v6 [OF True] by (auto split: option.splits)
  have "length addr = 16" using addr(1) assms(2) unfolding inet_pton_ok_def by blast
  then show ?thesis
    using New_Prefix_fits [OF addr(2)] range_bitlen_le [of 128 s] True
    by (simp add: family_bits_def AF_INET_def AF_INET6_def)
next
  case False
  obtain result sin where pton: "my_inet_pton (takeWhile (\<lambda>c. c \<noteq> 47) s) = (result, sin)" by (metis surj_pair)
  have "length sin = 4"
    using my_inet_pton_length [of 0 "takeWhile (\<lambda>c. c \<noteq> 47) s" "[0, 0, 0, 0]"] pton unfolding my_inet_pton_def by simp
  moreover have "New_Prefix AF_INET sin (range_bitlen 32 s) = Some pfx"
    using assms(1) unfolding ascii2prefix_v4 [OF False] pton by (simp split: if_splits)
  ultimately show ?thesis
    using New_Prefix_fits [of AF_INET sin _ pfx] range_bitlen_le [of 32 s] False by (simp add: family_bits_def)
qed

end
