(* ===== verification/Push_Messaging.thy ===== *)
theory Push_Messaging
  imports Seq_Tracker Coreserver Patricia
begin

text \<open>
  What a packet thread of a collector knows about the intercepts, and the messages of the
  synchronisation threads that change it (\<^verbatim>\<open>src/src/collector/collector_push_messaging.c\<close>; the
  dispatch of the messages is in \<^verbatim>\<open>collector.c\<close>).

  A table is a list of entries, and an address range is an entry of a Patricia tree whose data is
  the table of the intercepts that have the range; the empty table is a null pointer. The unchecked
  allocations succeed, and so do the checked ones. A result \<^term>\<open>None\<close> means that a null pointer is
  dereferenced, that an assertion fails or that memory is read which has been freed. For the last
  case the strings that serve as keys of entries which do not own them have an identity, and the
  state keeps the identities that have been freed.
\<close>

subsection \<open>State\<close>

record liid_set =
  ls_liid :: cstr
  ls_cin :: u32
  ls_key :: cstr
  ls_keyptr :: nat

type_synonym range_tree = "liid_set list patricia_node"

record ipv4_target =
  v4t_address :: bytes
  v4t_intercepts :: "ipsession list"

record ipv6_target =
  v6t_address :: bytes
  v6t_prefixlen :: u8
  v6t_prefixstr :: cstr
  v6t_intercepts :: "ipsession list"

text \<open>The key of a list of mirror intercepts is a member of the intercept that was first in the list;
  \<^verbatim>\<open>vml_owner\<close> is its LIID, and \<^verbatim>\<open>vml_dangling\<close> says that it has been freed.\<close>

record vendmirror_intercept_list =
  vml_sessionid :: u32
  vml_intercepts :: "vendmirror_intercept list"
  vml_owner :: "bytes option"
  vml_dangling :: bool

text \<open>An entry of the table of static sessions: its key, the identity of the key if the entry does not
  own it, and the session.\<close>

record static_entry =
  se_key :: bytes
  se_keyptr :: "nat option"
  se_sess :: staticipsession

record colthread_local =
  cl_activeipv4intercepts :: "ipv4_target list"
  cl_activeipv6intercepts :: "ipv6_target list"
  cl_activertpintercepts :: "rtpstreaminf list"
  cl_activemirrorintercepts :: "vendmirror_intercept_list list"
  cl_activestaticintercepts :: "static_entry list"
  cl_radiusservers :: "coreserver list"
  cl_sipservers :: "coreserver list"
  cl_gtpservers :: "coreserver list"
  cl_smtpservers :: "coreserver list"
  cl_imapservers :: "coreserver list"
  cl_pop3servers :: "coreserver list"
  cl_staticv4ranges :: range_tree
  cl_staticv6ranges :: range_tree
  cl_dynamicv6ranges :: range_tree
  cl_nextptr :: nat
  cl_freed :: "nat list"

definition init_local :: colthread_local where
  "init_local =
     \<lparr> cl_activeipv4intercepts = [], cl_activeipv6intercepts = [], cl_activertpintercepts = [],
       cl_activemirrorintercepts = [], cl_activestaticintercepts = [], cl_radiusservers = [],
       cl_sipservers = [], cl_gtpservers = [], cl_smtpservers = [], cl_imapservers = [],
       cl_pop3servers = [], cl_staticv4ranges = Null, cl_staticv6ranges = Null,
       cl_dynamicv6ranges = Null, cl_nextptr = 0, cl_freed = [] \<rparr>"

text \<open>The functions of the system's library that convert IPv6 addresses.\<close>

record addr_lib =
  al_inet_pton :: "bytes \<Rightarrow> bytes option"
  al_inet_ntop :: "bytes \<Rightarrow> cstr option"

text \<open>The bytes that a search for an LIID compares, \<^verbatim>\<open>liid_len\<close> of them.\<close>

definition liid_key :: "intercept_common \<Rightarrow> bytes option" where
  "liid_key common =
     (case ic_liid common of
        None \<Rightarrow> None
      | Some l \<Rightarrow> if 0 \<le> ic_liid_len common \<and> ic_liid_len common \<le> int (length l) + 1
                 then Some (take (nat (ic_liid_len common)) (l @ [0])) else None)"

definition update_intercept_common :: "intercept_common \<Rightarrow> intercept_common \<Rightarrow> intercept_common" where
  "update_intercept_common found replace =
     found \<lparr> ic_authcc := ic_authcc replace, ic_authcc_len := ic_authcc_len replace,
             ic_delivcc := ic_delivcc replace, ic_delivcc_len := ic_delivcc_len replace,
             ic_tostart_time := ic_tostart_time replace, ic_toend_time := ic_toend_time replace,
             ic_tomediate := ic_tomediate replace, ic_encrypt := ic_encrypt replace,
             ic_encryptkey := ic_encryptkey replace \<rparr>"

subsection \<open>Address ranges\<close>

definition range_key :: "cstr \<Rightarrow> u32 \<Rightarrow> cstr" where
  "range_key liid cin = snprintf 127 (c_str liid @ lit ''-'' @ decimal (unat cin))"

definition node_table :: "range_tree \<Rightarrow> liid_set list" where
  "node_table node = (case node_data node of None \<Rightarrow> [] | Some all \<Rightarrow> all)"

text \<open>The LIID \<^term>\<open>k\<close> is looked up in the table of the range, and the entry is added if it is not there.\<close>

definition put_range :: "nat \<Rightarrow> range_tree \<Rightarrow> prefix \<Rightarrow> bytes \<Rightarrow> liid_set \<Rightarrow> (int \<times> range_tree) option" where
  "put_range maxbits ptree prefix k new =
     (case patricia_lookup maxbits ptree prefix of
        None \<Rightarrow> None
      | Some (node, path) \<Rightarrow>
          (case hash_find ls_liid k (node_table node) of
             Some found \<Rightarrow> Some (0, plug node path)
           | None \<Rightarrow> Some (1, set_data (node, path) (Some (hash_add new (node_table node))))))"

definition add_iprange_to_patricia ::
  "addr_lib \<Rightarrow> nat \<Rightarrow> range_tree \<Rightarrow> cstr option \<Rightarrow> intercept_common \<Rightarrow> u32 \<Rightarrow> nat \<Rightarrow> (int \<times> range_tree) option" where
  "add_iprange_to_patricia lib maxbits ptree iprangestr common cin ptr =
     (case ascii2prefix (al_inet_pton lib) 0 (map_option c_str iprangestr) of
        None \<Rightarrow> Some (-1, ptree)
      | Some prefix \<Rightarrow>
          (case (liid_key common, ic_liid common) of
             (Some k, Some liid) \<Rightarrow>
               put_range maxbits ptree prefix k
                 \<lparr> ls_liid = strdup liid, ls_cin = cin, ls_key = range_key liid cin, ls_keyptr = ptr \<rparr>
           | _ \<Rightarrow> None))"

text \<open>The result includes the identity of the key that was freed.\<close>

definition del_range :: "range_tree \<Rightarrow> prefix \<Rightarrow> bytes \<Rightarrow> (nat list \<times> range_tree) option" where
  "del_range ptree prefix k =
     (case patricia_search_exact ptree prefix of
        None \<Rightarrow> Some ([], ptree)
      | Some (node, path) \<Rightarrow>
          (case hash_find ls_liid k (node_table node) of
             None \<Rightarrow> Some ([], ptree)
           | Some found \<Rightarrow>
               (case hash_delete ls_liid k (node_table node) of
                  [] \<Rightarrow> map_option (Pair [ls_keyptr found]) (patricia_remove (node, path))
                | all \<Rightarrow> Some ([ls_keyptr found], set_data (node, path) (Some all)))))"

definition remove_iprange_from_patricia ::
  "addr_lib \<Rightarrow> range_tree \<Rightarrow> cstr option \<Rightarrow> intercept_common \<Rightarrow> (nat list \<times> range_tree) option" where
  "remove_iprange_from_patricia lib ptree iprangestr common =
     (case ascii2prefix (al_inet_pton lib) 0 (map_option c_str iprangestr) of
        None \<Rightarrow> Some ([], ptree)
      | Some prefix \<Rightarrow>
          (case liid_key common of
             None \<Rightarrow> if patricia_search_exact ptree prefix = None then Some ([], ptree) else None
           | Some k \<Rightarrow> del_range ptree prefix k))"

subsection \<open>Sessions with an IPv4 address\<close>

definition session_key :: "ipsession \<Rightarrow> bytes option" where
  "session_key sess = map_option c_str (ips_streamkey sess)"

text \<open>A session replaces one with the same stream key.\<close>

definition replace_session :: "ipsession \<Rightarrow> ipsession list \<Rightarrow> ipsession list" where
  "replace_session sess tbl =
     hash_add sess (case hash_find session_key (session_key sess) tbl of
       Some check \<Rightarrow> hash_delete session_key (session_key sess) tbl | None \<Rightarrow> tbl)"

definition add_ipv4_intercept :: "colthread_local \<Rightarrow> ipsession \<Rightarrow> (int \<times> colthread_local) option" where
  "add_ipv4_intercept loc sess =
     (case ips_targetip sess of
        None \<Rightarrow> Some (-1, loc)
      | Some sin \<Rightarrow>
          let v4addr = sin_addr sin;
              tbl = (case hash_find v4t_address v4addr (cl_activeipv4intercepts loc) of
                       Some tgt \<Rightarrow> cl_activeipv4intercepts loc
                     | None \<Rightarrow> hash_add \<lparr> v4t_address = v4addr, v4t_intercepts = [] \<rparr> (cl_activeipv4intercepts loc))
          in if ips_streamkey sess = None then None
             else Some (0, loc \<lparr> cl_activeipv4intercepts :=
               hash_update v4t_address v4addr (\<lambda>tgt. tgt \<lparr> v4t_intercepts := replace_session sess (v4t_intercepts tgt) \<rparr>) tbl \<rparr>))"

text \<open>\<^term>\<open>Some None\<close>: no such session. The result includes the address of the target.\<close>

definition find_ipv4_intercept ::
  "colthread_local \<Rightarrow> ipsession \<Rightarrow> (bytes \<times> ipsession) option option" where
  "find_ipv4_intercept loc tofind =
     (case ips_targetip tofind of
        None \<Rightarrow> Some None
      | Some sin \<Rightarrow>
          (case hash_find v4t_address (sin_addr sin) (cl_activeipv4intercepts loc) of
             None \<Rightarrow> Some None
           | Some v4 \<Rightarrow>
               if ips_streamkey tofind = None then None
               else Some (map_option (Pair (sin_addr sin))
                      (hash_find session_key (session_key tofind) (v4t_intercepts v4)))))"

definition update_ipv4_intercept :: "colthread_local \<Rightarrow> ipsession \<Rightarrow> (int \<times> colthread_local) option" where
  "update_ipv4_intercept loc toup =
     (case find_ipv4_intercept loc toup of
        None \<Rightarrow> None
      | Some None \<Rightarrow> Some (0, loc)
      | Some (Some (v4addr, found)) \<Rightarrow>
          Some (1, loc \<lparr> cl_activeipv4intercepts := hash_update v4t_address v4addr
            (\<lambda>tgt. tgt \<lparr> v4t_intercepts := hash_update session_key (session_key found)
               (\<lambda>s. s \<lparr> ips_common := update_intercept_common (ips_common s) (ips_common toup) \<rparr>) (v4t_intercepts tgt) \<rparr>)
            (cl_activeipv4intercepts loc) \<rparr>))"

definition remove_ipv4_intercept :: "colthread_local \<Rightarrow> ipsession \<Rightarrow> (int \<times> colthread_local) option" where
  "remove_ipv4_intercept loc torem =
     (case find_ipv4_intercept loc torem of
        None \<Rightarrow> None
      | Some None \<Rightarrow> Some (0, loc)
      | Some (Some (v4addr, found)) \<Rightarrow>
          let tbl = hash_update v4t_address v4addr
                (\<lambda>tgt. tgt \<lparr> v4t_intercepts := hash_delete session_key (session_key found) (v4t_intercepts tgt) \<rparr>)
                (cl_activeipv4intercepts loc)
          in Some (1, loc \<lparr> cl_activeipv4intercepts :=
               (case hash_find v4t_address v4addr tbl of
                  Some v4 \<Rightarrow> if v4t_intercepts v4 = [] then hash_delete v4t_address v4addr tbl else tbl
                | None \<Rightarrow> tbl) \<rparr>))"

subsection \<open>Sessions with an IPv6 prefix\<close>

definition prefixstr_of :: "cstr \<Rightarrow> u8 \<Rightarrow> cstr" where
  "prefixstr_of inet prefixlen = snprintf 100 (c_str inet @ lit ''/'' @ decimal (unat prefixlen))"

definition add_ipv6_intercept ::
  "addr_lib \<Rightarrow> colthread_local \<Rightarrow> ipsession \<Rightarrow> (int \<times> colthread_local) option" where
  "add_ipv6_intercept lib loc sess =
     (case ips_targetip sess of
        None \<Rightarrow> Some (-1, loc)
      | Some sin6 \<Rightarrow>
          (case al_inet_ntop lib (sin6_addr sin6) of
             None \<Rightarrow> Some (-1, loc)
           | Some inet \<Rightarrow>
               let prefixstr = prefixstr_of inet (ips_prefixlen sess) in
               (case add_iprange_to_patricia lib 128 (cl_dynamicv6ranges loc) (Some prefixstr)
                       (ips_common sess) (ips_cin sess) (cl_nextptr loc) of
                  None \<Rightarrow> None
                | Some (r, tree) \<Rightarrow>
                    let loc1 = loc \<lparr> cl_dynamicv6ranges := tree, cl_nextptr := Suc (cl_nextptr loc) \<rparr> in
                    if r < 0 then Some (-1, loc1)
                    else let tbl = (case hash_find v6t_prefixstr prefixstr (cl_activeipv6intercepts loc1) of
                               Some tgt \<Rightarrow> cl_activeipv6intercepts loc1
                             | None \<Rightarrow> hash_add \<lparr> v6t_address = sin6_addr sin6, v6t_prefixlen = ips_prefixlen sess,
                                         v6t_prefixstr = prefixstr, v6t_intercepts = [] \<rparr> (cl_activeipv6intercepts loc1))
                         in if ips_streamkey sess = None then None
                            else Some (0, loc1 \<lparr> cl_activeipv6intercepts := hash_update v6t_prefixstr prefixstr
                              (\<lambda>tgt. tgt \<lparr> v6t_intercepts := replace_session sess (v6t_intercepts tgt) \<rparr>) tbl \<rparr>))))"

definition find_ipv6_intercept ::
  "addr_lib \<Rightarrow> colthread_local \<Rightarrow> ipsession \<Rightarrow> (cstr \<times> ipsession) option option" where
  "find_ipv6_intercept lib loc tofind =
     (case ips_targetip tofind of
        None \<Rightarrow> Some None
      | Some sin6 \<Rightarrow>
          (case al_inet_ntop lib (sin6_addr sin6) of
             None \<Rightarrow> Some None
           | Some inet \<Rightarrow>
               let prefixstr = prefixstr_of inet (ips_prefixlen tofind) in
               (case hash_find v6t_prefixstr prefixstr (cl_activeipv6intercepts loc) of
                  None \<Rightarrow> Some None
                | Some v6 \<Rightarrow>
                    if ips_streamkey tofind = None then None
                    else Some (map_option (Pair prefixstr)
                           (hash_find session_key (session_key tofind) (v6t_intercepts v6))))))"

definition update_ipv6_intercept ::
  "addr_lib \<Rightarrow> colthread_local \<Rightarrow> ipsession \<Rightarrow> (int \<times> colthread_local) option" where
  "update_ipv6_intercept lib loc toup =
     (case find_ipv6_intercept lib loc toup of
        None \<Rightarrow> None
      | Some None \<Rightarrow> Some (0, loc)
      | Some (Some (prefixstr, found)) \<Rightarrow>
          Some (1, loc \<lparr> cl_activeipv6intercepts := hash_update v6t_prefixstr prefixstr
            (\<lambda>tgt. tgt \<lparr> v6t_intercepts := hash_update session_key (session_key found)
               (\<lambda>s. s \<lparr> ips_common := update_intercept_common (ips_common s) (ips_common toup) \<rparr>) (v6t_intercepts tgt) \<rparr>)
            (cl_activeipv6intercepts loc) \<rparr>))"

definition remove_ipv6_intercept ::
  "addr_lib \<Rightarrow> colthread_local \<Rightarrow> ipsession \<Rightarrow> (int \<times> colthread_local) option" where
  "remove_ipv6_intercept lib loc torem =
     (case find_ipv6_intercept lib loc torem of
        None \<Rightarrow> None
      | Some None \<Rightarrow> Some (0, loc)
      | Some (Some (prefixstr, found)) \<Rightarrow>
          (case remove_iprange_from_patricia lib (cl_dynamicv6ranges loc) (Some prefixstr) (ips_common found) of
             None \<Rightarrow> None
           | Some (freed, tree) \<Rightarrow>
               let tbl = hash_update v6t_prefixstr prefixstr
                     (\<lambda>tgt. tgt \<lparr> v6t_intercepts := hash_delete session_key (session_key found) (v6t_intercepts tgt) \<rparr>)
                     (cl_activeipv6intercepts loc)
               in Some (1, loc \<lparr> cl_dynamicv6ranges := tree, cl_freed := freed @ cl_freed loc,
                    cl_activeipv6intercepts :=
                      (case hash_find v6t_prefixstr prefixstr tbl of
                         Some v6 \<Rightarrow> if v6t_intercepts v6 = [] then hash_delete v6t_prefixstr prefixstr tbl else tbl
                       | None \<Rightarrow> tbl) \<rparr>)))"

subsection \<open>Vendor mirror intercepts\<close>

definition vmi_key :: "vendmirror_intercept \<Rightarrow> bytes option" where
  "vmi_key vmi = liid_key (vmi_common vmi)"

text \<open>A search that finds an entry has compared its key.\<close>

definition find_mirror ::
  "u32 \<Rightarrow> vendmirror_intercept_list list \<Rightarrow> vendmirror_intercept_list option option" where
  "find_mirror sessionid tbl =
     (case hash_find vml_sessionid sessionid tbl of
        None \<Rightarrow> Some None
      | Some e \<Rightarrow> if vml_dangling e then None else Some (Some e))"

definition handle_push_mirror_intercept ::
  "colthread_local \<Rightarrow> vendmirror_intercept \<Rightarrow> colthread_local option" where
  "handle_push_mirror_intercept loc vmi =
     (case find_mirror (vmi_sessionid vmi) (cl_activemirrorintercepts loc) of
        None \<Rightarrow> None
      | Some vmilist \<Rightarrow>
          let tbl = (case vmilist of
                Some e \<Rightarrow> cl_activemirrorintercepts loc
              | None \<Rightarrow> hash_add \<lparr> vml_sessionid = vmi_sessionid vmi, vml_intercepts = [],
                          vml_owner = vmi_key vmi, vml_dangling = False \<rparr> (cl_activemirrorintercepts loc))
          in if vmi_key vmi = None then None
             else Some (loc \<lparr> cl_activemirrorintercepts := hash_update vml_sessionid (vmi_sessionid vmi)
               (\<lambda>e. e \<lparr> vml_intercepts :=
                  (case hash_find vmi_key (vmi_key vmi) (vml_intercepts e) of
                     None \<Rightarrow> hash_add vmi (vml_intercepts e)
                   | Some found \<Rightarrow> vml_intercepts e) \<rparr>) tbl \<rparr>))"

definition handle_halt_mirror_intercept ::
  "colthread_local \<Rightarrow> vendmirror_intercept \<Rightarrow> colthread_local option" where
  "handle_halt_mirror_intercept loc vmi =
     (case find_mirror (vmi_sessionid vmi) (cl_activemirrorintercepts loc) of
        None \<Rightarrow> None
      | Some None \<Rightarrow> Some loc
      | Some (Some parent) \<Rightarrow>
          if vmi_key vmi = None then None
          else (case hash_find vmi_key (vmi_key vmi) (vml_intercepts parent) of
                  None \<Rightarrow> Some loc
                | Some found \<Rightarrow>
                    let rest = hash_delete vmi_key (vmi_key vmi) (vml_intercepts parent) in
                    Some (loc \<lparr> cl_activemirrorintercepts :=
                      (if rest = [] then hash_delete vml_sessionid (vmi_sessionid vmi) (cl_activemirrorintercepts loc)
                       else hash_update vml_sessionid (vmi_sessionid vmi)
                              (\<lambda>e. e \<lparr> vml_intercepts := rest,
                                       vml_dangling := (vml_dangling e \<or> vml_owner e = vmi_key vmi) \<rparr>)
                              (cl_activemirrorintercepts loc)) \<rparr>)))"

definition handle_change_vendmirror_intercept ::
  "colthread_local \<Rightarrow> vendmirror_intercept \<Rightarrow> colthread_local option" where
  "handle_change_vendmirror_intercept loc vend =
     (case find_mirror (vmi_sessionid vend) (cl_activemirrorintercepts loc) of
        None \<Rightarrow> None
      | Some None \<Rightarrow> Some loc
      | Some (Some parent) \<Rightarrow>
          if vmi_key vend = None then None
          else Some (loc \<lparr> cl_activemirrorintercepts := hash_update vml_sessionid (vmi_sessionid vend)
            (\<lambda>e. e \<lparr> vml_intercepts := hash_update vmi_key (vmi_key vend)
               (\<lambda>v. v \<lparr> vmi_common := update_intercept_common (vmi_common v) (vmi_common vend) \<rparr>) (vml_intercepts e) \<rparr>)
            (cl_activemirrorintercepts loc) \<rparr>))"

subsection \<open>RTP streams\<close>

definition rtp_key :: "rtpstreaminf \<Rightarrow> bytes option" where
  "rtp_key rtp = map_option c_str (rtp_streamkey rtp)"

definition remove_rtp_stream :: "colthread_local \<Rightarrow> cstr option \<Rightarrow> (int \<times> colthread_local) option" where
  "remove_rtp_stream loc rtpstreamkey =
     (case rtpstreamkey of
        None \<Rightarrow> None
      | Some k \<Rightarrow>
          (case hash_find rtp_key (Some (c_str k)) (cl_activertpintercepts loc) of
             None \<Rightarrow> Some (0, loc)
           | Some rtp \<Rightarrow> Some (1, loc \<lparr> cl_activertpintercepts :=
               hash_delete rtp_key (Some (c_str k)) (cl_activertpintercepts loc) \<rparr>)))"

definition handle_push_ipmmintercept :: "colthread_local \<Rightarrow> rtpstreaminf \<Rightarrow> colthread_local option" where
  "handle_push_ipmmintercept loc rtp =
     (case remove_rtp_stream loc (rtp_streamkey rtp) of
        None \<Rightarrow> None
      | Some (r, loc1) \<Rightarrow> Some (loc1 \<lparr> cl_activertpintercepts := hash_add rtp (cl_activertpintercepts loc1) \<rparr>))"

definition handle_halt_ipmmintercept :: "colthread_local \<Rightarrow> cstr option \<Rightarrow> colthread_local option" where
  "handle_halt_ipmmintercept loc streamkey = map_option snd (remove_rtp_stream loc streamkey)"

definition handle_change_voip_intercept :: "colthread_local \<Rightarrow> rtpstreaminf \<Rightarrow> colthread_local option" where
  "handle_change_voip_intercept loc tochange =
     (if rtp_streamkey tochange = None then Some loc
      else Some (loc \<lparr> cl_activertpintercepts := hash_update rtp_key (rtp_key tochange)
        (\<lambda>rtp. rtp \<lparr> rtp_common := update_intercept_common (rtp_common rtp) (rtp_common tochange) \<rparr>)
        (cl_activertpintercepts loc) \<rparr>))"

subsection \<open>IP sessions and core servers\<close>

definition handle_push_ipintercept :: "addr_lib \<Rightarrow> colthread_local \<Rightarrow> ipsession \<Rightarrow> colthread_local option" where
  "handle_push_ipintercept lib loc sess =
     (if ips_ai_family sess = AF_INET then map_option snd (add_ipv4_intercept loc sess)
      else if ips_ai_family sess = AF_INET6 then map_option snd (add_ipv6_intercept lib loc sess)
      else Some loc)"

definition handle_halt_ipintercept :: "addr_lib \<Rightarrow> colthread_local \<Rightarrow> ipsession \<Rightarrow> colthread_local option" where
  "handle_halt_ipintercept lib loc sess =
     (if ips_ai_family sess = AF_INET then map_option snd (remove_ipv4_intercept loc sess)
      else if ips_ai_family sess = AF_INET6 then map_option snd (remove_ipv6_intercept lib loc sess)
      else Some loc)"

definition handle_change_ipint_intercept :: "addr_lib \<Rightarrow> colthread_local \<Rightarrow> ipsession \<Rightarrow> colthread_local option" where
  "handle_change_ipint_intercept lib loc sess =
     (if ips_ai_family sess = AF_INET then map_option snd (update_ipv4_intercept loc sess)
      else if ips_ai_family sess = AF_INET6 then map_option snd (update_ipv6_intercept lib loc sess)
      else Some loc)"

definition server_key :: "coreserver \<Rightarrow> bytes option" where
  "server_key cs = map_option c_str (cs_serverkey cs)"

text \<open>The change of the list of servers of a type.\<close>

definition on_servlist ::
  "u8 \<Rightarrow> (coreserver list \<Rightarrow> coreserver list) \<Rightarrow> colthread_local \<Rightarrow> colthread_local option" where
  "on_servlist ty f loc =
     (if ty = OPENLI_CORE_SERVER_RADIUS then Some (loc \<lparr> cl_radiusservers := f (cl_radiusservers loc) \<rparr>)
      else if ty = OPENLI_CORE_SERVER_SIP then Some (loc \<lparr> cl_sipservers := f (cl_sipservers loc) \<rparr>)
      else if ty = OPENLI_CORE_SERVER_SMTP then Some (loc \<lparr> cl_smtpservers := f (cl_smtpservers loc) \<rparr>)
      else if ty = OPENLI_CORE_SERVER_IMAP then Some (loc \<lparr> cl_imapservers := f (cl_imapservers loc) \<rparr>)
      else if ty = OPENLI_CORE_SERVER_POP3 then Some (loc \<lparr> cl_pop3servers := f (cl_pop3servers loc) \<rparr>)
      else if ty = OPENLI_CORE_SERVER_GTP then Some (loc \<lparr> cl_gtpservers := f (cl_gtpservers loc) \<rparr>)
      else None)"

definition handle_push_coreserver :: "colthread_local \<Rightarrow> coreserver \<Rightarrow> colthread_local option" where
  "handle_push_coreserver loc cs =
     (case on_servlist (cs_servertype cs)
             (\<lambda>tbl. case hash_find server_key (server_key cs) tbl of None \<Rightarrow> hash_add cs tbl | Some found \<Rightarrow> tbl) loc of
        None \<Rightarrow> Some loc
      | Some loc1 \<Rightarrow> if cs_serverkey cs = None then None else Some loc1)"

definition handle_remove_coreserver :: "colthread_local \<Rightarrow> coreserver \<Rightarrow> colthread_local option" where
  "handle_remove_coreserver loc cs =
     (case on_servlist (cs_servertype cs) (hash_delete server_key (server_key cs)) loc of
        None \<Rightarrow> Some loc
      | Some loc1 \<Rightarrow> if cs_serverkey cs = None then None else Some loc1)"

subsection \<open>Static address ranges\<close>

definition find_static :: "nat list \<Rightarrow> bytes \<Rightarrow> static_entry list \<Rightarrow> static_entry option option" where
  "find_static freed k tbl =
     (case hash_find se_key k tbl of
        None \<Rightarrow> Some None
      | Some e \<Rightarrow> (case se_keyptr e of
          Some p \<Rightarrow> if p \<in> set freed then None else Some (Some e)
        | None \<Rightarrow> Some (Some e)))"

text \<open>One reference more, for a session that exists or for a new one; one reference less.\<close>

definition take_static :: "bytes \<Rightarrow> nat option \<Rightarrow> staticipsession \<Rightarrow> colthread_local \<Rightarrow> colthread_local option" where
  "take_static k keyptr ipr loc =
     (case find_static (cl_freed loc) k (cl_activestaticintercepts loc) of
        None \<Rightarrow> None
      | Some None \<Rightarrow>
          Some (loc \<lparr> cl_activestaticintercepts :=
            hash_add \<lparr> se_key = k, se_keyptr = keyptr, se_sess = ipr \<lparr> sips_references := 1 \<rparr> \<rparr>
              (cl_activestaticintercepts loc) \<rparr>)
      | Some (Some ipr_exist) \<Rightarrow>
          Some (loc \<lparr> cl_activestaticintercepts := hash_update se_key k
            (\<lambda>e. e \<lparr> se_sess := (se_sess e) \<lparr> sips_references := sips_references (se_sess e) + 1 \<rparr> \<rparr>)
            (cl_activestaticintercepts loc) \<rparr>))"

definition drop_static :: "bytes \<Rightarrow> colthread_local \<Rightarrow> colthread_local option" where
  "drop_static k loc =
     (case find_static (cl_freed loc) k (cl_activestaticintercepts loc) of
        None \<Rightarrow> None
      | Some None \<Rightarrow> Some loc
      | Some (Some e) \<Rightarrow>
          Some (loc \<lparr> cl_activestaticintercepts :=
            (if sips_references (se_sess e) - 1 = 0 then hash_delete se_key k (cl_activestaticintercepts loc)
             else hash_update se_key k
               (\<lambda>e. e \<lparr> se_sess := (se_sess e) \<lparr> sips_references := sips_references (se_sess e) - 1 \<rparr> \<rparr>)
               (cl_activestaticintercepts loc)) \<rparr>))"

definition is_v6_range :: "cstr \<Rightarrow> bool" where
  "is_v6_range rangestr \<longleftrightarrow> 58 \<in> set (c_str rangestr)"

definition static_tree :: "bool \<Rightarrow> colthread_local \<Rightarrow> range_tree" where
  "static_tree v6 loc = (if v6 then cl_staticv6ranges loc else cl_staticv4ranges loc)"

definition set_static_tree :: "bool \<Rightarrow> range_tree \<Rightarrow> colthread_local \<Rightarrow> colthread_local" where
  "set_static_tree v6 tree loc =
     (if v6 then loc \<lparr> cl_staticv6ranges := tree \<rparr> else loc \<lparr> cl_staticv4ranges := tree \<rparr>)"

definition tree_bits :: "bool \<Rightarrow> nat" where
  "tree_bits v6 = (if v6 then 128 else 32)"

definition handle_iprange :: "addr_lib \<Rightarrow> colthread_local \<Rightarrow> staticipsession \<Rightarrow> colthread_local option" where
  "handle_iprange lib loc ipr =
     (case sips_rangestr ipr of
        None \<Rightarrow> None
      | Some rangestr \<Rightarrow>
          let v6 = is_v6_range rangestr in
          (case add_iprange_to_patricia lib (tree_bits v6) (static_tree v6 loc) (Some rangestr)
                  (sips_common ipr) (sips_cin ipr) (cl_nextptr loc) of
             None \<Rightarrow> None
           | Some (r, tree) \<Rightarrow>
               let loc1 = (set_static_tree v6 tree loc) \<lparr> cl_nextptr := Suc (cl_nextptr loc) \<rparr> in
               if r \<le> 0 then Some loc1
               else (case sips_key ipr of
                       None \<Rightarrow> None
                     | Some key \<Rightarrow> take_static (c_str key) None ipr loc1)))"

definition handle_modify_iprange :: "addr_lib \<Rightarrow> colthread_local \<Rightarrow> staticipsession \<Rightarrow> colthread_local option" where
  "handle_modify_iprange lib loc ipr =
     (case ascii2prefix (al_inet_pton lib) 0 (map_option c_str (sips_rangestr ipr)) of
        None \<Rightarrow> Some loc
      | Some prefix \<Rightarrow>
          let v6 = (px_family prefix = AF_INET6) in
          (case patricia_search_exact (static_tree v6 loc) prefix of
             None \<Rightarrow> Some loc
           | Some (node, path) \<Rightarrow>
               (case liid_key (sips_common ipr) of
                  None \<Rightarrow> None
                | Some k \<Rightarrow>
                    (case hash_find ls_liid k (node_table node) of
                       None \<Rightarrow> Some loc
                     | Some found \<Rightarrow>
                         (case drop_static (ls_key found) loc of
                            None \<Rightarrow> None
                          | Some loc1 \<Rightarrow>
                              let newkey = range_key (ls_liid found) (sips_cin ipr);
                                  ptr = cl_nextptr loc1;
                                  tree = set_data (node, path) (Some (hash_update ls_liid k
                                    (\<lambda>f. f \<lparr> ls_cin := sips_cin ipr, ls_key := newkey, ls_keyptr := ptr \<rparr>) (node_table node)));
                                  loc2 = (set_static_tree v6 tree loc1)
                                    \<lparr> cl_nextptr := Suc ptr, cl_freed := ls_keyptr found # cl_freed loc1 \<rparr>
                              in take_static newkey (Some ptr) ipr loc2)))))"

definition handle_remove_iprange :: "addr_lib \<Rightarrow> colthread_local \<Rightarrow> staticipsession \<Rightarrow> colthread_local option" where
  "handle_remove_iprange lib loc ipr =
     (case sips_rangestr ipr of
        None \<Rightarrow> None
      | Some rangestr \<Rightarrow>
          let v6 = is_v6_range rangestr in
          (case remove_iprange_from_patricia lib (static_tree v6 loc) (Some rangestr) (sips_common ipr) of
             None \<Rightarrow> None
           | Some (freed, tree) \<Rightarrow>
               (case sips_key ipr of
                  None \<Rightarrow> None
                | Some key \<Rightarrow>
                    drop_static (c_str key) ((set_static_tree v6 tree loc) \<lparr> cl_freed := freed @ cl_freed loc \<rparr>))))"

definition handle_change_iprange_intercept :: "colthread_local \<Rightarrow> staticipsession \<Rightarrow> colthread_local option" where
  "handle_change_iprange_intercept loc ipr =
     (case sips_key ipr of
        None \<Rightarrow> None
      | Some key \<Rightarrow>
          (case find_static (cl_freed loc) (c_str key) (cl_activestaticintercepts loc) of
             None \<Rightarrow> None
           | Some None \<Rightarrow> Some loc
           | Some (Some sessrec) \<Rightarrow>
               Some (loc \<lparr> cl_activestaticintercepts := hash_update se_key (c_str key)
                 (\<lambda>e. e \<lparr> se_sess := (se_sess e) \<lparr> sips_common :=
                    update_intercept_common (sips_common (se_sess e)) (sips_common ipr) \<rparr> \<rparr>)
                 (cl_activestaticintercepts loc) \<rparr>)))"

subsection \<open>Dispatch\<close>

datatype openli_pushed =
  OPENLI_PUSH_IPINTERCEPT ipsession
| OPENLI_PUSH_HALT_IPINTERCEPT ipsession
| OPENLI_PUSH_IPMMINTERCEPT rtpstreaminf
| OPENLI_PUSH_HALT_IPMMINTERCEPT "cstr option"
| OPENLI_PUSH_CORESERVER coreserver
| OPENLI_PUSH_REMOVE_CORESERVER coreserver
| OPENLI_PUSH_VENDMIRROR_INTERCEPT vendmirror_intercept
| OPENLI_PUSH_HALT_VENDMIRROR_INTERCEPT vendmirror_intercept
| OPENLI_PUSH_IPRANGE staticipsession
| OPENLI_PUSH_REMOVE_IPRANGE staticipsession
| OPENLI_PUSH_MODIFY_IPRANGE staticipsession
| OPENLI_PUSH_UPDATE_VOIPINTERCEPT rtpstreaminf
| OPENLI_PUSH_UPDATE_IPINTERCEPT ipsession
| OPENLI_PUSH_UPDATE_VENDMIRROR_INTERCEPT vendmirror_intercept
| OPENLI_PUSH_UPDATE_IPRANGE_INTERCEPT staticipsession

definition process_incoming_messages ::
  "addr_lib \<Rightarrow> colthread_local \<Rightarrow> openli_pushed \<Rightarrow> colthread_local option" where
  "process_incoming_messages lib loc syncpush =
     (case syncpush of
        OPENLI_PUSH_IPINTERCEPT sess \<Rightarrow> handle_push_ipintercept lib loc sess
      | OPENLI_PUSH_HALT_IPINTERCEPT sess \<Rightarrow> handle_halt_ipintercept lib loc sess
      | OPENLI_PUSH_IPMMINTERCEPT rtp \<Rightarrow> handle_push_ipmmintercept loc rtp
      | OPENLI_PUSH_HALT_IPMMINTERCEPT key \<Rightarrow> handle_halt_ipmmintercept loc key
      | OPENLI_PUSH_CORESERVER cs \<Rightarrow> handle_push_coreserver loc cs
      | OPENLI_PUSH_REMOVE_CORESERVER cs \<Rightarrow> handle_remove_coreserver loc cs
      | OPENLI_PUSH_VENDMIRROR_INTERCEPT vmi \<Rightarrow> handle_push_mirror_intercept loc vmi
      | OPENLI_PUSH_HALT_VENDMIRROR_INTERCEPT vmi \<Rightarrow> handle_halt_mirror_intercept loc vmi
      | OPENLI_PUSH_IPRANGE ipr \<Rightarrow> handle_iprange lib loc ipr
      | OPENLI_PUSH_REMOVE_IPRANGE ipr \<Rightarrow> handle_remove_iprange lib loc ipr
      | OPENLI_PUSH_MODIFY_IPRANGE ipr \<Rightarrow> handle_modify_iprange lib loc ipr
      | OPENLI_PUSH_UPDATE_VOIPINTERCEPT rtp \<Rightarrow> handle_change_voip_intercept loc rtp
      | OPENLI_PUSH_UPDATE_IPINTERCEPT sess \<Rightarrow> handle_change_ipint_intercept lib loc sess
      | OPENLI_PUSH_UPDATE_VENDMIRROR_INTERCEPT vmi \<Rightarrow> handle_change_vendmirror_intercept loc vmi
      | OPENLI_PUSH_UPDATE_IPRANGE_INTERCEPT ipr \<Rightarrow> handle_change_iprange_intercept loc ipr)"

end
