(* ===== verification/Range_Tables.thy ===== *)
theory Range_Tables
  imports Push_Messaging
begin

text \<open>
  The tables of address ranges: what the packet threads rely on when they look up the intercepts of
  an address, and that the Patricia trees of \<^verbatim>\<open>src/extlib/libpatricia/patricia.c\<close> with the operations of
  \<^verbatim>\<open>src/src/collector/collector_push_messaging.c\<close> provide it.
\<close>

subsection \<open>The interface\<close>

datatype ('p, 'e, 'n) range_op = Put 'p 'e | Del 'p 'n

text \<open>The specification: the list of the entries in force.\<close>

fun spec_op :: "('p \<Rightarrow> bool list) \<Rightarrow> ('e \<Rightarrow> 'n) \<Rightarrow> ('p, 'e, 'n) range_op \<Rightarrow> (bool list \<times> 'e) list \<Rightarrow> (bool list \<times> 'e) list" where
  "spec_op bits name (Put p e) rs =
     (if \<exists>(k, e') \<in> set rs. k = bits p \<and> name e' = name e then rs else rs @ [(bits p, e)])"
| "spec_op bits name (Del p n) rs = filter (\<lambda>(k, e). \<not> (k = bits p \<and> name e = n)) rs"

text \<open>A sequence of operations on a table.\<close>

fun range_run ::
  "('p \<Rightarrow> 'e \<Rightarrow> 't \<Rightarrow> 't option) \<Rightarrow> ('p \<Rightarrow> 'n \<Rightarrow> 't \<Rightarrow> 't option) \<Rightarrow> ('p, 'e, 'n) range_op list \<Rightarrow> 't \<Rightarrow> 't option" where
  "range_run put del [] t = Some t"
| "range_run put del (Put p e # ops) t = (case put p e t of None \<Rightarrow> None | Some t' \<Rightarrow> range_run put del ops t')"
| "range_run put del (Del p n # ops) t = (case del p n t of None \<Rightarrow> None | Some t' \<Rightarrow> range_run put del ops t')"

fun op_prefix :: "('p, 'e, 'n) range_op \<Rightarrow> 'p" where
  "op_prefix (Put p e) = p"
| "op_prefix (Del p n) = p"

locale range_table =
  fixes inv :: "'t \<Rightarrow> bool" and ranges :: "'t \<Rightarrow> (bool list \<times> 'e) set"
    and name :: "'e \<Rightarrow> 'n" and bits :: "'p \<Rightarrow> bool list" and fits :: "'p \<Rightarrow> bool"
    and none :: 't and put :: "'p \<Rightarrow> 'e \<Rightarrow> 't \<Rightarrow> 't option" and del :: "'p \<Rightarrow> 'n \<Rightarrow> 't \<Rightarrow> 't option"
    and visit :: "'t \<Rightarrow> 'p \<Rightarrow> 'e list" and host :: "'p \<Rightarrow> bool"
  assumes none: "inv none" "ranges none = {}"
    and put: "inv t \<Longrightarrow> fits p \<Longrightarrow>
      \<exists>t'. put p e t = Some t' \<and> inv t' \<and>
        ranges t' = (if \<exists>(k, e') \<in> ranges t. k = bits p \<and> name e' = name e then ranges t
                     else insert (bits p, e) (ranges t))"
    and del: "inv t \<Longrightarrow> fits p \<Longrightarrow>
      \<exists>t'. del p n t = Some t' \<and> inv t' \<and> ranges t' = {(k, e) \<in> ranges t. \<not> (k = bits p \<and> name e = n)}"
    and visit: "inv t \<Longrightarrow> fits p \<Longrightarrow> host p \<Longrightarrow>
      \<exists>vs. map snd vs = visit t p \<and> distinct vs \<and> set vs = {(k, e) \<in> ranges t. covers k (bits p)}"
begin

lemma step_refines:
  assumes "inv t" "fits (op_prefix x)" "distinct rs" "set rs = ranges t"
  shows "\<exists>t'. range_run put del [x] t = Some t' \<and> inv t' \<and> distinct (spec_op bits name x rs) \<and> set (spec_op bits name x rs) = ranges t'"
proof (cases x)
  case (Put p e)
  obtain t' where t': "put p e t = Some t'" "inv t'"
      "ranges t' = (if \<exists>(k, e') \<in> ranges t. k = bits p \<and> name e' = name e then ranges t
                    else insert (bits p, e) (ranges t))"
    using put [OF assms(1), of p e] assms(2) Put by auto
  have "(bits p, e) \<notin> set rs" if "\<not> (\<exists>(k, e') \<in> set rs. k = bits p \<and> name e' = name e)"
    using that by auto
  with t' assms(3,4) Put show ?thesis by auto
next
  case (Del p n)
  obtain t' where "del p n t = Some t'" "inv t'" "ranges t' = {(k, e) \<in> ranges t. \<not> (k = bits p \<and> name e = n)}"
    using del [OF assms(1), of p n] assms(2) Del by auto
  with assms(3,4) Del show ?thesis by auto
qed

text \<open>After any sequence of operations the table has the entries of the specification.\<close>

lemma run_refines:
  assumes "inv t" "\<forall>x \<in> set ops. fits (op_prefix x)" "distinct rs" "set rs = ranges t"
  shows "\<exists>t'. range_run put del ops t = Some t' \<and> inv t' \<and> distinct (fold (spec_op bits name) ops rs) \<and>
    set (fold (spec_op bits name) ops rs) = ranges t'"
  using assms
proof (induction ops arbitrary: t rs)
  case (Cons x ops)
  obtain t1 where t1: "range_run put del [x] t = Some t1" "inv t1" "distinct (spec_op bits name x rs)" "set (spec_op bits name x rs) = ranges t1"
    using step_refines [OF Cons.prems(1) _ Cons.prems(3,4), of x] Cons.prems(2) by auto
  have "range_run put del (x # ops) t = range_run put del ops t1" using t1(1) by (cases x) (auto split: option.splits)
  then show ?case using Cons.IH [OF t1(2) _ t1(3,4)] Cons.prems(2) by simp
qed auto

text \<open>And the search for an address visits those that contain it, each once.\<close>

lemma run_visit:
  assumes "\<forall>x \<in> set ops. fits (op_prefix x)" "fits h" "host h"
  shows "\<exists>t. range_run put del ops none = Some t \<and>
    mset (visit t h) = mset (map snd (filter (\<lambda>(k, e). covers k (bits h)) (fold (spec_op bits name) ops [])))"
proof -
  let ?rs = "fold (spec_op bits name) ops []"
  obtain t where t: "range_run put del ops none = Some t" "inv t" "distinct ?rs" "set ?rs = ranges t"
    using run_refines [OF none(1) assms(1), of "[]"] none(2) by auto
  obtain vs where vs: "map snd vs = visit t h" "distinct vs" "set vs = {(k, e) \<in> ranges t. covers k (bits h)}"
    using visit [OF t(2) assms(2,3)] by blast
  have "set vs = set (filter (\<lambda>(k, e). covers k (bits h)) ?rs)" using vs(3) t(4) by auto
  then have "mset vs = mset (filter (\<lambda>(k, e). covers k (bits h)) ?rs)"
    using set_eq_iff_mset_eq_distinct [of vs "filter (\<lambda>(k, e). covers k (bits h)) ?rs"] vs(2) distinct_filter [OF t(3)]
    by blast
  then have "mset (map snd vs) = mset (map snd (filter (\<lambda>(k, e). covers k (bits h)) ?rs))" by simp
  with t(1) vs(1) show ?thesis by metis
qed

end

subsection \<open>The trees\<close>

text \<open>The ranges of a tree with the intercepts that have them; a range without intercepts is no entry.\<close>

definition range_sets :: "range_tree \<Rightarrow> (bool list \<times> liid_set) set" where
  "range_sets t = {(k, ls). \<exists>all. (k, Some all) \<in> pents t \<and> ls \<in> set all}"

definition tables_ok :: "(bool list \<times> liid_set list option) set \<Rightarrow> bool" where
  "tables_ok E \<longleftrightarrow> (\<forall>k x. (k, x) \<in> E \<longrightarrow> (\<exists>all. x = Some all \<and> all \<noteq> [] \<and> hash_ok ls_liid all))"

definition range_inv :: "nat \<Rightarrow> range_tree \<Rightarrow> bool" where
  "range_inv M t \<longleftrightarrow> pwf M t \<and> tables_ok (pents t)"

definition tree_put :: "nat \<Rightarrow> prefix \<Rightarrow> liid_set \<Rightarrow> range_tree \<Rightarrow> range_tree option" where
  "tree_put M p e t = map_option snd (put_range M t p (ls_liid e) e)"

definition tree_del :: "prefix \<Rightarrow> bytes \<Rightarrow> range_tree \<Rightarrow> range_tree option" where
  "tree_del p n t = map_option snd (del_range t p n)"

text \<open>The intercepts that a search for an address comes across: those of the best match and of the nodes
  above it.\<close>

definition chain_tables :: "liid_set list place \<Rightarrow> liid_set list" where
  "chain_tables pl =
     node_table (fst pl) @ concat (map (\<lambda>c. case cr_data c of None \<Rightarrow> [] | Some all \<Rightarrow> all) (snd pl))"

definition range_visit :: "range_tree \<Rightarrow> prefix \<Rightarrow> liid_set list" where
  "range_visit t p = (case patricia_search_best2 t p True of None \<Rightarrow> [] | Some pl \<Rightarrow> chain_tables pl)"

lemma range_sets_at:
  assumes "pwf M t" "(k, Some all) \<in> pents t"
  shows "(k, e) \<in> range_sets t \<longleftrightarrow> e \<in> set all"
proof -
  have "x = Some all" if "(k, x) \<in> pents t" for x by (rule pents_unique [OF assms(1) that assms(2)])
  with assms(2) show ?thesis by (auto simp: range_sets_def)
qed

lemma range_sets_key: "(k, e) \<in> range_sets t \<Longrightarrow> k \<in> pkeys t"
  by (auto simp: range_sets_def intro: pkeysI)

lemma range_sets_swap:
  assumes "pents t' = insert (k, Some all') (pents t - {(k, x)})" "pwf M t" "(k, x) \<in> pents t \<or> k \<notin> pkeys t"
  shows "range_sets t' = {(k', e) \<in> range_sets t. k' \<noteq> k} \<union> Pair k ` set all'"
proof -
  have gone: "(k, y) \<notin> pents t - {(k, x)}" for y
  proof
    assume y: "(k, y) \<in> pents t - {(k, x)}"
    then have "(k, x) \<in> pents t" using assms(3) pkeysI [of k y t] by blast
    with y show False using pents_unique [OF assms(2), of k x y] by blast
  qed
  have "(k', Some all) \<in> pents t' \<longleftrightarrow> (if k' = k then all = all' else (k', Some all) \<in> pents t)" for k' all
    unfolding assms(1) using gone by auto
  then show ?thesis by (auto simp: range_sets_def split: if_splits)
qed

lemma tables_ok_insert:
  "tables_ok E \<Longrightarrow> all \<noteq> [] \<Longrightarrow> hash_ok ls_liid all \<Longrightarrow> tables_ok (insert (k, Some all) (E - F))"
  unfolding tables_ok_def by blast

lemma put_range_correct:
  assumes inv: "range_inv M t" and fits: "prefix_fits M p" and name: "ls_liid e = n"
  shows "\<exists>r t'. put_range M t p n e = Some (r, t') \<and> range_inv M t' \<and>
    (r = (if \<exists>(k, e') \<in> range_sets t. k = pkey p \<and> ls_liid e' = n then 0 else 1)) \<and>
    range_sets t' = (if \<exists>(k, e') \<in> range_sets t. k = pkey p \<and> ls_liid e' = n then range_sets t
                     else insert (pkey p, e) (range_sets t))"
proof -
  have wf: "pwf M t" "tables_ok (pents t)" using inv by (simp_all add: range_inv_def)
  obtain pl where pl: "patricia_lookup M t p = Some pl" "inserted M t p pl"
    using patricia_lookup_correct [OF wf(1)] fits unfolding prefix_fits_def by blast
  obtain q l r d path where node: "pl = (Node (px_bitlen p) (Some q) l r d, path)" "pkey q = pkey p"
      "pwf M (plug (Node (px_bitlen p) (Some q) l r d) path)"
      "pents (plug (Node (px_bitlen p) (Some q) l r d) path) =
         (if pkey p \<in> pkeys t then pents t else insert (pkey p, None) (pents t))"
    using pl(2) unfolding inserted_def by blast
  let ?n = "Node (px_bitlen p) (Some q) l r d"
  let ?all = "node_table ?n"
  have here: "(pkey p, d) \<in> pents (plug ?n path)" using node(2) by (simp add: pents_plug own_def)
  have table: "(pkey p, d) \<in> pents t \<and> d = Some ?all \<and> hash_ok ls_liid ?all \<or> pkey p \<notin> pkeys t \<and> d = None \<and> ?all = []"
  proof (cases "pkey p \<in> pkeys t")
    case True
    then have "(pkey p, d) \<in> pents t" using here node(4) by simp
    moreover from this obtain all where "d = Some all" "hash_ok ls_liid all" using wf(2) unfolding tables_ok_def by blast
    ultimately show ?thesis by (simp add: node_table_def)
  next
    case False
    then have "d = None" using here node(4) pkeysI by auto
    with False show ?thesis by (simp add: node_table_def)
  qed
  have gone: "pents (plug ?n path) - {(pkey p, d)} = pents t - {(pkey p, d)}"
  proof (cases "pkey p \<in> pkeys t")
    case False
    then have "d = None" using table pkeysI by blast
    with False node(4) show ?thesis by simp
  qed (use node(4) in simp)
  have mem: "(pkey p, x) \<in> range_sets t \<longleftrightarrow> x \<in> set ?all" for x
    using table range_sets_at [OF wf(1)] range_sets_key by force
  show ?thesis
  proof (cases "hash_find ls_liid n ?all")
    case None
    then have new: "\<not> (\<exists>(k, e') \<in> range_sets t. k = pkey p \<and> ls_liid e' = n)"
      using mem by (auto simp: hash_find_None)
    let ?t = "set_data (?n, path) (Some (hash_add e ?all))"
    have put: "put_range M t p n e = Some (1, ?t)" using pl(1) node(1) None by (simp add: put_range_def)
    have ents: "pents ?t = insert (pkey p, Some (hash_add e ?all)) (pents t - {(pkey p, d)})"
      unfolding set_data_correct(2) [OF node(3)] node(2) gone ..
    have "range_sets ?t = {(k', x) \<in> range_sets t. k' \<noteq> pkey p} \<union> Pair (pkey p) ` set (hash_add e ?all)"
      using range_sets_swap [OF ents wf(1)] table by blast
    also have "\<dots> = insert (pkey p, e) (range_sets t)" using mem by auto
    finally have sets: "range_sets ?t = insert (pkey p, e) (range_sets t)" .
    have "hash_ok ls_liid (hash_add e ?all)" using table None name by (auto simp: hash_ok_add)
    then have "tables_ok (pents ?t)" unfolding ents by (intro tables_ok_insert [OF wf(2)]) (auto simp: hash_add_def)
    then have "range_inv M ?t" using set_data_correct(1) [OF node(3)] by (simp add: range_inv_def)
    with put sets new show ?thesis by auto
  next
    case (Some found)
    then have old: "\<exists>(k, e') \<in> range_sets t. k = pkey p \<and> ls_liid e' = n" and "?all \<noteq> []"
      using mem hash_find_SomeD [OF Some] by auto
    then have same: "pents (plug ?n path) = pents t" using node(4) table pkeysI by auto
    have "put_range M t p n e = Some (0, plug ?n path)" using pl(1) node(1) Some by (simp add: put_range_def)
    moreover have "range_inv M (plug ?n path)" using node(3) same wf(2) by (simp add: range_inv_def)
    moreover have "range_sets (plug ?n path) = range_sets t" using same by (simp add: range_sets_def)
    ultimately show ?thesis using old by auto
  qed
qed

lemma del_range_correct:
  assumes inv: "range_inv M t" and fits: "prefix_fits M p"
  shows "\<exists>freed t'. del_range t p n = Some (freed, t') \<and> range_inv M t' \<and>
    set freed = ls_keyptr ` {e. (pkey p, e) \<in> range_sets t \<and> ls_liid e = n} \<and>
    range_sets t' = {(k, e) \<in> range_sets t. \<not> (k = pkey p \<and> ls_liid e = n)}"
proof -
  have wf: "pwf M t" "tables_ok (pents t)" using inv by (simp_all add: range_inv_def)
  have fit: "px_bitlen p \<le> M" "M \<le> 8 * length (px_add p)" using fits by (simp_all add: prefix_fits_def)
  show ?thesis
  proof (cases "patricia_search_exact t p")
    case None
    then have "pkey p \<notin> pkeys t" using search_exact_iff [OF wf(1) fit] by simp
    then have "(pkey p, e) \<notin> range_sets t" for e using range_sets_key by blast
    then show ?thesis using None inv by (auto simp: del_range_def)
  next
    case (Some pl)
    obtain q l r d path where node: "pl = (Node (px_bitlen p) (Some q) l r d, path)" "pkey q = pkey p"
        "plug (Node (px_bitlen p) (Some q) l r d) path = t"
      using search_exact_place [OF wf(1) fit Some] unfolding place_of_def by blast
    let ?n = "Node (px_bitlen p) (Some q) l r d"
    have wfp: "pwf M (plug ?n path)" using wf(1) node(3) by simp
    have here: "(pkey p, d) \<in> pents t" using node(2,3) by (auto simp: pents_plug own_def)
    then obtain all where all: "d = Some all" "hash_ok ls_liid all" "all \<noteq> []" using wf(2) unfolding tables_ok_def by blast
    have mem: "(pkey p, x) \<in> range_sets t \<longleftrightarrow> x \<in> set all" for x using range_sets_at [OF wf(1)] here all(1) by blast
    have tbl: "node_table ?n = all" using all(1) by (simp add: node_table_def)
    show ?thesis
    proof (cases "hash_find ls_liid n all")
      case None
      then have "\<forall>e. (pkey p, e) \<in> range_sets t \<longrightarrow> ls_liid e \<noteq> n" using mem by (simp add: hash_find_None)
      moreover have "del_range t p n = Some ([], t)" using Some node(1) None tbl by (simp add: del_range_def)
      ultimately show ?thesis using inv by auto
    next
      case found: (Some f)
      let ?rest = "hash_delete ls_liid n all"
      have f: "f \<in> set all" "ls_liid f = n" using hash_find_SomeD [OF found] by auto
      have only: "{e. (pkey p, e) \<in> range_sets t \<and> ls_liid e = n} = {f}"
      proof -
        have "e = f" if "e \<in> set all" "ls_liid e = n" for e
          using that hash_find_Some [OF all(2), of n e] found by simp
        with f mem show ?thesis by blast
      qed
      show ?thesis
      proof (cases "?rest = []")
        case True
        obtain t' where t': "patricia_remove (?n, path) = Some t'" "pwf M t'" "pents t' = pents t - {(pkey p, d)}"
          using patricia_remove_correct [OF wfp] node(2,3) by auto
        have "del_range t p n = Some ([ls_keyptr f], t')"
          using Some node(1) found tbl True t'(1) by (simp add: del_range_def)
        moreover have "range_inv M t'" using t'(2,3) wf(2) unfolding range_inv_def tables_ok_def by blast
        moreover have "range_sets t' = {(k, e) \<in> range_sets t. k \<noteq> pkey p}"
          using t'(3) pents_unique [OF wf(1) here] unfolding range_sets_def by blast
        then have "range_sets t' = {(k, e) \<in> range_sets t. \<not> (k = pkey p \<and> ls_liid e = n)}"
          using True mem by (auto simp: hash_delete_def filter_empty_conv)
        ultimately show ?thesis using only by simp
      next
        case False
        let ?t = "set_data (?n, path) (Some ?rest)"
        have ents: "pents ?t = insert (pkey p, Some ?rest) (pents t - {(pkey p, d)})"
          using set_data_correct(2) [OF wfp, of "Some ?rest"] node(2,3) by simp
        have "del_range t p n = Some ([ls_keyptr f], ?t)"
          using Some node(1) found tbl False by (simp add: del_range_def split: list.split)
        moreover have "range_inv M ?t"
          using set_data_correct(1) [OF wfp] tables_ok_insert [OF wf(2) False] hash_ok_delete [OF all(2)] ents
          by (simp add: range_inv_def)
        moreover have "range_sets ?t = {(k', x) \<in> range_sets t. k' \<noteq> pkey p} \<union> Pair (pkey p) ` set ?rest"
          using range_sets_swap [OF ents wf(1)] here by blast
        then have "range_sets ?t = {(k, e) \<in> range_sets t. \<not> (k = pkey p \<and> ls_liid e = n)}" using mem by auto
        ultimately show ?thesis using only by simp
      qed
    qed
  qed
qed

text \<open>The visited intercepts together with the range they have.\<close>

definition own_pairs :: "prefix option \<Rightarrow> liid_set list option \<Rightarrow> (bool list \<times> liid_set) list" where
  "own_pairs p d = (case (p, d) of (Some q, Some all) \<Rightarrow> map (Pair (pkey q)) all | _ \<Rightarrow> [])"

fun path_pairs :: "liid_set list crumb list \<Rightarrow> (bool list \<times> liid_set) list" where
  "path_pairs [] = []"
| "path_pairs (Crumb rt b p d other # path) = own_pairs p d @ path_pairs path"

definition tables_of :: "(bool list \<times> liid_set list option) set \<Rightarrow> (bool list \<times> liid_set) set" where
  "tables_of E = {(k, ls). \<exists>all. (k, Some all) \<in> E \<and> ls \<in> set all}"

lemma tables_of_simps [simp]: "tables_of {} = {}" "tables_of (E \<union> F) = tables_of E \<union> tables_of F"
  by (auto simp: tables_of_def)

lemma set_own_pairs [simp]: "set (own_pairs p d) = tables_of (own p d)"
  by (auto simp: own_pairs_def own_def tables_of_def split: option.splits)

lemma set_path_pairs: "set (path_pairs path) = tables_of (crumb_ents path)"
  by (induction path rule: path_pairs.induct) auto

lemma distinct_own_pairs: "tables_ok (own p d) \<Longrightarrow> distinct (own_pairs p d)"
  by (auto simp: own_pairs_def own_def tables_ok_def hash_ok_def distinct_map inj_on_def split: option.splits)

lemma crumb_keys:
  assumes "pathwf M B K path" "(k, x) \<in> crumb_ents path"
  shows "length k < B"
  using assms
proof (induction path arbitrary: B K)
  case (Cons c path)
  obtain rt b p d other where c: "c = Crumb rt b p d other" by (cases c)
  have wf: "b < B" "prefix_ok M b p d (other \<noteq> Null)" "pathwf M b (K \<union> pkeys other \<union> okeys p) path"
    using Cons.prems(1) c by simp_all
  show ?case
  proof (cases "(k, x) \<in> own p d")
    case True
    then show ?thesis using wf(1,2) by (auto simp: own_def prefix_ok_def split: option.splits)
  next
    case False
    then have "length k < b" using Cons.IH [OF wf(3)] Cons.prems(2) c by simp
    with wf(1) show ?thesis by simp
  qed
qed simp

lemma tables_ok_mono: "tables_ok F \<Longrightarrow> E \<subseteq> F \<Longrightarrow> tables_ok E"
  unfolding tables_ok_def by blast

lemma own_pairs_apart:
  assumes "prefix_ok M b p d two" "\<And>k x. (k, x) \<in> E \<Longrightarrow> length k < b"
  shows "set (own_pairs p d) \<inter> tables_of E = {}"
proof -
  have "length k = b" if "(k, x) \<in> own p d" for k x
    using assms(1) that by (auto simp: own_def prefix_ok_def split: option.splits)
  with assms(2) show ?thesis by (fastforce simp: tables_of_def)
qed

lemma distinct_path_pairs:
  assumes "pathwf M B K path" "tables_ok (crumb_ents path)"
  shows "distinct (path_pairs path)"
  using assms
proof (induction path arbitrary: B K)
  case (Cons c path)
  obtain rt b p d other where c: "c = Crumb rt b p d other" by (cases c)
  have wf: "prefix_ok M b p d (other \<noteq> Null)" "pathwf M b (K \<union> pkeys other \<union> okeys p) path"
    using Cons.prems(1) c by simp_all
  have ok: "tables_ok (own p d)" "tables_ok (crumb_ents path)"
    using Cons.prems(2) c by (auto elim: tables_ok_mono)
  have "set (own_pairs p d) \<inter> set (path_pairs path) = {}"
    unfolding set_path_pairs by (rule own_pairs_apart [OF wf(1) crumb_keys [OF wf(2)]])
  then show ?case using c distinct_own_pairs [OF ok(1)] Cons.IH [OF wf(2) ok(2)] by simp
qed simp

lemma snd_own_pairs:
  assumes "prefix_ok M b p d two"
  shows "map snd (own_pairs p d) = (case d of None \<Rightarrow> [] | Some all \<Rightarrow> all)"
  using assms by (auto simp: own_pairs_def prefix_ok_def comp_def split: option.splits)

lemma snd_path_pairs:
  assumes "pathwf M B K path"
  shows "map snd (path_pairs path) = concat (map (\<lambda>c. case cr_data c of None \<Rightarrow> [] | Some all \<Rightarrow> all) path)"
  using assms
proof (induction path arbitrary: B K)
  case (Cons c path)
  obtain rt b p d other where c: "c = Crumb rt b p d other" by (cases c)
  have wf: "prefix_ok M b p d (other \<noteq> Null)" "pathwf M b (K \<union> pkeys other \<union> okeys p) path"
    using Cons.prems c by simp_all
  then show ?case using c snd_own_pairs [OF wf(1)] Cons.IH [OF wf(2)] by simp
qed simp

lemma deepest_place: "deepest pfx n path = Some (m, mp) \<Longrightarrow> m \<noteq> Null \<and> plug m mp = plug n path"
proof (induction n arbitrary: path)
  case (Node b p l r d)
  let ?self = "if prefix_match pfx (Node b p l r d, path) then Some (Node b p l r d, path) else None"
  consider "?self = Some (m, mp)" | "deepest pfx r (Crumb True b p d l # path) = Some (m, mp)"
    | "deepest pfx l (Crumb False b p d r # path) = Some (m, mp)"
    using Node.prems by (auto simp: Let_def split: if_splits option.splits)
  then show ?case
  proof cases
    case 1
    then show ?thesis by (auto split: if_splits)
  next
    case 2
    from Node.IH(2) [OF this] show ?thesis by simp
  next
    case 3
    from Node.IH(1) [OF this] show ?thesis by simp
  qed
qed simp

lemma range_visit_correct:
  assumes inv: "range_inv M t" and fits: "prefix_fits M p" and host: "px_bitlen p = M"
  shows "\<exists>vs. map snd vs = range_visit t p \<and> distinct vs \<and> set vs = {(k, e) \<in> range_sets t. covers k (pkey p)}"
proof -
  have wf: "pwf M t" "tables_ok (pents t)" using inv by (simp_all add: range_inv_def)
  have len: "M \<le> 8 * length (px_add p)" using fits by (simp add: prefix_fits_def)
  note cov = search_best_covering [OF wf(1) host len]
  have sets: "tables_of (covering (pkey p) (pents t)) = {(k, e) \<in> range_sets t. covers k (pkey p)}"
    by (auto simp: tables_of_def covering_def range_sets_def)
  show ?thesis
  proof (cases "patricia_search_best2 t p True")
    case None
    then show ?thesis using cov sets by (intro exI [of _ "[]"]) (simp add: range_visit_def)
  next
    case (Some pl)
    obtain m mp where pl: "pl = (m, mp)" by (cases pl)
    have place: "m \<noteq> Null" "plug m mp = t"
      using deepest_place [of p t "[]" m mp] Some pl by (simp_all add: search_best_deepest)
    have wfm: "pwf M m" "pathwf M (node_bit m) (pkeys m) mp" using pwf_plug [OF place(1), of M mp] wf(1) place(2) by simp_all
    obtain b q l r d where m: "m = Node b q l r d" using place(1) by (cases m) auto
    have own: "prefix_ok M b q d (l \<noteq> Null \<and> r \<noteq> Null)" using wfm(1) m by simp
    let ?vs = "own_pairs q d @ path_pairs mp"
    have chain: "own q d \<union> crumb_ents mp = covering (pkey p) (pents t)"
      using cov Some pl m by (simp add: chain_ents_def)
    have "covering (pkey p) (pents t) \<subseteq> pents t" by (auto simp: covering_def)
    then have ok: "tables_ok (own q d)" "tables_ok (crumb_ents mp)"
      using tables_ok_mono [OF wf(2)] chain by blast+
    have "set (own_pairs q d) \<inter> set (path_pairs mp) = {}"
      unfolding set_path_pairs using wfm(2) m by (intro own_pairs_apart [OF own crumb_keys]) simp_all
    then have "distinct ?vs" using distinct_own_pairs [OF ok(1)] distinct_path_pairs [OF wfm(2) ok(2)] by simp
    moreover have "map snd ?vs = range_visit t p"
      using snd_own_pairs [OF own] snd_path_pairs [OF wfm(2)] Some pl m
      by (simp add: range_visit_def chain_tables_def node_table_def)
    moreover have "set ?vs = tables_of (covering (pkey p) (pents t))"
      using chain by (simp add: set_path_pairs flip: tables_of_simps)
    ultimately show ?thesis using sets by blast
  qed
qed

interpretation tree_ranges: range_table "range_inv M" range_sets ls_liid pkey "prefix_fits M" Null
  "tree_put M" tree_del range_visit "\<lambda>p. px_bitlen p = M" for M
proof
  show "range_inv M Null" by (simp add: range_inv_def tables_ok_def)
  show "range_sets Null = {}" by (simp add: range_sets_def)
next
  fix t p e assume "range_inv M t" "prefix_fits M p"
  from put_range_correct [OF this refl, of e]
  show "\<exists>t'. tree_put M p e t = Some t' \<and> range_inv M t' \<and>
      range_sets t' = (if \<exists>(k, e') \<in> range_sets t. k = pkey p \<and> ls_liid e' = ls_liid e then range_sets t
                       else insert (pkey p, e) (range_sets t))"
    unfolding tree_put_def by (elim exE conjE) simp
next
  fix t p n assume "range_inv M t" "prefix_fits M p"
  from del_range_correct [OF this, of n]
  show "\<exists>t'. tree_del p n t = Some t' \<and> range_inv M t' \<and>
      range_sets t' = {(k, e) \<in> range_sets t. \<not> (k = pkey p \<and> ls_liid e = n)}"
    unfolding tree_del_def by (elim exE conjE) simp
next
  fix t p assume "range_inv M t" "prefix_fits M p" "px_bitlen p = M"
  then show "\<exists>vs. map snd vs = range_visit t p \<and> distinct vs \<and> set vs = {(k, e) \<in> range_sets t. covers k (pkey p)}"
    by (rule range_visit_correct)
qed

text \<open>C3. The trees of address ranges are tables. After any sequence of additions and removals of ranges
  the search for an address comes across exactly those intercepts that have a range in force which
  contains the address, once for each such range.\<close>

theorem range_tree_refines:
  assumes "\<forall>x \<in> set ops. prefix_fits M (op_prefix x)" "prefix_fits M h" "px_bitlen h = M"
  shows "\<exists>t. range_run (tree_put M) tree_del ops Null = Some t \<and>
    mset (range_visit t h) =
      mset (map snd (filter (\<lambda>(k, e). covers k (pkey h)) (fold (spec_op pkey ls_liid) ops [])))"
  using assms by (rule tree_ranges.run_visit)

definition ex_range :: "bytes \<Rightarrow> nat \<Rightarrow> prefix" where
  "ex_range addr bitlen = \<lparr> px_family = AF_INET, px_bitlen = bitlen, px_add = addr \<rparr>"

definition ex_set :: "cstr \<Rightarrow> nat \<Rightarrow> liid_set" where
  "ex_set liid ptr = \<lparr> ls_liid = liid, ls_cin = 1, ls_key = range_key liid 1, ls_keyptr = ptr \<rparr>"

definition ex_ops :: "(prefix, liid_set, bytes) range_op list" where
  "ex_ops = [Put (ex_range [10, 0, 0, 0] 8) (ex_set [65] 0), Put (ex_range [10, 1, 0, 0] 16) (ex_set [66] 1),
     Put (ex_range [10, 2, 0, 0] 16) (ex_set [66] 2), Del (ex_range [10, 2, 0, 0] 16) [66]]"

lemma ex_spec:
  "map snd (filter (\<lambda>(k, e). covers k (pkey (ex_range [10, 1, 2, 3] 32))) (fold (spec_op pkey ls_liid) ex_ops [])) =
     [ex_set [65] 0, ex_set [66] 1]"
  by code_simp

theorem range_tree_refines_witness:
  "\<exists>t. range_run (tree_put 32) tree_del ex_ops Null = Some t \<and>
     mset (range_visit t (ex_range [10, 1, 2, 3] 32)) = mset [ex_set [65] 0, ex_set [66] 1]"
proof -
  have "\<forall>x \<in> set ex_ops. prefix_fits 32 (op_prefix x)" "prefix_fits 32 (ex_range [10, 1, 2, 3] 32)"
      "px_bitlen (ex_range [10, 1, 2, 3] 32) = 32"
    by (simp_all add: ex_ops_def prefix_fits_def ex_range_def)
  from range_tree_refines [OF this] show ?thesis unfolding ex_spec .
qed

end
