(* ===== verification/Spec2Isabelle.thy ===== *)
theory Spec2Isabelle
  imports Net_Protocol Pipeline TCP_Reassembly Range_Tables
begin

text \<open>
  OpenLI is a lawful intercept system of three programs. The provisioner holds the intercepts and
  announces them to the collectors and mediators over a control protocol. A collector watches
  packets, and turns those of an intercept into numbered records. A mediator receives the records
  and hands them to the agencies. The development models the protocol with its buffers, which all
  three programs use, and the path of a record through a collector to the mediator.

  \<^bold>\<open>Conventions.\<close> A struct is a record whose fields are prefixed by the initials of the struct; an
  enumeration whose values come from the network is a word with named constants. A buffer is a
  memory of bytes addressed by offsets, so that a pointer into it is an offset. A \<^verbatim>\<open>char *\<close> is an
  optional byte string. A uthash table is the list of its items in the order of insertion. A
  result \<^term>\<open>None\<close> of an operation means that the C code stops, or that its behaviour is
  undefined there (a NULL pointer followed, a write outside an allocation, a failed assertion);
  a return value of -1 and the like is a value of the model. Integers have their width where they
  can wrap. Memory allocation, sockets, TLS, the message queues, the hash function and the
  libraries for packets and ASN.1 are arguments of the definitions.

  \<^bold>\<open>Foundations.\<close> \<^theory_text>\<open>Prelude\<close> has the types and generic lemmas, \<^theory_text>\<open>Byteswap\<close> the byte order
  conversions (\<^verbatim>\<open>byteswap.c\<close>), \<^theory_text>\<open>Intercept_Types\<close> the data that the programs exchange
  (\<^verbatim>\<open>intercept.h\<close>, \<^verbatim>\<open>agency.h\<close>), \<^theory_text>\<open>Uthash\<close> the hash tables, \<^theory_text>\<open>Util\<close> address keys, comparison
  and ranges (\<^verbatim>\<open>util.c\<close>), \<^theory_text>\<open>Coreserver\<close> the lists of core servers (\<^verbatim>\<open>coreserver.c\<close>). The lemmas give
  the result of each function on every branch.

  \<^bold>\<open>The control protocol\<close> (\<^verbatim>\<open>netcomms.c\<close>). \<^theory_text>\<open>Wire_Types\<close> has the message and field types,
  \<^theory_text>\<open>Net_Buffer\<close> the buffer with its growth, pushes, transmission and reception, \<^theory_text>\<open>Net_Encode\<close> and
  \<^theory_text>\<open>Net_Decode\<close> one definition per message. \<^theory_text>\<open>Byte_Fifo\<close> is the interface of a transmission
  buffer; \<^theory_text>\<open>Net_Stream\<close> shows that the send buffer provides it and that the receiver recovers the
  messages of a stream that is cut into arbitrary chunks. \<^theory_text>\<open>Net_Roundtrip\<close> proves once, for every
  handler of fields, that the walk over a message is the fold of the handler over its fields;
  \<^theory_text>\<open>Net_Protocol\<close> concludes that what is announced is what is decoded, and that a push that fails
  leaves the queued bytes alone.

  \<^bold>\<open>The collector.\<close> \<^theory_text>\<open>Export_Buffer\<close> is the buffer of records for a mediator (\<^verbatim>\<open>export_buffer.c\<close>), a
  byte queue under appends and partial writes. \<^theory_text>\<open>Publish\<close> has the messages between the threads
  (\<^verbatim>\<open>collector_publish.c\<close>). \<^theory_text>\<open>Seq_Tracker\<close> numbers the records (\<^verbatim>\<open>collector_seqtracker.c\<close>): the tables
  stay well formed and the numbers of each kind are consecutive. \<^theory_text>\<open>Encoder\<close> is the job loop of
  \<^verbatim>\<open>encoder_worker.c\<close>. \<^theory_text>\<open>Forwarder\<close> is the forwarding thread (\<^verbatim>\<open>collector_forwarder.c\<close>), a step relation
  with an invariant, and its reordering of records. \<^theory_text>\<open>Pipeline\<close> connects them, and the two theorems
  below state what the composition achieves: the order of publication is the order of export, and
  the mediator's reader delivers what was queued.
  \<^theory_text>\<open>IP_Reassembly\<close> and \<^theory_text>\<open>TCP_Reassembly\<close> are the two halves of \<^verbatim>\<open>reassembler.c\<close>: a fragmented
  datagram is recovered from its fragments in any order, and pipelined SIP messages are delivered
  in order; the remaining theorems there state where the code loses messages.

  \<^bold>\<open>Bounds.\<close> The loops over received bytes, over fields and over fragments recurse on data that get
  shorter. Two loops take fuel: the reader of a stream is run for a number of calls, and its
  theorem needs as many as there are messages and chunks; the forwarding of a run of records ends
  because each record is taken out of the table. The bounds of \<open>2 ^ 32\<close> in the statements are the
  range of the sequence numbers, and those on the lengths of names are the sizes of the buffers
  into which the code prints them.

  \<^bold>\<open>Not modelled.\<close> The ASN.1 encodings are built by libwandder; the packet threads, the SIP parser,
  the HTTP interface and the configuration parser are written around libtrace, osip,
  libmicrohttpd, json-c and libyaml, which are not part of the repository; logging, TLS set-up and
  the creation of threads are calls of libraries. The synchronisation threads, the session
  plugins for RADIUS and GTP, the mail protocols, the mediator's handovers and the provisioner's
  update logic are not modelled.
\<close>

subsection \<open>Properties that span components\<close>

text \<open>C1. The records of an intercept leave the collector in the order in which they were published.
  Let a sequence tracker that starts without intercepts number any sequence of published
  messages, in which an intercept is not ended, and let the encoders encode all its jobs and
  deliver the results to the forwarding thread in any order whatever. With memory available, the
  buffer of the mediator that they are for then holds, for each CIN of the intercept and each
  kind, CC or IRI, exactly the records of the jobs, each once, in the order of their
  publication.\<close>

theorem records_in_published_order:
  assumes "seqtracker_main ms n st = Some (jobs, n', st')" "sq_intercepts st = []"
    "\<forall>(env, msg) \<in> set ms. (\<forall>j. 0 \<le> te_send env j) \<and> \<not> ends key msg"
    "\<forall>j \<in> set jobs. encode_job etsi j \<noteq> None \<and> fr_ok (record_of etsi j) \<and>
       xr_destid (ej_origreq j) = mid \<and> length (c_str (ej_liid j)) \<le> 1000"
    "length jobs < 2 ^ 32" "no_nul key" "length key \<le> 1000"
    "mset rs = mset (map (record_of etsi) jobs)"
    "\<forall>n. ok n" "fresh_for mid fwd"
  shows "\<exists>fwd' outs. forward_run ok m rs fwd = Some fwd' \<and> holds_records mid outs fwd' \<and>
    (\<forall>cc cin. filter (of_kind cc (cin_string key cin)) outs =
       map (record_of etsi) (filter (job_for key cin cc) jobs))"
proof -
  have recs: "\<forall>r \<in> set rs. fr_destid r = mid \<and> fr_liid r \<noteq> None \<and> fr_ok r" "length rs < 2 ^ 32"
    using pipeline_records [OF assms(8), of mid] assms(4,5) by auto
  obtain fwd' where run: "forward_run ok m rs fwd = Some fwd'"
    using forward_run_succeeds [OF assms(9) forward_inv_fresh [OF assms(10)]] recs(1) by fastforce
  obtain outs where outs: "holds_records mid outs fwd'" "set outs \<subseteq> set rs"
    "\<And>cc key. map fr_seqno (filter (of_kind cc key) outs) = map of_nat [0..<length (filter (of_kind cc key) outs)]"
    "\<And>cc key. \<forall>r \<in> set rs. of_kind cc key r \<longrightarrow> fr_seqno r \<noteq> of_nat (length (filter (of_kind cc key) outs))"
    using forward_run_order [OF run assms(10) _ recs(2)] recs(1) by blast
  have "filter (of_kind cc (cin_string key cin)) outs =
      map (record_of etsi) (filter (job_for key cin cc) jobs)" for cc cin
    using assms(4) by (intro pipeline_outs [OF assms(1-3) _ assms(5-8) outs(2-4)]) auto
  with run outs(1) show ?thesis by blast
qed

definition ex_etsi :: "encoding_job \<Rightarrow> encoded_result option" where
  "ex_etsi job = Some \<lparr> er_header = populate_header 1 1 0, er_encoded = [7], er_msglen = 1,
     er_ipcontents = [], er_ipclen = 0 \<rparr>"

theorem records_in_published_order_witness:
  "\<exists>jobs n' st' fwd' outs.
     seqtracker_main [(ex_env, ex_announce), (ex_env, ex_ipcc), (ex_env, ex_ipcc)] 0 ex_tracker =
       Some (jobs, n', st') \<and> length (filter (job_for [65] 7 True) jobs) = 2 \<and>
     forward_run (\<lambda>_. True) (\<lambda>_. 0) (rev (map (record_of ex_etsi) jobs)) (forwarder_init False) = Some fwd' \<and>
     holds_records 1 outs fwd' \<and>
     filter (of_kind True (cin_string [65] 7)) outs =
       map (record_of ex_etsi) (filter (job_for [65] 7 True) jobs)"
proof -
  let ?ms = "[(ex_env, ex_announce), (ex_env, ex_ipcc), (ex_env, ex_ipcc)]"
  obtain jobs n' st' where run: "seqtracker_main ?ms 0 ex_tracker = Some (jobs, n', st')"
    and len: "length (filter (job_for [65] 7 True) jobs) = 2" "length jobs = 2"
    and jobs: "\<forall>j \<in> set jobs. ej_origreq j = ex_ipcc \<and> ej_liid j = [65]"
    using ex_run by blast
  have "\<forall>j \<in> set jobs. encode_job ex_etsi j \<noteq> None \<and> fr_ok (record_of ex_etsi j) \<and>
      xr_destid (ej_origreq j) = 1 \<and> length (c_str (ej_liid j)) \<le> 1000"
    using jobs by (auto simp: encode_job_def record_of_def ex_etsi_def ex_ipcc_def export_type_defs fr_ok_def
        er_ok_def c_str_def)
  moreover have "\<forall>(env, msg) \<in> set ?ms. (\<forall>j. 0 \<le> te_send env j) \<and> \<not> ends [65] msg"
    by (simp add: ends_def ex_env_def ex_announce_def ex_ipcc_def export_type_defs)
  moreover have "fresh_for 1 (forwarder_init False)"
    by (simp add: fresh_for_def forwarder_init_def JLG_def)
  ultimately have "\<exists>fwd' outs. forward_run (\<lambda>_. True) (\<lambda>_. 0) (rev (map (record_of ex_etsi) jobs))
      (forwarder_init False) = Some fwd' \<and> holds_records 1 outs fwd' \<and>
    (\<forall>cc cin. filter (of_kind cc (cin_string [65] cin)) outs =
       map (record_of ex_etsi) (filter (job_for [65] cin cc) jobs))"
    using len(2)
    by (intro records_in_published_order [OF run]) (simp_all add: ex_tracker_def no_nul_def)
  with run len(1) show ?thesis by blast
qed

text \<open>C2. What a collector queues for a mediator is what the mediator receives: when the records queued
  in an export buffer are protocol messages and the connection has accepted all of them, in
  whatever portions, then the receiving code of the mediator, reading the stream in arbitrary
  chunks, delivers exactly these messages in order.\<close>

theorem mediator_receives_records:
  assumes "eb_inv b" "eb_unsent b = []" "\<forall>op \<in> set ops. export_op_ok op"
    "export_run ok ops b = Some (out, b')" "eb_unsent b' = []"
    "export_input ops = concat (map message_bytes ms)" "list_all message_ok ms"
    "recv_alloc_ok ok'" "concat cs = out" "\<forall>c \<in> set cs. c \<noteq> [] \<and> length c \<le> NETBUF_ALLOC_SIZE"
    "length ms + length cs \<le> n"
  shows "\<exists>nb. receive_calls ok' n cs (create_net_buffer m NETBUF_RECV fd ssl) = Some (ms, [], nb) \<and>
    nb_content nb = []"
  using assms by (rule export_to_receiver)

lemma ex_export_run:
  assumes "length x = 16"
  shows "\<exists>b'. export_run (\<lambda>_. True) [Queue_pdu x, Transmit False [\<lambda>bs. Sent (length bs)] 100]
     (init_export_buffer (\<lambda>_. 0)) = Some (x, b') \<and> eb_unsent b' = []"
proof -
  have "mem_read (mem_write (\<lambda>_. 0) 0 x) 0 16 = x"
    using mem_read_write [of "\<lambda>_. 0" 0 x] assms by simp
  then show ?thesis
    using assms by (simp add: export_eval Let_def eb_unsent_def eb_content_def)
qed

theorem mediator_receives_records_witness:
  "\<exists>nb. receive_calls (\<lambda>_. True) 4 [take 5 (msg_bytes 15 0 []), drop 5 (msg_bytes 15 0 [])]
     (create_net_buffer (\<lambda>_. 0) NETBUF_RECV 3 None) = Some ([(15, 0, [])], [], nb) \<and> nb_content nb = []"
proof -
  let ?x = "msg_bytes 15 0 []"
  have len: "length ?x = 16" by (simp add: ii_header_size_def)
  obtain b' where run: "export_run (\<lambda>_. True) [Queue_pdu ?x, Transmit False [\<lambda>bs. Sent (length bs)] 100]
     (init_export_buffer (\<lambda>_. 0)) = Some (?x, b')" "eb_unsent b' = []"
    using ex_export_run [OF len] by blast
  have chunks: "\<forall>c \<in> set [take 5 ?x, drop 5 ?x]. c \<noteq> [] \<and> length c \<le> NETBUF_ALLOC_SIZE"
    using len by (auto simp: NETBUF_ALLOC_SIZE_def simp del: length_msg_bytes)
  show ?thesis
    by (intro mediator_receives_records [OF eb_inv_init _ _ run _ _ _ _ chunks])
      (simp_all add: eb_unsent_def eb_content_def get_buffered_amount_def init_export_buffer_def
        honest_def recv_alloc_ok_def message_ok_def message_bytes_def)
qed

end
